(* ===== verification/Prelude.thy ===== *)
theory Prelude
  imports Main "HOL-Library.Word" "HOL-Library.Monad_Syntax"
begin

text \<open>
  Shared vocabulary of the development.  It fixes how Go values are represented:

  \<^item> \<open>byte\<close>, \<open>uint16\<close> and \<open>uint32\<close> are words, so that arithmetic wraps as in Go;
  \<^item> a slice is a list, a Go string is a list of 8-bit characters;
  \<^item> a runtime panic (index or slice out of range) is \<open>None\<close>: the checked accessors
    \<open>go_index\<close>, \<open>go_slice\<close>, \<open>go_from\<close>, \<open>Uint16\<close>, \<open>Uint32\<close> and the checked writes
    \<open>PutUint16\<close>, \<open>PutUint32\<close>, \<open>go_copy\<close> live in the option monad.  The upper bound
    of a slice expression is checked against the length of the slice (Go checks its
    capacity, which is never smaller), so a proof that \<open>None\<close> is not the result is a
    proof that Go does not panic.

  The rest are the lemmas on big-endian words and on in-place writes (\<open>blit\<close>) that the
  packet components share, and the simp collections \<open>go_simps\<close> (the accessors, unfolded)
  and \<open>blit_simps\<close> (reading after writing), with the rules \<open>returns_intros\<close> for the absence of
  panics.
\<close>

unbundle bit_operations_syntax

type_synonym byte = "8 word"
type_synonym uint8 = "8 word"
type_synonym uint16 = "16 word"
type_synonym uint32 = "32 word"

named_theorems go_simps
named_theorems blit_simps
named_theorems returns_intros

section \<open>Checked access to slices\<close>

definition go_index :: "'a list \<Rightarrow> nat \<Rightarrow> 'a option" where
  "go_index xs i = (if i < length xs then Some (xs ! i) else None)"

definition go_slice :: "'a list \<Rightarrow> nat \<Rightarrow> nat \<Rightarrow> 'a list option" where
  "go_slice xs lo hi =
     (if lo \<le> hi \<and> hi \<le> length xs then Some (take (hi - lo) (drop lo xs)) else None)"

definition go_from :: "'a list \<Rightarrow> nat \<Rightarrow> 'a list option" where
  "go_from xs lo = (if lo \<le> length xs then Some (drop lo xs) else None)"

lemma go_index_Some [go_simps]: "i < length xs \<Longrightarrow> go_index xs i = Some (xs ! i)"
  by (simp add: go_index_def)

lemma go_slice_Some:
  "lo \<le> hi \<Longrightarrow> hi \<le> length xs \<Longrightarrow> go_slice xs lo hi = Some (take (hi - lo) (drop lo xs))"
  by (simp add: go_slice_def)

lemma go_from_Some [go_simps]: "lo \<le> length xs \<Longrightarrow> go_from xs lo = Some (drop lo xs)"
  by (simp add: go_from_def)

lemma go_slice_append:
  "lo = length xs \<Longrightarrow> hi = lo + length ys \<Longrightarrow> go_slice (xs @ ys @ zs) lo hi = Some ys"
  by (simp add: go_slice_def)

lemma go_index_append: "i = length xs \<Longrightarrow> go_index (xs @ b # ys) i = Some b"
  by (simp add: go_index_def)

text \<open>
  \<open>returns m\<close>: the computation does not panic.  The rules in \<open>returns_intros\<close> follow the
  structure of a computation.
\<close>

definition returns :: "'a option \<Rightarrow> bool" where
  "returns m \<longleftrightarrow> m \<noteq> None"

lemma returns_Some [simp]: "returns (Some x)"
  by (simp add: returns_def)

lemma returnsD: "returns m \<Longrightarrow> \<exists>x. m = Some x"
  by (simp add: returns_def)

lemma returns_bind [returns_intros]:
  "returns m \<Longrightarrow> (\<And>x. m = Some x \<Longrightarrow> returns (f x)) \<Longrightarrow> returns (Option.bind m f)"
  by (cases m) (auto simp: returns_def)

lemma bind_SomeE:
  assumes "Option.bind m f = Some y"
  obtains x where "m = Some x" "f x = Some y"
  using assms by (cases m) auto

lemma returns_map [returns_intros]: "returns m \<Longrightarrow> returns (map_option f m)"
  by (simp add: returns_def)

lemma returns_index [returns_intros]: "i < length xs \<Longrightarrow> returns (go_index xs i)"
  by (simp add: returns_def go_index_def)

lemma returns_slice [returns_intros]: "lo \<le> hi \<Longrightarrow> hi \<le> length xs \<Longrightarrow> returns (go_slice xs lo hi)"
  by (simp add: returns_def go_slice_def)

lemma returns_from [returns_intros]: "lo \<le> length xs \<Longrightarrow> returns (go_from xs lo)"
  by (simp add: returns_def go_from_def)

lemma go_slice_length: "go_slice xs lo hi = Some ys \<Longrightarrow> length ys = hi - lo \<and> hi \<le> length xs"
  by (auto simp: go_slice_def split: if_splits)

section \<open>Big-endian integers (encoding/binary)\<close>

definition be16 :: "byte \<Rightarrow> byte \<Rightarrow> uint16" where
  "be16 a b = push_bit 8 (ucast a) OR ucast b"

definition be32 :: "byte \<Rightarrow> byte \<Rightarrow> byte \<Rightarrow> byte \<Rightarrow> uint32" where
  "be32 a b c d =
     push_bit 24 (ucast a) OR push_bit 16 (ucast b) OR push_bit 8 (ucast c) OR ucast d"

definition hi8 :: "uint16 \<Rightarrow> byte" where
  "hi8 w = ucast (drop_bit 8 w)"

definition lo8 :: "uint16 \<Rightarrow> byte" where
  "lo8 w = ucast w"

definition Uint16 :: "byte list \<Rightarrow> uint16 option" where
  "Uint16 bs = (case bs of a # b # _ \<Rightarrow> Some (be16 a b) | _ \<Rightarrow> None)"

definition Uint32 :: "byte list \<Rightarrow> uint32 option" where
  "Uint32 bs = (case bs of a # b # c # d # _ \<Rightarrow> Some (be32 a b c d) | _ \<Rightarrow> None)"

definition bytes32 :: "uint32 \<Rightarrow> byte list" where
  "bytes32 w = [ucast (drop_bit 24 w), ucast (drop_bit 16 w), ucast (drop_bit 8 w), ucast w]"

lemma unat_byte_less [simp]: "unat (b :: byte) < 256"
  using unsigned_less [of b, where ?'a = nat] by simp

lemma unat_byte_less_ge [simp]: "256 \<le> n \<Longrightarrow> unat (b :: byte) < n"
  using unat_byte_less [of b] by linarith

lemma unat_uint16_less [simp]: "unat (w :: uint16) < 65536"
  using unsigned_less [of w, where ?'a = nat] by simp

lemma unat_uint32_less [simp]: "unat (w :: uint32) < 4294967296"
  using unsigned_less [of w, where ?'a = nat] by simp

lemma bit_byte_ge [simp]: "8 \<le> n \<Longrightarrow> \<not> bit (b :: byte) n"
  by (auto dest: bit_imp_le_length)

lemma bit_uint16_ge [simp]: "16 \<le> n \<Longrightarrow> \<not> bit (w :: uint16) n"
  by (auto dest: bit_imp_le_length)

lemma unat_be16: "unat (be16 a b) = unat a * 256 + unat b"
proof -
  have "be16 a b = push_bit 8 (ucast a) + ucast b"
    unfolding be16_def
    by (rule disjunctive_add [symmetric]) (auto simp: bit_simps)
  moreover have "unat (push_bit 8 (ucast a :: uint16)) = unat a * 256"
  proof -
    have "unat a mod 65536 = unat a" "(unat a * 256) mod 65536 = unat a * 256"
      using unat_byte_less [of a] by simp_all
    then show ?thesis
      by (simp add: push_bit_eq_mult unat_word_ariths unsigned_ucast_eq take_bit_eq_mod)
  qed
  moreover have "unat a * 256 + unat b < 65536"
    using unat_byte_less [of a] unat_byte_less [of b] by linarith
  ultimately show ?thesis
    using unat_byte_less [of b]
    by (simp add: unat_word_ariths unsigned_ucast_eq take_bit_eq_mod)
qed

lemma and_0F_less: "unat ((b :: byte) AND 0x0F) < 16"
proof -
  have "b AND 0x0F = take_bit 4 b"
    by (simp add: take_bit_eq_mask mask_eq_exp_minus_1)
  then have "unat (b AND 0x0F) = take_bit 4 (unat b)"
    by (simp add: unsigned_take_bit_eq)
  then show ?thesis
    using take_bit_nat_less_exp [of 4 "unat b"] by simp
qed

lemma be16_hi8_lo8 [simp]: "be16 (hi8 w) (lo8 w) = w"
  by (rule bit_word_eqI) (auto simp: be16_def hi8_def lo8_def bit_simps)

lemma hi8_be16 [simp]: "hi8 (be16 a b) = a"
  by (rule bit_word_eqI) (auto simp: be16_def hi8_def bit_simps)

lemma lo8_be16 [simp]: "lo8 (be16 a b) = b"
  by (rule bit_word_eqI) (auto simp: be16_def lo8_def bit_simps)

lemma be16_0_0 [simp]: "be16 0 0 = 0"
  by (simp add: be16_def)

lemma be32_high: "ucast (drop_bit 16 (be32 a b c d)) = be16 a b"
  by (rule bit_word_eqI) (auto simp: be32_def be16_def bit_simps add.commute)

lemma be32_low: "ucast (be32 a b c d) = be16 c d"
  by (rule bit_word_eqI) (auto simp: be32_def be16_def bit_simps)

lemma bytes32_be32 [simp]: "bytes32 (be32 a b c d) = [a, b, c, d]"
  by (auto simp: be32_def bytes32_def bit_simps intro!: bit_word_eqI)

lemma be32_bytes32:
  "be32 (ucast (drop_bit 24 w)) (ucast (drop_bit 16 w)) (ucast (drop_bit 8 w)) (ucast w) = w"
proof (rule bit_word_eqI)
  fix n
  assume "n < LENGTH(32)"
  then consider "n < 8" | "8 \<le> n" "n < 16" | "16 \<le> n" "n < 24" | "24 \<le> n" "n < 32"
    by fastforce
  then show "bit (be32 (ucast (drop_bit 24 w)) (ucast (drop_bit 16 w))
      (ucast (drop_bit 8 w)) (ucast w)) n = bit w n"
    by cases (auto simp: be32_def bit_simps)
qed

lemma unat_of_nat16: "n < 65536 \<Longrightarrow> unat (of_nat n :: uint16) = n"
  by (simp add: unat_of_nat take_bit_nat_eq_self)

lemma unat_of_nat8: "n < 256 \<Longrightarrow> unat (of_nat n :: byte) = n"
  by (simp add: unat_of_nat take_bit_nat_eq_self)

section \<open>In-place writes\<close>

text \<open>
  Every write of the sources into a byte slice replaces a run of bytes by as many others:
  \<open>blit xs i ys\<close> is the slice after \<open>copy(xs[i:], ys)\<close> when \<open>ys\<close> fits.
\<close>

definition blit :: "'a list \<Rightarrow> nat \<Rightarrow> 'a list \<Rightarrow> 'a list" where
  "blit xs i ys = take i xs @ ys @ drop (i + length ys) xs"

text \<open>\<open>copy(xs[lo:hi], ys)\<close>: panics when the slice expression is out of range, and
  copies the shorter of the two lengths.\<close>

definition go_copy :: "'a list \<Rightarrow> nat \<Rightarrow> nat \<Rightarrow> 'a list \<Rightarrow> 'a list option" where
  "go_copy xs lo hi ys =
     (if lo \<le> hi \<and> hi \<le> length xs then Some (blit xs lo (take (hi - lo) ys)) else None)"

definition go_set :: "'a list \<Rightarrow> nat \<Rightarrow> 'a \<Rightarrow> 'a list option" where
  "go_set xs i y = (if i < length xs then Some (blit xs i [y]) else None)"

definition PutUint16 :: "byte list \<Rightarrow> nat \<Rightarrow> nat \<Rightarrow> uint16 \<Rightarrow> byte list option" where
  "PutUint16 xs lo hi w =
     (if lo + 2 \<le> hi \<and> hi \<le> length xs then Some (blit xs lo [hi8 w, lo8 w]) else None)"

definition PutUint32 :: "byte list \<Rightarrow> nat \<Rightarrow> nat \<Rightarrow> uint32 \<Rightarrow> byte list option" where
  "PutUint32 xs lo hi w =
     (if lo + 4 \<le> hi \<and> hi \<le> length xs then Some (blit xs lo (bytes32 w)) else None)"

lemma length_bytes32 [simp]: "length (bytes32 w) = 4"
  by (simp add: bytes32_def)

lemma length_blit [simp]: "i + length ys \<le> length xs \<Longrightarrow> length (blit xs i ys) = length xs"
  by (simp add: blit_def)

lemma nth_blit:
  "i + length ys \<le> length xs \<Longrightarrow> j < length xs \<Longrightarrow>
   blit xs i ys ! j = (if i \<le> j \<and> j < i + length ys then ys ! (j - i) else xs ! j)"
  by (auto simp: blit_def nth_append min_def)

lemma blit_Nil [simp]: "blit xs i [] = xs"
  by (simp add: blit_def)

text \<open>A field is the run \<open>xs[i:i+n]\<close> of a slice.\<close>

definition field :: "'a list \<Rightarrow> nat \<Rightarrow> nat \<Rightarrow> 'a list" where
  "field xs i n = take n (drop i xs)"

lemma length_field [simp]: "i + n \<le> length xs \<Longrightarrow> length (field xs i n) = n"
  by (simp add: field_def)

lemma nth_field: "i + n \<le> length xs \<Longrightarrow> k < n \<Longrightarrow> field xs i n ! k = xs ! (i + k)"
  by (simp add: field_def)

lemma field_blit_same [blit_simps]:
  "i + length ys \<le> length xs \<Longrightarrow> n = length ys \<Longrightarrow> field (blit xs i ys) i n = ys"
  by (simp add: field_def blit_def)

lemma field_blit_other [blit_simps]:
  assumes "i + length ys \<le> length xs" and "j + n \<le> length xs"
    and "j + n \<le> i \<or> i + length ys \<le> j"
  shows "field (blit xs i ys) j n = field xs j n"
  using assms by (auto intro!: nth_equalityI simp: nth_field nth_blit)

lemma blit_field_same [simp]: "i + n \<le> length xs \<Longrightarrow> blit xs i (field xs i n) = xs"
  by (rule nth_equalityI) (auto simp: nth_blit nth_field)

lemma blit_blit_same:
  "i + length ys \<le> length xs \<Longrightarrow> length zs = length ys \<Longrightarrow> blit (blit xs i ys) i zs = blit xs i zs"
  by (rule nth_equalityI) (auto simp: nth_blit)

lemma go_slice_field [go_simps]:
  "go_slice xs i j = (if i \<le> j \<and> j \<le> length xs then Some (field xs i (j - i)) else None)"
  by (simp add: go_slice_def field_def)

lemma Uint16_field: "i + 2 \<le> length xs \<Longrightarrow> Uint16 (field xs i 2) = Some (be16 (xs ! i) (xs ! Suc i))"
  by (simp add: Uint16_def field_def numeral_2_eq_2 Cons_nth_drop_Suc [symmetric]
      take_Suc_conv_app_nth)

lemma go_copy_Some [go_simps]:
  "lo \<le> hi \<Longrightarrow> hi \<le> length xs \<Longrightarrow> go_copy xs lo hi ys = Some (blit xs lo (take (hi - lo) ys))"
  by (simp add: go_copy_def)

lemma go_set_Some [go_simps]: "i < length xs \<Longrightarrow> go_set xs i y = Some (blit xs i [y])"
  by (simp add: go_set_def)

lemma PutUint16_Some [go_simps]:
  "lo + 2 \<le> hi \<Longrightarrow> hi \<le> length xs \<Longrightarrow> PutUint16 xs lo hi w = Some (blit xs lo [hi8 w, lo8 w])"
  by (simp add: PutUint16_def)

lemma PutUint32_Some [go_simps]:
  "lo + 4 \<le> hi \<Longrightarrow> hi \<le> length xs \<Longrightarrow> PutUint32 xs lo hi w = Some (blit xs lo (bytes32 w))"
  by (simp add: PutUint32_def)

section \<open>Integers at a position\<close>

text \<open>\<open>binary.BigEndian.Uint16(b[lo:hi])\<close> and \<open>Uint32\<close>.\<close>

definition u16_at :: "byte list \<Rightarrow> nat \<Rightarrow> nat \<Rightarrow> uint16 option" where
  "u16_at b lo hi = Option.bind (go_slice b lo hi) Uint16"

definition u32_at :: "byte list \<Rightarrow> nat \<Rightarrow> nat \<Rightarrow> uint32 option" where
  "u32_at b lo hi = Option.bind (go_slice b lo hi) Uint32"

lemma drop_two:
  "i + 1 < length xs \<Longrightarrow> drop i xs = xs ! i # xs ! (i + 1) # drop (i + 2) xs"
  by (simp add: Cons_nth_drop_Suc)

lemma u16_at_Some [go_simps]:
  "lo + 2 \<le> hi \<Longrightarrow> hi \<le> length b \<Longrightarrow> u16_at b lo hi = Some (be16 (b ! lo) (b ! (lo + 1)))"
proof -
  assume "lo + 2 \<le> hi" "hi \<le> length b"
  moreover from this have "drop lo b = b ! lo # b ! (lo + 1) # drop (lo + 2) b"
    by (simp add: drop_two)
  moreover have "\<exists>k. hi - lo = 2 + k"
    using calculation(1) by (intro exI [of _ "hi - lo - 2"]) simp
  ultimately show ?thesis
    by (auto simp: u16_at_def go_slice_def Uint16_def)
qed

lemma returns_u16_at [returns_intros]: "lo + 2 \<le> hi \<Longrightarrow> hi \<le> length b \<Longrightarrow> returns (u16_at b lo hi)"
  by (simp add: u16_at_Some)

lemma u32_at_Some [go_simps]:
  "lo + 4 \<le> hi \<Longrightarrow> hi \<le> length b \<Longrightarrow>
   u32_at b lo hi = Some (be32 (b ! lo) (b ! (lo + 1)) (b ! (lo + 2)) (b ! (lo + 3)))"
proof -
  assume "lo + 4 \<le> hi" "hi \<le> length b"
  moreover from this have "drop lo b = b ! lo # b ! (lo + 1) # b ! (lo + 2) # b ! (lo + 3) # drop (lo + 4) b"
    by (simp add: Cons_nth_drop_Suc numeral_eq_Suc)
  moreover have "\<exists>k. hi - lo = 4 + k"
    using calculation(1) by (intro exI [of _ "hi - lo - 4"]) simp
  ultimately show ?thesis
    by (auto simp: u32_at_def go_slice_def Uint32_def numeral_eq_Suc)
qed

lemma returns_u32_at [returns_intros]: "lo + 4 \<le> hi \<Longrightarrow> hi \<le> length b \<Longrightarrow> returns (u32_at b lo hi)"
  by (simp add: u32_at_Some)

lemma take_two: "2 \<le> length xs \<Longrightarrow> take 2 xs = [xs ! 0, xs ! 1]"
  by (cases xs; cases "tl xs") auto

text \<open>The two bytes of a 16-bit number, for the encodings the parsers are checked against.\<close>

definition u16b :: "nat \<Rightarrow> byte list" where
  "u16b n = [hi8 (of_nat n), lo8 (of_nat n)]"

lemma length_u16b [simp]: "length (u16b n) = 2"
  by (simp add: u16b_def)

lemma u16b_nth [simp]: "u16b n ! 0 = hi8 (of_nat n)" "u16b n ! Suc 0 = lo8 (of_nat n)"
  by (simp_all add: u16b_def)

lemma u16_at_append:
  "lo = length xs \<Longrightarrow> hi = lo + 2 \<Longrightarrow> u16_at (xs @ u16b n @ ys) lo hi = Some (of_nat n)"
  by (simp add: go_simps nth_append)

section \<open>Durations\<close>

text \<open>\<open>int64\<close> arithmetic: \<open>time.Duration(n) * time.Second\<close> wraps.\<close>

definition int64 :: "int \<Rightarrow> int" where
  "int64 n = (n + 2 ^ 63) mod 2 ^ 64 - 2 ^ 63"

definition second :: int where
  "second = 1000000000"

definition dur_seconds :: "int \<Rightarrow> int" where
  "dur_seconds n = int64 (n * second)"

lemma int64_id: "- (2 ^ 63) \<le> n \<Longrightarrow> n < 2 ^ 63 \<Longrightarrow> int64 n = n"
  by (simp add: int64_def)

lemma dur_seconds_pos: "0 < n \<Longrightarrow> n \<le> 9223372036 \<Longrightarrow> dur_seconds n = n * second \<and> 0 < dur_seconds n"
  by (simp add: dur_seconds_def second_def int64_id)

end
