(* ===== verification/GoStrings.thy ===== *)
theory GoStrings
  imports Prelude
begin

text \<open>
  The functions of Go's packages \<open>strings\<close>, \<open>bytes\<close> and \<open>strconv\<close> that the sources call, on
  strings as lists of 8-bit characters.  Go treats a string without bytes above 127 directly
  and consults its Unicode tables otherwise; the tables are not modelled, so the case where
  a string is not ASCII is the parameter record \<open>unicode\<close>, handed to every function that
  needs it.  No theorem of the development assumes anything about it.
\<close>

record unicode =
  uni_lower :: "string \<Rightarrow> string"
  uni_upper :: "string \<Rightarrow> string"
  uni_trim :: "string \<Rightarrow> string"
  uni_fields :: "string \<Rightarrow> string list"
  uni_fold :: "string \<Rightarrow> string \<Rightarrow> bool"

text \<open>A table for evaluating examples: nothing above 127 is changed.\<close>

definition plain_unicode :: unicode where
  "plain_unicode = \<lparr>uni_lower = id, uni_upper = id, uni_trim = id, uni_fields = (\<lambda>s. [s]), uni_fold = (=)\<rparr>"

definition ascii :: "string \<Rightarrow> bool" where
  "ascii s = list_all (\<lambda>c. of_char c < (128 :: nat)) s"

section \<open>Bytes and characters\<close>

definition char_of_byte :: "byte \<Rightarrow> char" where
  "char_of_byte b = char_of (unat b)"

definition byte_of_char :: "char \<Rightarrow> byte" where
  "byte_of_char c = of_nat (of_char c)"

definition str :: "byte list \<Rightarrow> string" where
  "str bs = map char_of_byte bs"

definition bytes_of :: "string \<Rightarrow> byte list" where
  "bytes_of s = map byte_of_char s"

section \<open>Case and white space\<close>

definition lower_char :: "char \<Rightarrow> char" where
  "lower_char c =
     (let n = of_char c :: nat in if 65 \<le> n \<and> n \<le> 90 then char_of (n + 32) else c)"

definition upper_char :: "char \<Rightarrow> char" where
  "upper_char c =
     (let n = of_char c :: nat in if 97 \<le> n \<and> n \<le> 122 then char_of (n - 32) else c)"

definition ToLower :: "unicode \<Rightarrow> string \<Rightarrow> string" where
  "ToLower U s = (if ascii s then map lower_char s else uni_lower U s)"

definition ToUpper :: "unicode \<Rightarrow> string \<Rightarrow> string" where
  "ToUpper U s = (if ascii s then map upper_char s else uni_upper U s)"

definition EqualFold :: "unicode \<Rightarrow> string \<Rightarrow> string \<Rightarrow> bool" where
  "EqualFold U s t =
     (if ascii s \<and> ascii t then map lower_char s = map lower_char t else uni_fold U s t)"

definition is_space :: "char \<Rightarrow> bool" where
  "is_space c = ((of_char c :: nat) \<in> {9, 10, 11, 12, 13, 32})"

definition trim_with :: "('a \<Rightarrow> bool) \<Rightarrow> 'a list \<Rightarrow> 'a list" where
  "trim_with P s = rev (dropWhile P (rev (dropWhile P s)))"

definition TrimSpace :: "unicode \<Rightarrow> string \<Rightarrow> string" where
  "TrimSpace U s = (if ascii s then trim_with is_space s else uni_trim U s)"

text \<open>\<open>strings.Fields\<close>: the maximal runs of non-space characters.\<close>

fun fields_acc :: "string \<Rightarrow> string \<Rightarrow> string list" where
  "fields_acc cur [] = (if cur = [] then [] else [rev cur])"
| "fields_acc cur (c # cs) =
     (if is_space c then (if cur = [] then fields_acc [] cs else rev cur # fields_acc [] cs)
      else fields_acc (c # cur) cs)"

definition Fields :: "unicode \<Rightarrow> string \<Rightarrow> string list" where
  "Fields U s = (if ascii s then fields_acc [] s else uni_fields U s)"

section \<open>Searching\<close>

text \<open>\<open>strings.HasPrefix\<close>, \<open>HasSuffix\<close>, \<open>Contains\<close> with a constant pattern.\<close>

fun HasPrefix :: "'a list \<Rightarrow> 'a list \<Rightarrow> bool" where
  "HasPrefix s [] = True"
| "HasPrefix [] (p # ps) = False"
| "HasPrefix (c # s) (p # ps) = (c = p \<and> HasPrefix s ps)"

definition HasSuffix :: "'a list \<Rightarrow> 'a list \<Rightarrow> bool" where
  "HasSuffix s p = HasPrefix (rev s) (rev p)"

definition TrimPrefix :: "'a list \<Rightarrow> 'a list \<Rightarrow> 'a list" where
  "TrimPrefix s p = (if HasPrefix s p then drop (length p) s else s)"

definition TrimSuffix :: "'a list \<Rightarrow> 'a list \<Rightarrow> 'a list" where
  "TrimSuffix s p = (if HasSuffix s p then take (length s - length p) s else s)"

text \<open>\<open>Index\<close>: the first position of a pattern; \<open>None\<close> is Go's \<open>-1\<close>.\<close>

fun Index :: "'a list \<Rightarrow> 'a list \<Rightarrow> nat option" where
  "Index s p =
     (if HasPrefix s p then Some 0
      else case s of [] \<Rightarrow> None | _ # s' \<Rightarrow> map_option Suc (Index s' p))"

declare Index.simps [simp del]

definition Contains :: "'a list \<Rightarrow> 'a list \<Rightarrow> bool" where
  "Contains s p = (Index s p \<noteq> None)"

fun IndexByte :: "'a list \<Rightarrow> 'a \<Rightarrow> nat option" where
  "IndexByte [] c = None"
| "IndexByte (x # xs) c = (if x = c then Some 0 else map_option Suc (IndexByte xs c))"

fun LastIndexByte :: "'a list \<Rightarrow> 'a \<Rightarrow> nat option" where
  "LastIndexByte [] c = None"
| "LastIndexByte (x # xs) c =
     (case LastIndexByte xs c of
        Some i \<Rightarrow> Some (Suc i)
      | None \<Rightarrow> if x = c then Some 0 else None)"

text \<open>\<open>strings.Split\<close> at a one-character separator and \<open>strings.Join\<close>.\<close>

fun Split :: "'a list \<Rightarrow> 'a \<Rightarrow> 'a list list" where
  "Split [] c = [[]]"
| "Split (x # xs) c =
     (if x = c then [] # Split xs c
      else case Split xs c of [] \<Rightarrow> [[x]] | f # fs \<Rightarrow> (x # f) # fs)"

fun Join :: "'a list list \<Rightarrow> 'a list \<Rightarrow> 'a list" where
  "Join [] sep = []"
| "Join [f] sep = f"
| "Join (f # g # fs) sep = f @ sep @ Join (g # fs) sep"

section \<open>Numbers\<close>

definition digit_char :: "nat \<Rightarrow> char" where
  "digit_char d = (if d < 10 then char_of (48 + d) else char_of (87 + d))"

fun base_digits :: "nat \<Rightarrow> nat \<Rightarrow> string" where
  "base_digits b n =
     (if b < 2 \<or> n < b then [digit_char n] else base_digits b (n div b) @ [digit_char (n mod b)])"

declare base_digits.simps [simp del]

definition Itoa :: "nat \<Rightarrow> string" where
  "Itoa n = base_digits 10 n"

definition is_digit :: "char \<Rightarrow> bool" where
  "is_digit c = (48 \<le> (of_char c :: nat) \<and> (of_char c :: nat) \<le> 57)"

definition digit_val :: "char \<Rightarrow> nat" where
  "digit_val c = of_char c - 48"

fun dec_val :: "nat \<Rightarrow> string \<Rightarrow> nat" where
  "dec_val acc [] = acc"
| "dec_val acc (c # cs) = dec_val (acc * 10 + digit_val c) cs"

text \<open>
  \<open>strconv.Atoi\<close>: an optional sign and at least one digit, within the range of a 64-bit
  integer; every failure is an error to the callers here.
\<close>

definition Atoi :: "string \<Rightarrow> int option" where
  "Atoi s =
     (let (neg, ds) =
        (case s of [] \<Rightarrow> (False, [])
         | c # cs \<Rightarrow> if c = CHR ''-'' then (True, cs) else if c = CHR ''+'' then (False, cs)
                     else (False, s));
        n = int (dec_val 0 ds);
        v = (if neg then - n else n)
      in if ds = [] \<or> \<not> list_all is_digit ds \<or> v < - (2 ^ 63) \<or> 2 ^ 63 \<le> v then None else Some v)"

section \<open>Lemmas\<close>

lemma HasPrefix_iff: "HasPrefix s p \<longleftrightarrow> (\<exists>r. s = p @ r)"
  by (induction s p rule: HasPrefix.induct) auto

lemma HasPrefix_length: "HasPrefix s p \<Longrightarrow> length p \<le> length s"
  by (auto simp: HasPrefix_iff)

lemma HasSuffix_iff: "HasSuffix s p \<longleftrightarrow> (\<exists>r. s = r @ p)"
  by (auto simp: HasSuffix_def HasPrefix_iff) (metis rev_append rev_rev_ident)

lemma IndexByte_None: "IndexByte xs c = None \<longleftrightarrow> c \<notin> set xs"
  by (induction xs) auto

lemma IndexByte_Some_less: "IndexByte xs c = Some i \<Longrightarrow> i < length xs"
  by (induction xs arbitrary: i) (auto split: if_splits)

lemma LastIndexByte_Some_less: "LastIndexByte xs c = Some i \<Longrightarrow> i < length xs"
  by (induction xs arbitrary: i) (auto split: if_splits option.splits)

lemma LastIndexByte_None: "LastIndexByte xs c = None \<longleftrightarrow> c \<notin> set xs"
  by (induction xs) (auto split: option.splits)

lemma Index_Some: "Index s p = Some i \<Longrightarrow> i + length p \<le> length s \<and> HasPrefix (drop i s) p"
proof (induction s arbitrary: i)
  case Nil
  then show ?case
    by (auto simp: Index.simps HasPrefix_iff split: if_splits)
next
  case (Cons c s)
  show ?case
  proof (cases "HasPrefix (c # s) p")
    case True
    with Cons.prems show ?thesis
      by (auto simp: Index.simps [of "c # s"] HasPrefix_iff dest!: arg_cong [of _ _ length])
  next
    case False
    with Cons.prems obtain j where "Index s p = Some j" "i = Suc j"
      by (auto simp: Index.simps [of "c # s"])
    with Cons.IH show ?thesis
      by simp
  qed
qed

lemma length_str [simp]: "length (str bs) = length bs"
  by (simp add: str_def)

lemma IndexByte_hd: "IndexByte xs c = Some 0 \<Longrightarrow> xs ! 0 = c"
  by (cases xs) (auto split: if_splits)

lemma ascii_append [simp]: "ascii (xs @ ys) \<longleftrightarrow> ascii xs \<and> ascii ys"
  by (auto simp: ascii_def)

lemma ascii_Cons [simp]: "ascii (c # s) \<longleftrightarrow> of_char c < (128 :: nat) \<and> ascii s"
  by (simp add: ascii_def)

lemma is_space_consts [simp]: "is_space CHR 0x0A" "is_space CHR 0x0D" "is_space CHR '' ''"
  by (simp_all add: is_space_def)

lemma ascii_Nil [simp]: "ascii []"
  by (simp add: ascii_def)

lemma fields_acc_word:
  "list_all (\<lambda>c. \<not> is_space c) w \<Longrightarrow> fields_acc cur (w @ r) = fields_acc (rev w @ cur) r"
  by (induction w arbitrary: cur) auto

lemma IndexByte_append: "c \<notin> set xs \<Longrightarrow> IndexByte (xs @ c # ys) c = Some (length xs)"
  by (induction xs) auto

lemma LastIndexByte_append: "c \<notin> set ys \<Longrightarrow> LastIndexByte (xs @ c # ys) c = Some (length xs)"
  using LastIndexByte_None [of ys c] by (induction xs) auto

lemma trim_with_snoc: "P c \<Longrightarrow> xs \<noteq> [] \<Longrightarrow> \<not> P (hd xs) \<Longrightarrow> trim_with P (xs @ [c]) = trim_with P xs"
  by (cases xs) (auto simp: trim_with_def)

lemma trim_with_id: "xs \<noteq> [] \<Longrightarrow> \<not> P (hd xs) \<Longrightarrow> \<not> P (last xs) \<Longrightarrow> trim_with P xs = xs"
proof -
  assume xs: "xs \<noteq> []" "\<not> P (hd xs)" "\<not> P (last xs)"
  then have "dropWhile P xs = xs"
    by (cases xs) auto
  moreover have "dropWhile P (rev xs) = rev xs"
    using xs by (cases xs rule: rev_cases) auto
  ultimately show ?thesis
    by (simp add: trim_with_def)
qed

lemma trim_with_not_Nil: "xs \<noteq> [] \<Longrightarrow> \<not> P (hd xs) \<Longrightarrow> trim_with P xs \<noteq> []"
  by (cases xs) (auto simp: trim_with_def)

end
