(* ===== verification/GoNet.thy ===== *)
theory GoNet
  imports GoStrings
begin

text \<open>
  The part of Go's package \<open>net\<close> that the sources call: \<open>net.IP\<close> values (byte slices of
  length 4 or 16, the empty list standing for \<open>nil\<close>), their predicates, \<open>String\<close>,
  \<open>ParseIP\<close>, \<open>ParseCIDR\<close> with \<open>IPNet.Contains\<close>, and \<open>SplitHostPort\<close>/\<open>JoinHostPort\<close>.
\<close>

type_synonym netIP = "byte list"

section \<open>Addresses\<close>

definition v4InV6Prefix :: "byte list" where
  "v4InV6Prefix = [0, 0, 0, 0, 0, 0, 0, 0, 0, 0, 0xff, 0xff]"

definition IPv4 :: "byte \<Rightarrow> byte \<Rightarrow> byte \<Rightarrow> byte \<Rightarrow> netIP" where
  "IPv4 a b c d = v4InV6Prefix @ [a, b, c, d]"

definition To4 :: "netIP \<Rightarrow> netIP option" where
  "To4 ip =
     (if length ip = 4 then Some ip
      else if length ip = 16 \<and> take 12 ip = v4InV6Prefix then Some (drop 12 ip)
      else None)"

definition To16 :: "netIP \<Rightarrow> netIP option" where
  "To16 ip =
     (if length ip = 4 then Some (v4InV6Prefix @ ip)
      else if length ip = 16 then Some ip
      else None)"

definition IP_Equal :: "netIP \<Rightarrow> netIP \<Rightarrow> bool" where
  "IP_Equal ip x =
     (if length ip = length x then ip = x
      else if length ip = 4 \<and> length x = 16 then take 12 x = v4InV6Prefix \<and> ip = drop 12 x
      else if length ip = 16 \<and> length x = 4 then take 12 ip = v4InV6Prefix \<and> drop 12 ip = x
      else False)"

definition IPv6zero :: netIP where
  "IPv6zero = replicate 16 0"

definition IPv6loopback :: netIP where
  "IPv6loopback = replicate 15 0 @ [1]"

definition IsLoopback :: "netIP \<Rightarrow> bool" where
  "IsLoopback ip =
     (case To4 ip of Some ip4 \<Rightarrow> ip4 ! 0 = 127 | None \<Rightarrow> IP_Equal ip IPv6loopback)"

definition IsUnspecified :: "netIP \<Rightarrow> bool" where
  "IsUnspecified ip = (IP_Equal ip (IPv4 0 0 0 0) \<or> IP_Equal ip IPv6zero)"

definition IsPrivate :: "netIP \<Rightarrow> bool" where
  "IsPrivate ip =
     (case To4 ip of
        Some ip4 \<Rightarrow>
          ip4 ! 0 = 10 \<or> (ip4 ! 0 = 172 \<and> ip4 ! 1 AND 0xf0 = 16) \<or> (ip4 ! 0 = 192 \<and> ip4 ! 1 = 168)
      | None \<Rightarrow> length ip = 16 \<and> ip ! 0 AND 0xfe = 0xfc)"

section \<open>Printing\<close>

definition dotted :: "netIP \<Rightarrow> string" where
  "dotted ip = Join (map (\<lambda>b. Itoa (unat b)) ip) ''.''"

fun groups :: "netIP \<Rightarrow> nat list" where
  "groups (a # b # r) = unat (be16 a b) # groups r"
| "groups _ = []"

text \<open>The longest run of zero groups: the first of greatest length, at least two groups.\<close>

definition zero_run :: "nat list \<Rightarrow> nat \<Rightarrow> nat" where
  "zero_run gs i = length (takeWhile (\<lambda>g. g = 0) (drop i gs))"

fun best_run :: "nat list \<Rightarrow> nat list \<Rightarrow> nat \<times> nat \<Rightarrow> nat \<times> nat" where
  "best_run gs [] best = best"
| "best_run gs (i # is) best =
     (if 2 \<le> zero_run gs i \<and> snd best < zero_run gs i then best_run gs is (i, zero_run gs i)
      else best_run gs is best)"

definition hex_groups :: "nat list \<Rightarrow> string" where
  "hex_groups gs = Join (map (base_digits 16) gs) '':''"

definition print_v6 :: "netIP \<Rightarrow> string" where
  "print_v6 ip =
     (let gs = groups ip; (i, n) = best_run gs [0..<8] (0, 0)
      in if n = 0 then hex_groups gs
         else hex_groups (take i gs) @ ''::'' @ hex_groups (drop (i + n) gs))"

definition hex_byte :: "byte \<Rightarrow> string" where
  "hex_byte b = [digit_char (unat b div 16), digit_char (unat b mod 16)]"

definition IP_String :: "netIP \<Rightarrow> string" where
  "IP_String ip =
     (if ip = [] then ''<nil>''
      else if length ip \<noteq> 4 \<and> length ip \<noteq> 16 then ''?'' @ concat (map hex_byte ip)
      else case To4 ip of Some ip4 \<Rightarrow> dotted ip4 | None \<Rightarrow> print_v6 ip)"

section \<open>Parsing\<close>

definition v4_field :: "string \<Rightarrow> byte option" where
  "v4_field f =
     (if f = [] \<or> \<not> list_all is_digit f \<or> (1 < length f \<and> f ! 0 = CHR ''0'') \<or> 255 < dec_val 0 f
      then None else Some (of_nat (dec_val 0 f)))"

definition parse_v4 :: "string \<Rightarrow> byte list option" where
  "parse_v4 s =
     (let fs = Split s CHR ''.''
      in if length fs = 4 then those (map v4_field fs) else None)"

definition hex_val :: "char \<Rightarrow> nat option" where
  "hex_val c =
     (let n = of_char c :: nat
      in if 48 \<le> n \<and> n \<le> 57 then Some (n - 48)
         else if 97 \<le> n \<and> n \<le> 102 then Some (n - 87)
         else if 65 \<le> n \<and> n \<le> 70 then Some (n - 55)
         else None)"

text \<open>A hexadecimal group: its digits' number and value, and the rest of the string.\<close>

fun hex_prefix :: "nat \<Rightarrow> nat \<Rightarrow> string \<Rightarrow> nat \<times> nat \<times> string" where
  "hex_prefix off acc [] = (off, acc, [])"
| "hex_prefix off acc (c # cs) =
     (case hex_val c of
        None \<Rightarrow> (off, acc, c # cs)
      | Some v \<Rightarrow> hex_prefix (Suc off) (acc * 16 + v) cs)"

text \<open>
  The loop of \<open>netip.parseIPv6\<close>: \<open>ip\<close> holds the bytes saved so far, \<open>ell\<close> the position of
  the ellipsis.  The result is the bytes, the ellipsis and the unread rest.  The fuel
  \<open>room\<close> is the number of groups still free (8 at the start), the loop's own bound
  \<open>i < 16\<close>.
\<close>

fun v6_loop :: "nat \<Rightarrow> byte list \<Rightarrow> nat option \<Rightarrow> string \<Rightarrow> (byte list \<times> nat option \<times> string) option" where
  "v6_loop 0 ip ell s = Some (ip, ell, s)"
| "v6_loop (Suc room) ip ell s =
     (let (off, acc, rest) = hex_prefix 0 0 s
      in if off = 0 \<or> 4 < off then None
         else if rest \<noteq> [] \<and> hd rest = CHR ''.'' then
           (if ell = None \<and> length ip \<noteq> 12 then None
            else if 16 < length ip + 4 then None
            else case parse_v4 s of None \<Rightarrow> None | Some bs \<Rightarrow> Some (ip @ bs, ell, []))
         else
           (let ip = ip @ [of_nat (acc div 256), of_nat (acc mod 256)]
            in case rest of
                 [] \<Rightarrow> Some (ip, ell, [])
               | c # s1 \<Rightarrow>
                   if c \<noteq> CHR '':'' \<or> s1 = [] then None
                   else if hd s1 = CHR '':'' then
                     (if ell \<noteq> None then None
                      else if tl s1 = [] then Some (ip, Some (length ip), [])
                      else v6_loop room ip (Some (length ip)) (tl s1))
                   else v6_loop room ip ell s1))"

definition expand_v6 :: "byte list \<times> nat option \<times> string \<Rightarrow> byte list option" where
  "expand_v6 r =
     (case r of (ip, ell, s) \<Rightarrow>
        if s \<noteq> [] then None
        else case ell of
          None \<Rightarrow> if length ip < 16 then None else Some ip
        | Some e \<Rightarrow>
            if length ip < 16 then Some (take e ip @ replicate (16 - length ip) 0 @ drop e ip)
            else None)"

definition parse_v6 :: "string \<Rightarrow> byte list option" where
  "parse_v6 s =
     (if HasPrefix s ''::'' then
        (if drop 2 s = [] then Some IPv6zero
         else Option.bind (v6_loop 8 [] (Some 0) (drop 2 s)) expand_v6)
      else Option.bind (v6_loop 8 [] None s) expand_v6)"

text \<open>
  \<open>netip.ParseAddr\<close> decides by the first of the characters \<open>.\<close>, \<open>:\<close> and \<open>%\<close>; an
  address with a zone is refused by every caller in package \<open>net\<close>, so a \<open>%\<close> is too.
\<close>

fun addr_kind :: "string \<Rightarrow> char option" where
  "addr_kind [] = None"
| "addr_kind (c # cs) = (if c \<in> {CHR ''.'', CHR '':'', CHR ''%''} then Some c else addr_kind cs)"

definition ParseAddr :: "string \<Rightarrow> byte list option" where
  "ParseAddr s =
     (if CHR ''%'' \<in> set s then None
      else case addr_kind s of
        None \<Rightarrow> None
      | Some c \<Rightarrow> if c = CHR ''.'' then parse_v4 s else parse_v6 s)"

definition ParseIP :: "string \<Rightarrow> netIP option" where
  "ParseIP s = Option.bind (ParseAddr s) To16"

section \<open>Networks\<close>

record IPNet =
  net_ip :: netIP
  net_mask :: "byte list"

definition mask_byte :: "nat \<Rightarrow> nat \<Rightarrow> byte" where
  "mask_byte n i = (if n \<le> 8 * i then 0 else if 8 * i + 8 \<le> n then 0xff
     else NOT (drop_bit (n - 8 * i) 0xff))"

definition CIDRMask :: "nat \<Rightarrow> nat \<Rightarrow> byte list" where
  "CIDRMask ones bits = map (mask_byte ones) [0..<bits div 8]"

definition IP_Mask :: "netIP \<Rightarrow> byte list \<Rightarrow> netIP" where
  "IP_Mask ip m =
     (let m = (if length m = 16 \<and> length ip = 4 \<and> take 12 m = replicate 12 0xff then drop 12 m else m);
          ip = (if length m = 4 \<and> length ip = 16 \<and> take 12 ip = v4InV6Prefix then drop 12 ip else ip)
      in if length ip \<noteq> length m then [] else map2 (AND) ip m)"

definition ParseCIDR :: "string \<Rightarrow> IPNet option" where
  "ParseCIDR s =
     (case IndexByte s CHR ''/'' of
        None \<Rightarrow> None
      | Some i \<Rightarrow>
          (case ParseAddr (take i s) of
             None \<Rightarrow> None
           | Some a \<Rightarrow>
               let m = drop (i + 1) s; n = dec_val 0 m; bits = 8 * length a
               in if m = [] \<or> \<not> list_all is_digit m \<or> bits < n then None
                  else map_option (\<lambda>a16. \<lparr>net_ip = IP_Mask a16 (CIDRMask n bits),
                                          net_mask = CIDRMask n bits\<rparr>) (To16 a)))"

definition networkNumberAndMask :: "IPNet \<Rightarrow> (netIP \<times> byte list) option" where
  "networkNumberAndMask n =
     (let ip = (case To4 (net_ip n) of Some ip4 \<Rightarrow> ip4 | None \<Rightarrow> net_ip n); m = net_mask n
      in if length ip \<noteq> 4 \<and> length ip \<noteq> 16 then None
         else if length m = 4 then (if length ip \<noteq> 4 then None else Some (ip, m))
         else if length m = 16 then Some (ip, if length ip = 4 then drop 12 m else m)
         else None)"

definition IPNet_Contains :: "IPNet \<Rightarrow> netIP \<Rightarrow> bool" where
  "IPNet_Contains n ip =
     (let ip = (case To4 ip of Some x \<Rightarrow> x | None \<Rightarrow> ip)
      in case networkNumberAndMask n of
           None \<Rightarrow> length ip = 0
         | Some (nn, m) \<Rightarrow>
             length ip = length nn
             \<and> list_all (\<lambda>(a, b, c). a AND b = c AND b) (zip nn (zip m ip)))"

section \<open>Hosts and ports\<close>

definition SplitHostPort :: "string \<Rightarrow> (string \<times> string) option" where
  "SplitHostPort hp =
     (case LastIndexByte hp CHR '':'' of
        None \<Rightarrow> None
      | Some i \<Rightarrow>
          if hd hp = CHR ''['' then
            (case IndexByte hp CHR '']'' of
               None \<Rightarrow> None
             | Some e \<Rightarrow>
                 if e + 1 \<noteq> i then None
                 else if CHR ''['' \<in> set (drop 1 hp) \<or> CHR '']'' \<in> set (drop (e + 1) hp) then None
                 else Some (take (e - 1) (drop 1 hp), drop (i + 1) hp))
          else if CHR '':'' \<in> set (take i hp) then None
          else if CHR ''['' \<in> set hp \<or> CHR '']'' \<in> set hp then None
          else Some (take i hp, drop (i + 1) hp))"

definition JoinHostPort :: "string \<Rightarrow> string \<Rightarrow> string" where
  "JoinHostPort host port =
     (if CHR '':'' \<in> set host then ''['' @ host @ '']:'' @ port else host @ '':'' @ port)"

section \<open>Lemmas\<close>

lemma length_To4: "To4 ip = Some a \<Longrightarrow> length a = 4"
  by (auto simp: To4_def split: if_splits)

lemma length_To16: "To16 ip = Some a \<Longrightarrow> length a = 16"
  by (auto simp: To16_def v4InV6Prefix_def split: if_splits)

text \<open>\<open>copy(k.IP[:n], ip)\<close> into a zeroed 16-byte array.\<close>

definition pad16 :: "byte list \<Rightarrow> byte list" where
  "pad16 ip = take 16 (ip @ replicate 16 0)"

lemma pad16_inject: "length a = length b \<Longrightarrow> length a \<le> 16 \<Longrightarrow> pad16 a = pad16 b \<Longrightarrow> a = b"
  by (simp add: pad16_def)

end
