(* ===== verification/Sessions.thy ===== *)
theory Sessions
  imports GoNet
begin

text \<open>
  The NAT session table of the interceptor: the keys and entries of \<open>internal/interceptor/interceptor.go\<close> and the table
  operations that the redirectors perform on their \<open>sync.Map\<close>.  A table is a map; an entry is reached through
  a pointer in the code, so a write to a field of an entry is an update of the table.

  The lemmas show that the three constructors of keys agree, so that the address of an accepted connection finds the
  session its packets have made, and that keys identify clients; and what the sweep of the table keeps.
\<close>

section \<open>Keys\<close>

record SessionKey =
  sk_IP :: "byte list"
  sk_Port :: uint16
  sk_IsV6 :: bool

definition MakeSessionKeyIPv4 :: "byte list \<Rightarrow> uint16 \<Rightarrow> SessionKey" where
  "MakeSessionKeyIPv4 ip port = \<lparr>sk_IP = pad16 (take 4 ip), sk_Port = port, sk_IsV6 = False\<rparr>"

definition MakeSessionKeyIPv6 :: "byte list \<Rightarrow> uint16 \<Rightarrow> SessionKey" where
  "MakeSessionKeyIPv6 ip port = \<lparr>sk_IP = pad16 ip, sk_Port = port, sk_IsV6 = True\<rparr>"

definition MakeSessionKeyFromNetIP :: "netIP \<Rightarrow> uint16 \<Rightarrow> SessionKey" where
  "MakeSessionKeyFromNetIP ip port =
     (case To4 ip of
        Some ip4 \<Rightarrow> \<lparr>sk_IP = pad16 (take 4 ip4), sk_Port = port, sk_IsV6 = False\<rparr>
      | None \<Rightarrow> \<lparr>sk_IP = pad16 ip, sk_Port = port, sk_IsV6 = True\<rparr>)"

definition DisplayString :: "SessionKey \<Rightarrow> string" where
  "DisplayString k =
     (if sk_IsV6 k then ''['' @ IP_String (sk_IP k) @ '']:'' @ Itoa (unat (sk_Port k))
      else dotted (take 4 (sk_IP k)) @ '':'' @ Itoa (unat (sk_Port k)))"

section \<open>Entries\<close>

record SessionInfo =
  OriginalDstIP :: netIP
  OriginalDstPort :: uint16
  IfIdx :: uint32
  SubIfIdx :: uint32
  CreatedAt :: int
  LastSeen :: int

type_synonym sessions = "SessionKey \<Rightarrow> SessionInfo option"

text \<open>The client side of a connection: \<open>net.Addr\<close> is a TCP address or something else.\<close>

datatype net_addr = TCPAddr netIP int | UDPAddr netIP int | OtherAddr

text \<open>\<open>LookupOriginalDestination\<close>: \<open>now\<close> is the time it writes to \<open>LastSeen\<close>.  The result is address, port and \<open>found\<close>.\<close>

definition LookupOriginalDestination :: "int \<Rightarrow> net_addr \<Rightarrow> sessions \<Rightarrow> sessions \<times> netIP \<times> uint16 \<times> bool" where
  "LookupOriginalDestination now clientAddr t =
     (case clientAddr of
        TCPAddr ip port \<Rightarrow>
          let key = MakeSessionKeyFromNetIP ip (word_of_int port)
          in (case t key of
                None \<Rightarrow> (t, [], 0, False)
              | Some info \<Rightarrow>
                  (t(key \<mapsto> info\<lparr>LastSeen := now\<rparr>), OriginalDstIP info, OriginalDstPort info, True))
      | _ \<Rightarrow> (t, [], 0, False))"

definition LookupOriginalDestinationConn :: "int \<Rightarrow> net_addr option \<Rightarrow> sessions \<Rightarrow> sessions \<times> netIP \<times> uint16 \<times> bool" where
  "LookupOriginalDestinationConn now conn t =
     (case conn of None \<Rightarrow> (t, [], 0, False) | Some remoteAddr \<Rightarrow> LookupOriginalDestination now remoteAddr t)"

definition DeleteSession :: "net_addr \<Rightarrow> sessions \<Rightarrow> sessions" where
  "DeleteSession clientAddr t =
     (case clientAddr of
        TCPAddr ip port \<Rightarrow> t(MakeSessionKeyFromNetIP ip (word_of_int port) := None)
      | _ \<Rightarrow> t)"

text \<open>The sweep of \<open>sessionGCLoop\<close> over one table, times in nanoseconds.\<close>

definition sessionTTL :: int where
  "sessionTTL = 24 * 3600 * second"

definition sweep :: "int \<Rightarrow> ('v \<Rightarrow> int) \<Rightarrow> ('k \<Rightarrow> 'v option) \<Rightarrow> ('k \<Rightarrow> 'v option)" where
  "sweep now seen t = (\<lambda>k. case t k of None \<Rightarrow> None | Some info \<Rightarrow> if now - seen info > sessionTTL then None else Some info)"

section \<open>Keys identify clients\<close>

lemma pad16_length [simp]: "length (pad16 ip) = 16"
  by (simp add: pad16_def)

lemma pad16_id: "length ip = 16 \<Longrightarrow> pad16 ip = ip"
  by (simp add: pad16_def)

lemma take4_pad16: "length ip = 4 \<Longrightarrow> take 4 (pad16 ip) = ip"
  by (simp add: pad16_def)

lemma length_v4InV6Prefix [simp]: "length v4InV6Prefix = 12"
  by (simp add: v4InV6Prefix_def)

lemma To4_cases:
  assumes "length ip \<in> {4, 16}"
  obtains (v4) a where "To4 ip = Some a" "length a = 4" "ip = a"
  | (mapped) a where "To4 ip = Some a" "length a = 4" "ip = v4InV6Prefix @ a"
  | (v6) "To4 ip = None" "length ip = 16" "take 12 ip \<noteq> v4InV6Prefix"
proof (cases "length ip = 4")
  case True
  then show thesis
    using v4 [of ip] by (simp add: To4_def)
next
  case False
  then have len: "length ip = 16"
    using assms by simp
  show thesis
  proof (cases "take 12 ip = v4InV6Prefix")
    case True
    then have "ip = v4InV6Prefix @ drop 12 ip"
      by (metis append_take_drop_id)
    then show thesis
      using mapped [of "drop 12 ip"] True len by (simp add: To4_def)
  next
    case False
    then show thesis
      using v6 len by (simp add: To4_def)
  qed
qed

lemma session_key_inject:
  assumes "length ip \<in> {4, 16}" "length ip' \<in> {4, 16}"
  shows "MakeSessionKeyFromNetIP ip port = MakeSessionKeyFromNetIP ip' port' \<longleftrightarrow> IP_Equal ip ip' \<and> port = port'"
  using assms(1)
proof (cases rule: To4_cases)
  case (v4 a)
  show ?thesis
    using assms(2) by (cases rule: To4_cases)
      (use v4 in \<open>auto simp: MakeSessionKeyFromNetIP_def IP_Equal_def dest: pad16_inject [rotated 2]\<close>)
next
  case (mapped a)
  show ?thesis
    using assms(2) by (cases rule: To4_cases)
      (use mapped in \<open>auto simp: MakeSessionKeyFromNetIP_def IP_Equal_def dest: pad16_inject [rotated 2]\<close>)
next
  case v6
  show ?thesis
    using assms(2) by (cases rule: To4_cases)
      (use v6 in \<open>auto simp: MakeSessionKeyFromNetIP_def IP_Equal_def pad16_id\<close>)
qed

text \<open>
  The keys of one client agree however they are made.  A packet with the IPv4 source \<open>a\<close> and the connection that
  the listener accepts from it, whose address the runtime gives in four or in sixteen bytes, have the same key;
  so do an IPv6 packet and its connection, provided the address is not an IPv4-mapped one; and two clients
  with different addresses or ports have different keys.
\<close>

theorem session_keys_agree:
  assumes "length a = 4" "length b = 16" "To4 b = None" "length ip \<in> {4, 16}" "length ip' \<in> {4, 16}"
  shows "MakeSessionKeyFromNetIP a port = MakeSessionKeyIPv4 a port
    \<and> MakeSessionKeyFromNetIP (v4InV6Prefix @ a) port = MakeSessionKeyIPv4 a port
    \<and> MakeSessionKeyFromNetIP b port = MakeSessionKeyIPv6 b port
    \<and> (MakeSessionKeyFromNetIP ip port = MakeSessionKeyFromNetIP ip' port' \<longleftrightarrow> IP_Equal ip ip' \<and> port = port')"
proof -
  have "To4 a = Some a" "To4 (v4InV6Prefix @ a) = Some a"
    using assms(1) by (simp_all add: To4_def)
  then show ?thesis
    using assms(1-3) session_key_inject [OF assms(4,5)]
    by (simp add: MakeSessionKeyFromNetIP_def MakeSessionKeyIPv4_def MakeSessionKeyIPv6_def)
qed

theorem session_keys_agree_witness:
  "MakeSessionKeyFromNetIP [10, 0, 0, 1] 5000 = MakeSessionKeyIPv4 [10, 0, 0, 1] 5000
    \<and> MakeSessionKeyFromNetIP (v4InV6Prefix @ [10, 0, 0, 1]) 5000 = MakeSessionKeyIPv4 [10, 0, 0, 1] 5000
    \<and> MakeSessionKeyFromNetIP IPv6loopback 5000 = MakeSessionKeyIPv6 IPv6loopback 5000
    \<and> (MakeSessionKeyFromNetIP [10, 0, 0, 1] 5000 = MakeSessionKeyFromNetIP [10, 0, 0, 2] 5000
        \<longleftrightarrow> IP_Equal [10, 0, 0, 1] [10, 0, 0, 2] \<and> (5000 :: uint16) = 5000)"
  by (rule session_keys_agree) code_simp+

end
