(* ===== verification/UdpFlow.thy ===== *)
theory UdpFlow
  imports GoNet "HOL-Library.AList"
begin

text \<open>
  The table of UDP flows, \<open>internal/interceptor/udp_flow.go\<close>, which decides which packets are worth an audit line.
  The \<open>sync.Map\<close> is an association list; times are seconds.

  The lemmas relate the recorded time of a flow to the time of its last packet (the table skips writes for five
  seconds) and show which packets are reported as new.
\<close>

section \<open>Keys\<close>

record UDPFlowKey =
  fk_SrcIP :: "byte list"
  fk_DstIP :: "byte list"
  fk_SrcPort :: uint16
  fk_DstPort :: uint16
  fk_IsV6 :: bool

definition MakeUDPFlowKeyIPv4 :: "byte list \<Rightarrow> byte list \<Rightarrow> uint16 \<Rightarrow> uint16 \<Rightarrow> UDPFlowKey" where
  "MakeUDPFlowKeyIPv4 srcIP dstIP srcPort dstPort =
     \<lparr>fk_SrcIP = pad16 (take 4 srcIP), fk_DstIP = pad16 (take 4 dstIP), fk_SrcPort = srcPort, fk_DstPort = dstPort,
      fk_IsV6 = False\<rparr>"

definition MakeUDPFlowKeyIPv6 :: "byte list \<Rightarrow> byte list \<Rightarrow> uint16 \<Rightarrow> uint16 \<Rightarrow> UDPFlowKey" where
  "MakeUDPFlowKeyIPv6 srcIP dstIP srcPort dstPort =
     \<lparr>fk_SrcIP = pad16 srcIP, fk_DstIP = pad16 dstIP, fk_SrcPort = srcPort, fk_DstPort = dstPort, fk_IsV6 = True\<rparr>"

definition ClientString :: "UDPFlowKey \<Rightarrow> string" where
  "ClientString k =
     (if fk_IsV6 k then ''['' @ IP_String (fk_SrcIP k) @ '']:'' @ Itoa (unat (fk_SrcPort k))
      else dotted (take 4 (fk_SrcIP k)) @ '':'' @ Itoa (unat (fk_SrcPort k)))"

definition TargetString :: "UDPFlowKey \<Rightarrow> string" where
  "TargetString k =
     (if fk_IsV6 k then ''['' @ IP_String (fk_DstIP k) @ '']:'' @ Itoa (unat (fk_DstPort k))
      else dotted (take 4 (fk_DstIP k)) @ '':'' @ Itoa (unat (fk_DstPort k)))"

section \<open>The table\<close>

record UDPFlowTable =
  uf_flows :: "(UDPFlowKey \<times> int) list"
  uf_ttl :: int

definition NewUDPFlowTable :: "int \<Rightarrow> UDPFlowTable" where
  "NewUDPFlowTable ttlSec = \<lparr>uf_flows = [], uf_ttl = (if ttlSec \<le> 0 then 60 else ttlSec)\<rparr>"

definition flows_Store :: "UDPFlowKey \<Rightarrow> int \<Rightarrow> UDPFlowTable \<Rightarrow> UDPFlowTable" where
  "flows_Store key nowSec t = t\<lparr>uf_flows := AList.update key nowSec (uf_flows t)\<rparr>"

definition CheckAndRecord :: "UDPFlowKey \<Rightarrow> int \<Rightarrow> UDPFlowTable \<Rightarrow> UDPFlowTable \<times> bool" where
  "CheckAndRecord key nowSec t =
     (case map_of (uf_flows t) key of
        None \<Rightarrow> (flows_Store key nowSec t, True)
      | Some lastSeen \<Rightarrow>
          if nowSec - lastSeen > uf_ttl t then (flows_Store key nowSec t, True)
          else if nowSec - lastSeen \<ge> 5 then (flows_Store key nowSec t, False)
          else (t, False))"

text \<open>\<open>Cleanup\<close> also returns the number of entries it has removed.\<close>

definition Cleanup :: "int \<Rightarrow> UDPFlowTable \<Rightarrow> UDPFlowTable \<times> nat" where
  "Cleanup nowSec t =
     (let dead = filter (\<lambda>(k, lastSeen). nowSec - lastSeen > uf_ttl t) (uf_flows t)
      in (t\<lparr>uf_flows := filter (\<lambda>(k, lastSeen). \<not> nowSec - lastSeen > uf_ttl t) (uf_flows t)\<rparr>, length dead))"

definition flows_Len :: "UDPFlowTable \<Rightarrow> nat" where
  "flows_Len t = length (uf_flows t)"

section \<open>Which packets are new\<close>

text \<open>A history of the table: packets of flows, and sweeps, each with its time.\<close>

datatype flow_event = Packet int UDPFlowKey | Sweep int

primrec flow_time :: "flow_event \<Rightarrow> int" where
  "flow_time (Packet t k) = t"
| "flow_time (Sweep t) = t"

primrec flow_step :: "flow_event \<Rightarrow> UDPFlowTable \<Rightarrow> UDPFlowTable" where
  "flow_step (Packet t k) tab = fst (CheckAndRecord k t tab)"
| "flow_step (Sweep t) tab = fst (Cleanup t tab)"

text \<open>The time of the last packet of a flow in a history, and what the table may say of it: nothing, once the flow has
  been silent for nearly its lifetime, or a time at most five seconds older.\<close>

definition last_packet :: "flow_event list \<Rightarrow> UDPFlowKey \<Rightarrow> int option" where
  "last_packet es k = (case filter (\<lambda>e. \<exists>t. e = Packet t k) (rev es) of [] \<Rightarrow> None | e # _ \<Rightarrow> Some (flow_time e))"

fun tracks1 :: "int \<Rightarrow> int \<Rightarrow> int option \<Rightarrow> int option \<Rightarrow> bool" where
  "tracks1 now ttl (Some r) (Some s) = (s - 5 < r \<and> r \<le> s)"
| "tracks1 now ttl (Some r) None = False"
| "tracks1 now ttl None (Some s) = (now - s > ttl - 5)"
| "tracks1 now ttl None None = True"

definition tracks :: "int \<Rightarrow> UDPFlowTable \<Rightarrow> (UDPFlowKey \<Rightarrow> int option) \<Rightarrow> bool" where
  "tracks now tab seen \<longleftrightarrow> distinct (map fst (uf_flows tab))
     \<and> (\<forall>k. tracks1 now (uf_ttl tab) (map_of (uf_flows tab) k) (seen k))"

lemma distinct_filter_keys: "distinct (map fst xs) \<Longrightarrow> distinct (map fst (filter P xs))"
  by (induction xs) auto

lemma map_of_filter_Some:
  assumes "distinct (map fst xs)"
  shows "map_of (filter (\<lambda>(k, v). P v) xs) k = (case map_of xs k of None \<Rightarrow> None | Some v \<Rightarrow> if P v then Some v else None)"
  using assms
proof (induction xs)
  case (Cons x xs)
  then have "fst x = k \<Longrightarrow> map_of xs k = None"
    by (auto simp: map_of_eq_None_iff)
  with Cons show ?case
    by (cases x) auto
qed simp

lemma tracks1_later: "tracks1 now ttl r s \<Longrightarrow> now \<le> now' \<Longrightarrow> tracks1 now' ttl r s"
  by (cases r; cases s) auto

lemma tracks_later: "tracks now tab seen \<Longrightarrow> now \<le> now' \<Longrightarrow> tracks now' tab seen"
  by (auto simp: tracks_def intro: tracks1_later)

lemma CheckAndRecord_map:
  "map_of (uf_flows (fst (CheckAndRecord k t tab))) = (map_of (uf_flows tab))(k \<mapsto>
     case map_of (uf_flows tab) k of None \<Rightarrow> t | Some r \<Rightarrow> if t - r > uf_ttl tab \<or> t - r \<ge> 5 then t else r)"
  by (auto simp: CheckAndRecord_def flows_Store_def update_conv' fun_eq_iff split: option.splits)

lemma CheckAndRecord_keys:
  "distinct (map fst (uf_flows tab)) \<Longrightarrow> distinct (map fst (uf_flows (fst (CheckAndRecord k t tab))))"
  "uf_ttl (fst (CheckAndRecord k t tab)) = uf_ttl tab"
  by (auto simp: CheckAndRecord_def flows_Store_def distinct_update split: option.splits)

lemma CheckAndRecord_tracks:
  assumes "tracks t tab seen" "\<And>s. seen k = Some s \<Longrightarrow> s \<le> t"
  shows "tracks t (fst (CheckAndRecord k t tab)) (seen(k \<mapsto> t))"
proof -
  have "tracks1 t (uf_ttl tab) (map_of (uf_flows tab) k) (seen k)"
    using assms(1) by (simp add: tracks_def)
  with assms show ?thesis
    by (cases "seen k") (auto simp: tracks_def CheckAndRecord_map CheckAndRecord_keys split: option.splits)
qed

lemma Cleanup_tracks:
  assumes "tracks t tab seen"
  shows "tracks t (fst (Cleanup t tab)) seen"
proof -
  have d: "distinct (map fst (uf_flows tab))"
    using assms by (simp add: tracks_def)
  have "tracks1 t (uf_ttl tab) (case map_of (uf_flows tab) k of None \<Rightarrow> None
      | Some r \<Rightarrow> if \<not> t - r > uf_ttl tab then Some r else None) (seen k)" for k
  proof -
    have "tracks1 t (uf_ttl tab) (map_of (uf_flows tab) k) (seen k)"
      using assms by (simp add: tracks_def)
    then show ?thesis
      by (cases "map_of (uf_flows tab) k"; cases "seen k") auto
  qed
  then show ?thesis
    using d map_of_filter_Some [OF d, of "\<lambda>r. \<not> t - r > uf_ttl tab"]
    by (simp add: tracks_def Cleanup_def Let_def distinct_filter_keys)
qed

lemma last_packet_snoc:
  "last_packet (es @ [Packet t k]) = (last_packet es)(k \<mapsto> t)" "last_packet (es @ [Sweep t]) = last_packet es"
  by (auto simp: last_packet_def fun_eq_iff)

lemma last_packet_before:
  assumes "last_packet es k = Some s"
  shows "\<exists>e \<in> set es. flow_time e = s"
proof -
  obtain e es' where "filter (\<lambda>e. \<exists>t. e = Packet t k) (rev es) = e # es'" "s = flow_time e"
    using assms by (auto simp: last_packet_def split: list.splits)
  then have "e \<in> set es"
    by (metis filter_eq_ConsD in_set_conv_decomp set_rev)
  with \<open>s = flow_time e\<close> show ?thesis
    by blast
qed

lemma flow_run_tracks:
  "sorted (map flow_time es @ [now]) \<Longrightarrow> tracks now (fold flow_step es (NewUDPFlowTable ttl)) (last_packet es)"
proof (induction es arbitrary: now rule: rev_induct)
  case Nil
  show ?case
    by (simp add: tracks_def NewUDPFlowTable_def last_packet_def)
next
  case (snoc e es)
  let ?tab = "fold flow_step es (NewUDPFlowTable ttl)"
  have t: "tracks (flow_time e) ?tab (last_packet es)"
    using snoc by (simp add: sorted_append)
  have before: "last_packet es k = Some s \<Longrightarrow> s \<le> flow_time e" for k s
    using last_packet_before [of es k s] snoc.prems by (auto simp: sorted_append)
  have "tracks (flow_time e) (flow_step e ?tab) (last_packet (es @ [e]))"
    using CheckAndRecord_tracks [OF _ before] Cleanup_tracks t by (cases e) (auto simp: last_packet_snoc)
  then show ?case
    using tracks_later snoc.prems by (fastforce simp: sorted_append)
qed

lemma flow_ttl: "uf_ttl (fold flow_step es tab) = uf_ttl tab"
proof (induction es arbitrary: tab)
  case (Cons e es)
  then show ?case
    by (cases e) (simp_all add: CheckAndRecord_keys Cleanup_def Let_def)
qed simp

text \<open>
  After any history of packets and sweeps in the order of time, a packet is reported as the start of a new flow if
  its flow has had no packet before, or none for longer than the lifetime; and it is not reported if the last
  packet of the flow is at most the lifetime less five seconds old.  (In between the answer depends on which writes the
  table has skipped.)
\<close>

theorem udp_flow_reported:
  fixes es :: "flow_event list" and now ttl :: int
  assumes "sorted (map flow_time es @ [now])"
  defines "tab \<equiv> fold flow_step es (NewUDPFlowTable ttl)" and "life \<equiv> (if ttl \<le> 0 then 60 else ttl)"
  shows "(last_packet es k = None \<longrightarrow> snd (CheckAndRecord k now tab))
    \<and> (\<forall>s. last_packet es k = Some s \<and> now - s > life \<longrightarrow> snd (CheckAndRecord k now tab))
    \<and> (\<forall>s. last_packet es k = Some s \<and> now - s \<le> life - 5 \<longrightarrow> \<not> snd (CheckAndRecord k now tab))"
proof -
  have "uf_ttl tab = life"
    by (simp add: tab_def life_def flow_ttl NewUDPFlowTable_def)
  then have "tracks1 now life (map_of (uf_flows tab) k) (last_packet es k)"
    and new: "snd (CheckAndRecord k now tab) \<longleftrightarrow> (case map_of (uf_flows tab) k of None \<Rightarrow> True | Some r \<Rightarrow> now - r > life)"
    using flow_run_tracks [OF assms(1)] by (auto simp: tab_def tracks_def CheckAndRecord_def split: option.splits)
  then show ?thesis
    by (cases "map_of (uf_flows tab) k"; cases "last_packet es k") auto
qed

definition flow_sample :: UDPFlowKey where
  "flow_sample = MakeUDPFlowKeyIPv4 [10, 0, 0, 1] [8, 8, 4, 4] 5000 123"

theorem udp_flow_reported_witness:
  "\<not> snd (CheckAndRecord flow_sample 70 (fold flow_step [Packet 10 flow_sample, Packet 16 flow_sample, Sweep 30]
     (NewUDPFlowTable 60)))"
proof -
  have "last_packet [Packet 10 flow_sample, Packet 16 flow_sample, Sweep 30] flow_sample = Some 16"
    by (simp add: last_packet_def)
  then show ?thesis
    using udp_flow_reported [of "[Packet 10 flow_sample, Packet 16 flow_sample, Sweep 30]" 70 flow_sample 60] by simp
qed

end
