(* ===== verification/Checksum.thy ===== *)
theory Checksum
  imports Prelude
begin

text \<open>
  The Internet checksum routines of \<open>internal/interceptor/packet_parser.go\<close>: the folding
  loop, the incremental updates of RFC 1624 (\<open>UpdateChecksum16\<close>, \<open>UpdateChecksum32\<close>,
  \<open>UpdateChecksumIPv6Bytes\<close>) and the full computations (\<open>CalculateIPv4HeaderChecksum\<close>,
  \<open>CalculateUDPChecksumIPv4\<close>, \<open>CalculateUDPChecksumIPv6\<close>, \<open>CalculateTCPChecksumIPv6\<close>),
  all on 32-bit accumulators that wrap.

  The reference is ones-complement arithmetic on natural numbers: \<open>wsum\<close> adds the 16-bit
  words of a byte string, \<open>fold16\<close> is the value the folding loop must reach,
  \<open>inet_csum\<close> the checksum of a sum and \<open>csum_ok\<close> what a receiver checks.  The lemmas show
  that every routine computes \<open>inet_csum\<close> of the right sum, without overflow for any packet
  that fits the 16-bit length fields, and that an incremental update keeps \<open>csum_ok\<close>.
\<close>

section \<open>The routines\<close>

text \<open>\<open>for sum > 0xffff { sum = (sum >> 16) + (sum & 0xffff) }\<close>\<close>

lemma and_ffff: "(s :: uint32) AND 0xffff = take_bit 16 s"
  by (simp add: take_bit_eq_mask mask_eq_exp_minus_1)

lemma unat_fold_step:
  "unat (drop_bit 16 s + (s AND 0xffff)) = unat s div 65536 + unat s mod 65536"
  for s :: uint32
proof -
  have hi: "unat (drop_bit 16 s) = unat s div 65536"
    by (subst unat_drop_bit_eq) (simp add: drop_bit_eq_div)
  have lo: "unat (s AND 0xffff) = unat s mod 65536"
    by (simp add: and_ffff take_bit_eq_mod unat_mod)
  have "unat s div 65536 + unat s mod 65536 < 4294967296"
    using unat_uint32_less [of s] by linarith
  then show ?thesis
    by (simp add: unat_word_ariths hi lo)
qed

lemma fold_step_less: "s > 0xffff \<Longrightarrow> unat (drop_bit 16 s + (s AND 0xffff)) < unat s"
  for s :: uint32
proof -
  assume "s > 0xffff"
  then have "unat s div 65536 \<ge> 1"
    by (simp add: word_less_nat_alt less_eq_div_iff_mult_less_eq)
  with div_mult_mod_eq [of "unat s" 65536] show ?thesis
    unfolding unat_fold_step by linarith
qed

function csum_fold :: "uint32 \<Rightarrow> uint32" where
  "csum_fold s =
     (if s > 0xffff then csum_fold (drop_bit 16 s + (s AND 0xffff)) else s)"
  by pat_completeness auto
termination
  by (relation "measure unat") (use fold_step_less in auto)

declare csum_fold.simps [simp del]

definition UpdateChecksum16 :: "uint16 \<Rightarrow> uint16 \<Rightarrow> uint16 \<Rightarrow> uint16" where
  "UpdateChecksum16 oldCsum oldVal newVal =
     (let sum = ucast (NOT oldCsum) + ucast (NOT oldVal) + ucast newVal
      in NOT (ucast (csum_fold sum)))"

definition UpdateChecksum32 :: "uint16 \<Rightarrow> uint32 \<Rightarrow> uint32 \<Rightarrow> uint16" where
  "UpdateChecksum32 oldCsum oldVal newVal =
     (let oldHigh = ucast (drop_bit 16 oldVal) :: uint16;
          oldLow = ucast (oldVal AND 0xffff) :: uint16;
          newHigh = ucast (drop_bit 16 newVal) :: uint16;
          newLow = ucast (newVal AND 0xffff) :: uint16;
          sum = ucast (NOT oldCsum) + ucast (NOT oldHigh) + ucast newHigh
                + ucast (NOT oldLow) + ucast newLow
      in NOT (ucast (csum_fold sum)))"

text \<open>The loop \<open>for i := 0; i < 16; i += 2\<close> over two 16-byte arrays, from index \<open>i\<close>.\<close>

function ipv6_delta :: "nat \<Rightarrow> byte list \<Rightarrow> byte list \<Rightarrow> uint32 \<Rightarrow> uint32" where
  "ipv6_delta i oldIP newIP s =
     (if i < 16 then
        (let oldWord = be16 (oldIP ! i) (oldIP ! (i + 1));
             newWord = be16 (newIP ! i) (newIP ! (i + 1))
         in ipv6_delta (i + 2) oldIP newIP (s + (ucast (NOT oldWord) + ucast newWord)))
      else s)"
  by pat_completeness auto
termination
  by (relation "measure (\<lambda>(i, _). 16 - i)") auto

declare ipv6_delta.simps [simp del]

definition UpdateChecksumIPv6Bytes :: "uint16 \<Rightarrow> byte list \<Rightarrow> byte list \<Rightarrow> uint16" where
  "UpdateChecksumIPv6Bytes oldCsum oldIP newIP =
     (let sum = ipv6_delta 0 oldIP newIP (ucast (NOT oldCsum))
      in NOT (ucast (csum_fold sum)))"

text \<open>\<open>uint32(b[i])<<8 | uint32(b[i+1])\<close>\<close>

definition word_at :: "byte list \<Rightarrow> nat \<Rightarrow> uint32" where
  "word_at b i = push_bit 8 (ucast (b ! i)) OR ucast (b ! (i + 1))"

text \<open>
  The loop \<open>for i := 0; i < len(b)-1; i += 2\<close> of the full computations, which skips the
  checksum field where the source has \<open>if i == 10 { continue }\<close> (or \<open>i == 6\<close>).
\<close>

function word_loop :: "nat option \<Rightarrow> nat \<Rightarrow> byte list \<Rightarrow> uint32 \<Rightarrow> uint32" where
  "word_loop skip i b csum =
     (if i + 1 < length b then
        word_loop skip (i + 2) b (if skip = Some i then csum else csum + word_at b i)
      else csum)"
  by pat_completeness auto
termination
  by (relation "measure (\<lambda>(_, i, b, _). length b - i)") auto

declare word_loop.simps [simp del]

text \<open>\<open>if len(b)%2 != 0 { csum += uint32(b[len(b)-1]) << 8 }\<close>\<close>

definition odd_tail :: "byte list \<Rightarrow> uint32 \<Rightarrow> uint32" where
  "odd_tail b csum =
     (if length b mod 2 \<noteq> 0 then csum + push_bit 8 (ucast (b ! (length b - 1))) else csum)"

definition CalculateIPv4HeaderChecksum :: "byte list \<Rightarrow> uint16" where
  "CalculateIPv4HeaderChecksum hdr = NOT (ucast (csum_fold (word_loop (Some 10) 0 hdr 0)))"

text \<open>\<open>if result == 0 { result = 0xffff }\<close>\<close>

definition never_zero :: "uint16 \<Rightarrow> uint16" where
  "never_zero result = (if result = 0 then 0xffff else result)"

definition CalculateUDPChecksumIPv4 :: "byte list \<Rightarrow> byte list \<Rightarrow> byte list \<Rightarrow> uint16" where
  "CalculateUDPChecksumIPv4 srcIP dstIP udpSegment =
     (let csum = 0 + word_at srcIP 0 + word_at srcIP 2 + word_at dstIP 0 + word_at dstIP 2;
          udpLen = of_nat (length udpSegment) :: uint32;
          csum = csum + udpLen + 17;
          csum = odd_tail udpSegment (word_loop (Some 6) 0 udpSegment csum)
      in never_zero (NOT (ucast (csum_fold csum))))"

text \<open>The pseudo-header loop \<open>for i := 0; i < 16; i += 2\<close> over both addresses.\<close>

function pseudo_loop :: "nat \<Rightarrow> byte list \<Rightarrow> byte list \<Rightarrow> uint32 \<Rightarrow> uint32" where
  "pseudo_loop i srcIP dstIP csum =
     (if i < 16 then
        pseudo_loop (i + 2) srcIP dstIP (csum + word_at srcIP i + word_at dstIP i)
      else csum)"
  by pat_completeness auto
termination
  by (relation "measure (\<lambda>(i, _). 16 - i)") auto

declare pseudo_loop.simps [simp del]

definition CalculateUDPChecksumIPv6 :: "byte list \<Rightarrow> byte list \<Rightarrow> byte list \<Rightarrow> uint16" where
  "CalculateUDPChecksumIPv6 srcIP dstIP udpSegment =
     (let csum = pseudo_loop 0 srcIP dstIP 0;
          udpLen = of_nat (length udpSegment) :: uint32;
          csum = csum + drop_bit 16 udpLen + (udpLen AND 0xffff) + 17;
          csum = odd_tail udpSegment (word_loop (Some 6) 0 udpSegment csum)
      in never_zero (NOT (ucast (csum_fold csum))))"

definition CalculateTCPChecksumIPv6 :: "byte list \<Rightarrow> byte list \<Rightarrow> byte list \<Rightarrow> uint16" where
  "CalculateTCPChecksumIPv6 srcIP dstIP tcpSegment =
     (let csum = pseudo_loop 0 srcIP dstIP 0;
          tcpLen = of_nat (length tcpSegment) :: uint32;
          csum = csum + drop_bit 16 tcpLen + (tcpLen AND 0xffff) + 6;
          csum = odd_tail tcpSegment (word_loop None 0 tcpSegment csum)
      in NOT (ucast (csum_fold csum)))"

section \<open>Ones-complement arithmetic\<close>

definition fold16 :: "nat \<Rightarrow> nat" where
  "fold16 n = (if n = 0 then 0 else (n - 1) mod 65535 + 1)"

definition inet_csum :: "nat \<Rightarrow> uint16" where
  "inet_csum n = NOT (of_nat (fold16 n))"

text \<open>A receiver adds the words and the checksum and accepts when the sum folds to \<open>0xffff\<close>.\<close>

definition csum_ok :: "nat \<Rightarrow> uint16 \<Rightarrow> bool" where
  "csum_ok n c \<longleftrightarrow> fold16 (n + unat c) = 65535"

fun wsum :: "byte list \<Rightarrow> nat" where
  "wsum [] = 0"
| "wsum [a] = unat a * 256"
| "wsum (a # b # r) = unat (be16 a b) + wsum r"

lemma fold16_le: "fold16 n \<le> 65535"
  using mod_less_divisor [of 65535 "n - 1"] by (simp add: fold16_def del: mod_less_divisor)

lemma fold16_mod: "fold16 n mod 65535 = n mod 65535"
proof (cases n)
  case (Suc m)
  then show ?thesis
    by (simp add: fold16_def mod_Suc_eq)
qed (simp add: fold16_def)

lemma fold16_pos: "0 < n \<Longrightarrow> 0 < fold16 n"
  by (simp add: fold16_def)

lemma fold16_small: "n \<le> 65535 \<Longrightarrow> fold16 n = n"
  by (cases n) (auto simp: fold16_def)

lemma fold16_unique:
  assumes "0 < a" "0 < b" "a mod 65535 = b mod 65535"
  shows "fold16 a = fold16 b"
proof -
  have *: "fold16 x = (if x mod 65535 = 0 then 65535 else x mod 65535)" if "0 < x" for x
    using fold16_mod [of x] fold16_le [of x] fold16_pos [OF that] 
    by (metis le_neq_implies_less less_numeral_extra(3) mod_less mod_self)
  show ?thesis
    using assms by (simp add: *)
qed

lemma fold16_fold16 [simp]: "fold16 (fold16 n) = fold16 n"
  using fold16_le by (rule fold16_small)

lemma fold16_div_mod: "fold16 (n div 65536 + n mod 65536) = fold16 n"
proof (cases "n = 0")
  case False
  have "n mod 65535 = (n div 65536 * 65536 + n mod 65536) mod 65535"
    by simp
  also have "\<dots> = (n div 65536 + n mod 65536 + 65535 * (n div 65536)) mod 65535"
    by (simp add: algebra_simps)
  also have "\<dots> = (n div 65536 + n mod 65536) mod 65535"
    by (rule mod_mult_self2)
  finally have "(n div 65536 + n mod 65536) mod 65535 = n mod 65535"
    by (rule sym)
  moreover have "0 < n div 65536 + n mod 65536"
    using False by (metis add_gr_0 div_mult_mod_eq gr0I mult_0)
  ultimately show ?thesis
    using False by (intro fold16_unique) auto
qed simp

lemma unat_csum_fold: "unat (csum_fold s) = fold16 (unat s)"
proof (induction s rule: csum_fold.induct)
  case (1 s)
  show ?case
  proof (cases "s > 0xffff")
    case True
    then show ?thesis
      using 1 by (simp add: csum_fold.simps [of s] unat_fold_step fold16_div_mod)
  next
    case False
    then have "unat s \<le> 65535"
      by (simp add: word_less_nat_alt)
    with False show ?thesis
      by (simp add: csum_fold.simps [of s] fold16_small)
  qed
qed

lemma not_fold: "NOT (ucast (csum_fold s)) = inet_csum (unat s)"
proof -
  have "ucast (csum_fold s) = (of_nat (unat (csum_fold s)) :: uint16)"
    by simp
  then show ?thesis
    by (simp only: inet_csum_def unat_csum_fold)
qed

lemma unat_not16: "unat (NOT w) = 65535 - unat w" for w :: uint16
proof -
  have "NOT w = 65535 - w"
    by (simp add: not_eq_complement)
  moreover have "w \<le> 65535"
    using unat_uint16_less [of w] by (simp add: word_le_nat_alt del: unat_uint16_less)
  ultimately show ?thesis
    by (simp add: unat_sub)
qed

lemma unat_inet_csum: "unat (inet_csum n) = 65535 - fold16 n"
  using fold16_le [of n]
  by (simp add: inet_csum_def unat_not16 unat_of_nat take_bit_nat_eq_self)

lemma csum_ok_iff: "csum_ok n c \<longleftrightarrow> 0 < n + unat c \<and> (n + unat c) mod 65535 = 0"
proof
  assume "csum_ok n c"
  then show "0 < n + unat c \<and> (n + unat c) mod 65535 = 0"
    unfolding csum_ok_def using fold16_mod [of "n + unat c"]
    by (metis fold16_def gr0I mod_self numeral_eq_iff zero_neq_numeral)
next
  assume "0 < n + unat c \<and> (n + unat c) mod 65535 = 0"
  then show "csum_ok n c"
    unfolding csum_ok_def using fold16_unique [of "n + unat c" 65535] fold16_small [of 65535]
    by simp
qed

text \<open>The recomputed checksum is accepted.\<close>

lemma csum_ok_inet_csum: "0 < n \<Longrightarrow> csum_ok n (inet_csum n)"
proof -
  assume n: "0 < n"
  have "(n + (65535 - fold16 n)) mod 65535 = (fold16 n + (65535 - fold16 n)) mod 65535"
    by (metis fold16_mod mod_add_left_eq)
  also have "\<dots> = 0"
    using fold16_le [of n] by simp
  finally show ?thesis
    using n by (simp add: csum_ok_iff unat_inet_csum)
qed

section \<open>Sums of 16-bit words\<close>

lemma wsum_append: "even (length xs) \<Longrightarrow> wsum (xs @ ys) = wsum xs + wsum ys"
  by (induction xs rule: wsum.induct) auto

lemma wsum_blit:
  assumes "even i" "even (length ys)" "i + length ys \<le> length xs"
  shows "wsum (blit xs i ys) + wsum (field xs i (length ys)) = wsum xs + wsum ys"
proof -
  have len: "length (take i xs) = i"
    using assms by simp
  have xs: "xs = take i xs @ field xs i (length ys) @ drop (i + length ys) xs"
    by (metis append_take_drop_id drop_drop field_def add.commute)
  have "wsum (take i xs @ zs @ drop (i + length ys) xs)
      = wsum (take i xs) + wsum zs + wsum (drop (i + length ys) xs)"
    if "length zs = length ys" for zs
    using assms len that by (simp add: wsum_append del: length_take)
  from this [of ys] this [of "field xs i (length ys)"] show ?thesis
    using assms by (simp add: blit_def xs [symmetric])
qed

lemma wsum_le: "wsum xs \<le> 65535 * ((length xs + 1) div 2)"
proof (induction xs rule: wsum.induct)
  case (2 a)
  then show ?case
  proof -
    have "unat a * 256 \<le> 65535"
      using unat_byte_less [of a] by linarith
    then show ?thesis by simp
  qed
next
  case (3 a b r)
  have "unat (be16 a b) \<le> 65535"
    using unat_uint16_less [of "be16 a b"] by linarith
  with 3 show ?case
    by simp
qed simp

section \<open>Incremental updates\<close>

lemma ucast_of_nat: "(ucast w :: uint32) = of_nat (unat w)" for w :: uint16
  by simp

lemma unat_of_nat32: "n < 4294967296 \<Longrightarrow> unat (of_nat n :: uint32) = n"
  by (simp add: unat_of_nat take_bit_nat_eq_self)

text \<open>
  The core of RFC 1624, equation 3, for \<open>k\<close> changed words with old sum \<open>m\<close> and new sum
  \<open>m'\<close>, which take the whole sum from \<open>n\<^sub>0\<close> to \<open>n\<^sub>1\<close>; \<open>n\<close> is the sum the code folds.
\<close>

lemma incremental_cong:
  fixes c :: uint16
  assumes le: "m \<le> 65535 * k" and change: "n1 + m = n0 + m'"
    and n: "n = (65535 - unat c) + (65535 * k - m) + m'"
  shows "int n + int (n0 + unat c) = int n1 + 65535 * int (k + 1)"
proof -
  have "unat c \<le> 65535"
    using unat_uint16_less [of c] by linarith
  then have "int n = (65535 - int (unat c)) + (65535 * int k - int m) + int m'"
    using le by (simp add: n of_nat_diff)
  moreover have "int n1 + int m = int n0 + int m'"
    using change by (metis of_nat_add)
  ultimately show ?thesis
    by simp
qed

lemma incremental_ok:
  assumes ok: "csum_ok n0 c" and le: "m \<le> 65535 * k" and change: "n1 + m = n0 + m'"
    and pos: "0 < n1" and n: "n = (65535 - unat c) + (65535 * k - m) + m'"
  shows "csum_ok n1 (inet_csum n)"
proof -
  have "int ((n0 + unat c) mod 65535) = 0"
    using ok by (simp only: csum_ok_iff)
  then have "int (n0 + unat c) mod 65535 = 0"
    by (simp only: of_nat_mod of_nat_numeral)
  then have "(int n + int (n0 + unat c)) mod 65535 = int n mod 65535"
    by (subst mod_add_right_eq [symmetric]) simp
  moreover have "(int n + int (n0 + unat c)) mod 65535 = int n1 mod 65535"
    unfolding incremental_cong [OF le change n] by (rule mod_mult_self2)
  ultimately have "int (n mod 65535) = int (n1 mod 65535)"
    by (simp only: of_nat_mod of_nat_numeral)
  then have cong: "n1 mod 65535 = fold16 n mod 65535"
    by (simp only: of_nat_eq_iff fold16_mod)
  have "(n1 + (65535 - fold16 n)) mod 65535 = (fold16 n + (65535 - fold16 n)) mod 65535"
    by (rule mod_add_cong [OF cong refl])
  with fold16_le [of n] pos show ?thesis
    by (simp add: csum_ok_iff unat_inet_csum)
qed

lemma incremental_exact:
  assumes c: "c = inet_csum n0" and le: "m \<le> 65535 * k" and k: "0 < k"
    and change: "n1 + m = n0 + m'" and pos: "0 < n1"
    and n: "n = (65535 - unat c) + (65535 * k - m) + m'"
  shows "inet_csum n = inet_csum n1"
proof (cases "0 < n0")
  case True
  have c': "unat c = 65535 - fold16 n0"
    by (simp add: c unat_inet_csum)
  then have "0 < n"
    using fold16_pos [OF True] fold16_le [of n0] by (simp add: n)
  have "csum_ok n1 (inet_csum n)"
    using incremental_ok [OF _ le change pos n] csum_ok_inet_csum [OF True] c by blast
  then have "(n1 + (65535 - fold16 n)) mod 65535 = 0"
    by (simp add: csum_ok_iff unat_inet_csum)
  then have "(n1 + (65535 - fold16 n) + fold16 n) mod 65535 = fold16 n mod 65535"
    by (metis add_0 mod_add_left_eq)
  then have "fold16 n mod 65535 = n1 mod 65535"
    using fold16_le [of n] by simp
  then have "fold16 n = fold16 n1"
    using \<open>0 < n\<close> pos by (intro fold16_unique) (simp_all add: fold16_mod)
  then show ?thesis
    by (simp add: inet_csum_def)
next
  case False
  then have "unat c = 65535"
    by (simp add: c unat_inet_csum fold16_def)
  with False have n': "n = 65535 * k - m + m'" "m' = n1 + m"
    using change by (simp_all add: n)
  then have "n = n1 + 65535 * k"
    using le by simp
  then have "fold16 n = fold16 n1"
    using pos by (intro fold16_unique) auto
  then show ?thesis
    by (simp add: inet_csum_def)
qed

lemma UpdateChecksum16_eq:
  "UpdateChecksum16 c m m' = inet_csum ((65535 - unat c) + (65535 * 1 - unat m) + unat m')"
proof -
  have "ucast (NOT c) + ucast (NOT m) + ucast m'
      = (of_nat ((65535 - unat c) + (65535 - unat m) + unat m') :: uint32)"
    by (simp only: ucast_of_nat unat_not16 of_nat_add)
  moreover have "(65535 - unat c) + (65535 - unat m) + unat m' < 4294967296"
    using unat_uint16_less [of m'] by linarith
  ultimately show ?thesis
    by (simp only: UpdateChecksum16_def Let_def not_fold unat_of_nat32 mult_1_right)
qed

lemma UpdateChecksum32_eq:
  "UpdateChecksum32 cs (be32 a b c d) (be32 a' b' c' d')
   = inet_csum ((65535 - unat cs) + (65535 * 2 - wsum [a, b, c, d]) + wsum [a', b', c', d'])"
proof -
  let ?u = "(65535 - unat cs) + (65535 - unat (be16 a b)) + unat (be16 a' b')
      + (65535 - unat (be16 c d)) + unat (be16 c' d')"
  have low: "(ucast (x AND 0xffff) :: uint16) = ucast x" for x :: uint32
    by (rule bit_word_eqI) (simp add: and_ffff bit_simps)
  have "ucast (NOT cs) + ucast (NOT (be16 a b)) + ucast (be16 a' b')
      + ucast (NOT (be16 c d)) + ucast (be16 c' d') = (of_nat ?u :: uint32)"
    by (simp only: ucast_of_nat unat_not16 of_nat_add)
  moreover have "?u < 4294967296"
    using unat_uint16_less [of "be16 a' b'"] unat_uint16_less [of "be16 c' d'"] by linarith
  moreover have "?u = (65535 - unat cs) + (65535 * 2 - wsum [a, b, c, d]) + wsum [a', b', c', d']"
    unfolding wsum.simps
    using unat_uint16_less [of "be16 a b"] unat_uint16_less [of "be16 c d"] by linarith
  ultimately show ?thesis
    unfolding UpdateChecksum32_def Let_def low be32_high be32_low
    by (simp only: not_fold unat_of_nat32)
qed

lemma ipv6_delta_eq:
  assumes "even i" "i \<le> 16" "length old = 16" "length new = 16"
  shows "ipv6_delta i old new s
    = s + of_nat ((65535 * ((16 - i) div 2) - wsum (drop i old)) + wsum (drop i new))"
  using assms
proof (induction i old new s rule: ipv6_delta.induct)
  case (1 i old new s)
  show ?case
  proof (cases "i < 16")
    case True
    let ?o = "be16 (old ! i) (old ! (i + 1))" and ?n = "be16 (new ! i) (new ! (i + 1))"
    have i: "i + 1 < 16" "i + 2 \<le> 16" "even (i + 2)"
      using True 1 by presburger+
    have o: "wsum (drop i old) = unat ?o + wsum (drop (i + 2) old)"
      and n: "wsum (drop i new) = unat ?n + wsum (drop (i + 2) new)"
      using 1 i by (simp_all only: drop_two wsum.simps)
    have le1: "unat ?o \<le> 65535"
      using unat_uint16_less [of ?o] by linarith
    have le2: "wsum (drop (i + 2) old) \<le> 65535 * ((16 - (i + 2)) div 2)"
      using wsum_le [of "drop (i + 2) old"] i 1(2,4) by simp
    have half: "(16 - i) div 2 = Suc ((16 - (i + 2)) div 2)"
      using i by presburger
    have "ipv6_delta i old new s = s + of_nat ((65535 - unat ?o) + unat ?n)
        + of_nat ((65535 * ((16 - (i + 2)) div 2) - wsum (drop (i + 2) old)) + wsum (drop (i + 2) new))"
      using 1 True i unfolding ipv6_delta.simps [of i]
      by (simp only: Let_def if_True ucast_of_nat unat_not16 of_nat_add add.assoc)
    also have "\<dots> = s + of_nat (((65535 - unat ?o) + unat ?n)
        + ((65535 * ((16 - (i + 2)) div 2) - wsum (drop (i + 2) old)) + wsum (drop (i + 2) new)))"
      by (simp only: of_nat_add add.assoc)
    also have "((65535 - unat ?o) + unat ?n)
        + ((65535 * ((16 - (i + 2)) div 2) - wsum (drop (i + 2) old)) + wsum (drop (i + 2) new))
        = (65535 * ((16 - i) div 2) - wsum (drop i old)) + wsum (drop i new)"
      unfolding half o n using le1 le2 by simp
    finally show ?thesis .
  next
    case False
    with 1(3) have "i = 16"
      by simp
    with 1 show ?thesis
      by (simp add: ipv6_delta.simps [of 16])
  qed
qed

lemma wsum16_le: "length xs = 16 \<Longrightarrow> wsum xs \<le> 65535 * 8"
  using wsum_le [of xs] by simp

lemma UpdateChecksumIPv6Bytes_eq:
  assumes "length old = 16" "length new = 16"
  shows "UpdateChecksumIPv6Bytes c old new
    = inet_csum ((65535 - unat c) + (65535 * 8 - wsum old) + wsum new)"
proof -
  have "ipv6_delta 0 old new (ucast (NOT c))
      = of_nat ((65535 - unat c) + ((65535 * 8 - wsum old) + wsum new))"
    using ipv6_delta_eq [of 0 old new "ucast (NOT c)"] assms
    by (simp only: ucast_of_nat unat_not16 of_nat_add drop_0) simp
  moreover have "(65535 - unat c) + ((65535 * 8 - wsum old) + wsum new) < 4294967296"
    using wsum16_le [OF assms(2)] by linarith
  ultimately show ?thesis
    by (simp only: UpdateChecksumIPv6Bytes_def Let_def not_fold unat_of_nat32 add.assoc)
qed

text \<open>Each update keeps an accepted checksum accepted, and an exact one exact.\<close>

lemma UpdateChecksum16_ok:
  assumes "csum_ok n0 c" "n1 + unat m = n0 + unat m'" "0 < n1"
  shows "csum_ok n1 (UpdateChecksum16 c m m')"
  unfolding UpdateChecksum16_eq
  by (rule incremental_ok [where k = 1, OF assms(1) _ assms(2,3) refl])
    (use unat_uint16_less [of m] in linarith)

lemma UpdateChecksum16_exact:
  assumes "n1 + unat m = n0 + unat m'" "0 < n1"
  shows "UpdateChecksum16 (inet_csum n0) m m' = inet_csum n1"
  unfolding UpdateChecksum16_eq
  by (rule incremental_exact [where k = 1, OF refl _ _ assms refl])
    (use unat_uint16_less [of m] in linarith, simp)

lemma wsum4_le: "length xs = 4 \<Longrightarrow> wsum xs \<le> 65535 * 2"
  using wsum_le [of xs] by simp

lemma UpdateChecksum32_ok:
  assumes "csum_ok n0 cs" "n1 + wsum [a, b, c, d] = n0 + wsum [a', b', c', d']" "0 < n1"
  shows "csum_ok n1 (UpdateChecksum32 cs (be32 a b c d) (be32 a' b' c' d'))"
  unfolding UpdateChecksum32_eq
  by (rule incremental_ok [where k = 2, OF assms(1) _ assms(2,3) refl]) (rule wsum4_le, simp)

lemma UpdateChecksum32_exact:
  assumes "n1 + wsum [a, b, c, d] = n0 + wsum [a', b', c', d']" "0 < n1"
  shows "UpdateChecksum32 (inet_csum n0) (be32 a b c d) (be32 a' b' c' d') = inet_csum n1"
  unfolding UpdateChecksum32_eq
  by (rule incremental_exact [where k = 2, OF refl _ _ assms refl]) (rule wsum4_le, simp, simp)

lemma UpdateChecksumIPv6Bytes_ok:
  assumes "length old = 16" "length new = 16"
    and "csum_ok n0 c" "n1 + wsum old = n0 + wsum new" "0 < n1"
  shows "csum_ok n1 (UpdateChecksumIPv6Bytes c old new)"
  unfolding UpdateChecksumIPv6Bytes_eq [OF assms(1,2)]
  by (rule incremental_ok [where k = 8, OF assms(3) _ assms(4,5) refl])
    (rule wsum16_le [OF assms(1)])

lemma UpdateChecksumIPv6Bytes_exact:
  assumes "length old = 16" "length new = 16" "n1 + wsum old = n0 + wsum new" "0 < n1"
  shows "UpdateChecksumIPv6Bytes (inet_csum n0) old new = inet_csum n1"
  unfolding UpdateChecksumIPv6Bytes_eq [OF assms(1,2)]
  by (rule incremental_exact [where k = 8, OF refl _ _ assms(3,4) refl])
    (rule wsum16_le [OF assms(1)], simp)

section \<open>Full computations\<close>

lemma word_at_eq: "word_at b i = of_nat (unat (be16 (b ! i) (b ! (i + 1))))"
proof -
  have "word_at b i = ucast (be16 (b ! i) (b ! (i + 1)))"
    by (rule bit_word_eqI) (auto simp: word_at_def be16_def bit_simps not_less_eq dest: bit_imp_le_length)
  then show ?thesis
    by (simp only: ucast_of_nat)
qed

text \<open>The segment with its checksum field zeroed, which is what skipping the field sums.\<close>

fun skipped :: "nat option \<Rightarrow> byte list \<Rightarrow> byte list" where
  "skipped None b = b"
| "skipped (Some k) b = blit b k [0, 0]"

definition skip_ok :: "nat option \<Rightarrow> byte list \<Rightarrow> bool" where
  "skip_ok skip b \<longleftrightarrow> (case skip of None \<Rightarrow> True | Some k \<Rightarrow> even k \<and> k + 2 \<le> length b)"

lemma length_skipped [simp]: "skip_ok skip b \<Longrightarrow> length (skipped skip b) = length b"
  by (cases skip) (auto simp: skip_ok_def)

lemma skipped_word:
  assumes "skip_ok skip b" "even i" "i + 1 < length b"
  shows "unat (be16 (skipped skip b ! i) (skipped skip b ! (i + 1)))
    = (if skip = Some i then 0 else unat (be16 (b ! i) (b ! (i + 1))))"
proof (cases skip)
  case (Some k)
  have "i + 1 \<noteq> k" and "i \<noteq> Suc k"
    using assms Some by (auto simp: skip_ok_def)
  with assms Some show ?thesis
    by (auto simp: skip_ok_def nth_blit nth_Cons split: nat.splits)
qed simp

lemma skipped_last:
  assumes "skip_ok skip b" "even i" "i + 1 = length b"
  shows "skipped skip b ! i = b ! i"
proof (cases skip)
  case (Some k)
  then have "even k" "k + 2 \<le> i + 1"
    using assms by (auto simp: skip_ok_def)
  then have "k + 2 \<le> i"
    using assms(2) by presburger
  with assms Some show ?thesis
    by (simp add: skip_ok_def nth_blit)
qed simp

lemma seg_sum_eq:
  assumes "skip_ok skip b" "even i" "i \<le> length b"
  shows "odd_tail b (word_loop skip i b c) = c + of_nat (wsum (drop i (skipped skip b)))"
  using assms
proof (induction skip i b c rule: word_loop.induct)
  case (1 skip i b c)
  show ?case
  proof (cases "i + 1 < length b")
    case True
    have "wsum (drop i (skipped skip b))
        = (if skip = Some i then 0 else unat (be16 (b ! i) (b ! (i + 1))))
          + wsum (drop (i + 2) (skipped skip b))"
      using 1(2-4) True by (simp only: drop_two [of i "skipped skip b"] length_skipped wsum.simps skipped_word)
    moreover have "odd_tail b (word_loop skip i b c)
        = (if skip = Some i then c else c + word_at b i)
          + of_nat (wsum (drop (i + 2) (skipped skip b)))"
      using 1 True by (simp add: word_loop.simps [of skip i])
    ultimately show ?thesis
      by (simp add: word_at_eq del: add_2_eq_Suc')
  next
    case False
    then consider "i = length b" | "i + 1 = length b"
      using 1(4) by linarith
    then show ?thesis
    proof cases
      case 1
      then show ?thesis
        using \<open>even i\<close> \<open>skip_ok skip b\<close>
        by (simp add: word_loop.simps [of skip] odd_tail_def even_iff_mod_2_eq_zero)
    next
      case 2
      have "drop i (skipped skip b) = [b ! i]"
        using 2 1(2,3) by (simp add: skipped_last [symmetric] Cons_nth_drop_Suc [symmetric])
      moreover have "odd_tail b c = c + push_bit 8 (ucast (b ! i))"
        using 2 1(3) by (auto simp: odd_tail_def mod2_eq_if dest: sym)
      moreover have "push_bit 8 (ucast (b ! i)) = (of_nat (unat (b ! i) * 256) :: uint32)"
        by (simp add: push_bit_eq_mult)
      ultimately show ?thesis
        using False by (simp add: word_loop.simps [of skip i])
    qed
  qed
qed

lemma pseudo_loop_eq:
  assumes "even i" "i \<le> 16" "length src = 16" "length dst = 16"
  shows "pseudo_loop i src dst c = c + of_nat (wsum (drop i src) + wsum (drop i dst))"
  using assms
proof (induction i src dst c rule: pseudo_loop.induct)
  case (1 i src dst c)
  show ?case
  proof (cases "i < 16")
    case True
    have i: "i + 1 < 16" "i + 2 \<le> 16" "even (i + 2)"
      using True 1 by presburger+
    have "wsum (drop i src) = unat (be16 (src ! i) (src ! (i + 1))) + wsum (drop (i + 2) src)"
      and "wsum (drop i dst) = unat (be16 (dst ! i) (dst ! (i + 1))) + wsum (drop (i + 2) dst)"
      using 1 i by (simp_all only: drop_two wsum.simps)
    with 1 True i show ?thesis
      by (simp add: pseudo_loop.simps [of i] word_at_eq add_ac del: add_2_eq_Suc')
  next
    case False
    with 1(3) have "i = 16"
      by simp
    with 1 show ?thesis
      by (simp add: pseudo_loop.simps [of 16])
  qed
qed

text \<open>
  The sums the checksums are taken of: the segment with its pseudo-header.  Nothing
  overflows as long as the segment fits the 16-bit length fields.
\<close>

definition pseudo_sum :: "byte list \<Rightarrow> byte list \<Rightarrow> nat \<Rightarrow> byte list \<Rightarrow> nat" where
  "pseudo_sum src dst proto seg = wsum src + wsum dst + proto + length seg + wsum seg"

lemma wsum_seg_le: "length seg \<le> 65535 \<Longrightarrow> wsum seg \<le> 65535 * 32768"
proof -
  assume "length seg \<le> 65535"
  then have "(length seg + 1) div 2 \<le> 32768"
    by simp
  then show ?thesis
    using wsum_le [of seg] by linarith
qed

lemma pseudo_sum_less:
  assumes "length src \<le> 16" "length dst \<le> 16" "length seg \<le> 65535" "proto \<le> 255"
  shows "pseudo_sum src dst proto seg < 4294967296"
proof -
  have "wsum xs \<le> 65535 * 8" if "length xs \<le> 16" for xs
  proof -
    have "(length xs + 1) div 2 \<le> 8"
      using that by simp
    then show ?thesis
      using wsum_le [of xs] by linarith
  qed
  then have "wsum src \<le> 65535 * 8" "wsum dst \<le> 65535 * 8"
    using assms by auto
  then show ?thesis
    unfolding pseudo_sum_def using wsum_seg_le [OF assms(3)] assms(3,4) by linarith
qed

lemma CalculateIPv4HeaderChecksum_eq:
  assumes "even (length hdr)" "12 \<le> length hdr" "length hdr \<le> 65535"
  shows "CalculateIPv4HeaderChecksum hdr = inet_csum (wsum (blit hdr 10 [0, 0]))"
proof -
  have "word_loop (Some 10) 0 hdr 0 = of_nat (wsum (blit hdr 10 [0, 0]))"
    using assms seg_sum_eq [of "Some 10" hdr 0 0]
    by (simp add: skip_ok_def odd_tail_def even_iff_mod_2_eq_zero)
  moreover have "wsum (blit hdr 10 [0, 0]) < 4294967296"
    using wsum_seg_le [of "blit hdr 10 [0, 0]"] assms by simp
  ultimately show ?thesis
    by (simp only: CalculateIPv4HeaderChecksum_def not_fold unat_of_nat32)
qed

lemma four_bytes: "length xs = 4 \<Longrightarrow> xs = [xs ! 0, xs ! 1, xs ! 2, xs ! 3]"
  by (auto simp: numeral_eq_Suc length_Suc_conv)

lemma wsum_4: "length xs = 4 \<Longrightarrow>
  wsum xs = unat (be16 (xs ! 0) (xs ! 1)) + unat (be16 (xs ! 2) (xs ! 3))"
  by (auto simp: numeral_eq_Suc length_Suc_conv)

lemma CalculateUDPChecksumIPv4_eq:
  assumes "length src = 4" "length dst = 4" "8 \<le> length seg" "length seg \<le> 65535"
  shows "CalculateUDPChecksumIPv4 src dst seg
    = never_zero (inet_csum (pseudo_sum src dst 17 (blit seg 6 [0, 0])))"
proof -
  let ?c = "0 + word_at src 0 + word_at src 2 + word_at dst 0 + word_at dst 2
      + of_nat (length seg) + 17 :: uint32"
  have "?c = of_nat (wsum src + wsum dst + length seg + 17)"
    using assms(1,2) by (simp add: word_at_eq wsum_4)
  then have "odd_tail seg (word_loop (Some 6) 0 seg ?c)
      = of_nat (wsum src + wsum dst + length seg + 17) + of_nat (wsum (blit seg 6 [0, 0]))"
    using assms seg_sum_eq [of "Some 6" seg 0 ?c] by (simp add: skip_ok_def)
  also have "\<dots> = of_nat (pseudo_sum src dst 17 (blit seg 6 [0, 0]))"
    using assms by (simp add: pseudo_sum_def)
  finally have eq: "odd_tail seg (word_loop (Some 6) 0 seg ?c)
      = of_nat (pseudo_sum src dst 17 (blit seg 6 [0, 0]))" .
  have less: "pseudo_sum src dst 17 (blit seg 6 [0, 0]) < 4294967296"
    using assms by (intro pseudo_sum_less) simp_all
  show ?thesis
    by (simp only: CalculateUDPChecksumIPv4_def Let_def not_fold eq unat_of_nat32 [OF less])
qed

lemma short_len: "l \<le> 65535 \<Longrightarrow>
  c + drop_bit 16 (of_nat l) + (of_nat l AND 0xffff) = (c + of_nat l :: uint32)"
proof -
  assume l: "l \<le> 65535"
  then have u: "unat (of_nat l :: uint32) = l"
    by (simp add: unat_of_nat32)
  have "drop_bit 16 (of_nat l) = (0 :: uint32)"
    using l by (intro word_unat_eq_iff [THEN iffD2], subst unat_drop_bit_eq) (simp add: u drop_bit_eq_div)
  moreover have "of_nat l AND 0xffff = (of_nat l :: uint32)"
    using l by (intro word_unat_eq_iff [THEN iffD2]) (simp add: and_ffff take_bit_eq_mod unat_mod u)
  ultimately show ?thesis
    by simp
qed

lemma CalculateUDPChecksumIPv6_eq:
  assumes "length src = 16" "length dst = 16" "8 \<le> length seg" "length seg \<le> 65535"
  shows "CalculateUDPChecksumIPv6 src dst seg
    = never_zero (inet_csum (pseudo_sum src dst 17 (blit seg 6 [0, 0])))"
proof -
  have "odd_tail seg (word_loop (Some 6) 0 seg (pseudo_loop 0 src dst 0 + of_nat (length seg) + 17))
      = of_nat (pseudo_sum src dst 17 (blit seg 6 [0, 0]))"
    using assms seg_sum_eq [of "Some 6" seg 0] pseudo_loop_eq [of 0 src dst 0]
    by (simp add: skip_ok_def pseudo_sum_def)
  moreover have less: "pseudo_sum src dst 17 (blit seg 6 [0, 0]) < 4294967296"
    using assms by (intro pseudo_sum_less) simp_all
  ultimately show ?thesis
    using assms(4)
    by (simp only: CalculateUDPChecksumIPv6_def Let_def short_len not_fold unat_of_nat32 [OF less])
qed

lemma CalculateTCPChecksumIPv6_eq:
  assumes "length src = 16" "length dst = 16" "length seg \<le> 65535"
  shows "CalculateTCPChecksumIPv6 src dst seg = inet_csum (pseudo_sum src dst 6 seg)"
proof -
  have "odd_tail seg (word_loop None 0 seg (pseudo_loop 0 src dst 0 + of_nat (length seg) + 6))
      = of_nat (pseudo_sum src dst 6 seg)"
    using assms seg_sum_eq [of None seg 0] pseudo_loop_eq [of 0 src dst 0]
    by (simp add: skip_ok_def pseudo_sum_def)
  moreover have less: "pseudo_sum src dst 6 seg < 4294967296"
    using assms by (intro pseudo_sum_less) simp_all
  ultimately show ?thesis
    using assms(3)
    by (simp only: CalculateTCPChecksumIPv6_def Let_def short_len not_fold unat_of_nat32 [OF less])
qed

lemma csum_ok_never_zero: "csum_ok n c \<Longrightarrow> csum_ok n (never_zero c)"
  by (auto simp: never_zero_def csum_ok_iff)

section \<open>The incremental update is the full computation\<close>

lemma wsum_hd_pos: "xs \<noteq> [] \<Longrightarrow> xs ! 0 \<noteq> 0 \<Longrightarrow> 0 < wsum xs"
proof (induction xs rule: wsum.induct)
  case (3 a b r)
  then have "0 < unat a"
    by (simp add: unat_gt_0)
  then show ?case
    by (simp add: unat_be16)
qed (auto simp: unat_gt_0 unat_be16)

lemma blit_commute:
  assumes "i + length xs \<le> j" "j + length ys \<le> length b"
  shows "blit (blit b i xs) j ys = blit (blit b j ys) i xs"
  using assms by (intro nth_equalityI) (auto simp: nth_blit)

text \<open>
  Replacing an aligned 32-bit word of an IPv4 header behind the checksum field and updating the header checksum
  incrementally gives exactly the checksum that computing it afresh over the new header gives (RFC 1624, without the
  ambiguity between the two zeros that the older formula has).
\<close>

theorem incremental_eq_recompute:
  assumes len: "even (length hdr)" "length hdr \<le> 65535" and version: "hdr ! 0 \<noteq> 0"
    and pos: "even i" "12 \<le> i" "i + 4 \<le> length hdr"
  shows "UpdateChecksum32 (CalculateIPv4HeaderChecksum hdr)
      (be32 (hdr ! i) (hdr ! (i + 1)) (hdr ! (i + 2)) (hdr ! (i + 3))) (be32 a b c d)
    = CalculateIPv4HeaderChecksum (blit hdr i [a, b, c, d])"
proof -
  let ?z = "blit hdr 10 [0, 0]" and ?old = "[hdr ! i, hdr ! (i + 1), hdr ! (i + 2), hdr ! (i + 3)]"
  have old: "field ?z i (length [a, b, c, d]) = ?old"
    using pos by (intro nth_equalityI) (auto simp: nth_field nth_blit less_Suc_eq numeral_3_eq_3)
  have change: "wsum (blit ?z i [a, b, c, d]) + wsum ?old = wsum ?z + wsum [a, b, c, d]"
    using wsum_blit [of i "[a, b, c, d]" ?z] pos old by simp
  have swap: "blit (blit hdr i [a, b, c, d]) 10 [0, 0] = blit ?z i [a, b, c, d]"
    using blit_commute [of 10 "[0, 0]" i "[a, b, c, d]" hdr] pos by simp
  have "0 < wsum (blit ?z i [a, b, c, d])"
  proof (rule wsum_hd_pos)
    show "blit ?z i [a, b, c, d] \<noteq> []"
      by (simp add: blit_def)
    have "hdr \<noteq> []"
      using pos by auto
    then show "blit ?z i [a, b, c, d] ! 0 \<noteq> 0"
      using pos version by (simp add: nth_blit)
  qed
  from UpdateChecksum32_exact [OF change this] show ?thesis
    using pos len by (simp add: CalculateIPv4HeaderChecksum_eq swap)
qed

definition hdr_sample :: "byte list" where
  "hdr_sample = [0x45, 0, 0, 40, 0, 1, 0, 0, 64, 6, 0, 0, 10, 0, 0, 1, 93, 184, 216, 34]"

theorem incremental_eq_recompute_witness:
  "UpdateChecksum32 (CalculateIPv4HeaderChecksum hdr_sample) (be32 93 184 216 34) (be32 127 0 0 1)
    = CalculateIPv4HeaderChecksum (blit hdr_sample 16 [127, 0, 0, 1])"
  using incremental_eq_recompute [of hdr_sample 16 127 0 0 1]
  by (simp add: hdr_sample_def)

end
