(* ===== verification/PacketParser.thy ===== *)
theory PacketParser
  imports Checksum GoNet
begin

text \<open>
  Header parsing and packet construction of \<open>internal/interceptor/packet_parser.go\<close>.
  A result \<open>None\<close> is a runtime panic; \<open>Some (Inl e)\<close> is a returned Go error.  The fast
  parsers return the fields themselves, the header parsers a record.

  The lemmas show that no input makes a parser panic, that the header parsers and the fast
  parsers agree on every input, and that parsing a built UDP packet gives back its
  addresses, ports and payload, with checksums a receiver accepts.
\<close>

datatype perr = ErrPacketTooShort | ErrInvalidHeaderLength | ErrNotIPv6 byte

record IPv4Header =
  ip4_VersionIHL :: uint8
  ip4_TOS :: uint8
  ip4_Length :: uint16
  ip4_ID :: uint16
  ip4_FragOff :: uint16
  ip4_TTL :: uint8
  ip4_Protocol :: uint8
  ip4_Checksum :: uint16
  ip4_SrcIP :: netIP
  ip4_DstIP :: netIP

record TCPHeader =
  tcp_SrcPort :: uint16
  tcp_DstPort :: uint16
  tcp_SeqNum :: uint32
  tcp_AckNum :: uint32
  tcp_DataOffset :: uint8
  tcp_Flags :: uint8
  tcp_Window :: uint16
  tcp_Checksum :: uint16
  tcp_Urgent :: uint16

record IPv6Header =
  ip6_Version :: uint8
  ip6_PayloadLen :: uint16
  ip6_NextHeader :: uint8
  ip6_HopLimit :: uint8
  ip6_SrcIP :: "byte list"
  ip6_DstIP :: "byte list"

section \<open>Parsing\<close>

definition ParseIPv4Header :: "byte list \<Rightarrow> (perr + IPv4Header \<times> nat) option" where
  "ParseIPv4Header packet =
     (if length packet < 20 then Some (Inl ErrPacketTooShort)
      else do {
        b0 \<leftarrow> go_index packet 0;
        let ihl = unat (b0 AND 0x0F) * 4;
        if ihl < 20 \<or> length packet < ihl then Some (Inl ErrInvalidHeaderLength)
        else do {
          tos \<leftarrow> go_index packet 1;
          len \<leftarrow> u16_at packet 2 4;
          ident \<leftarrow> u16_at packet 4 6;
          fragOff \<leftarrow> u16_at packet 6 8;
          ttl \<leftarrow> go_index packet 8;
          protocol \<leftarrow> go_index packet 9;
          checksum \<leftarrow> u16_at packet 10 12;
          srcIP \<leftarrow> go_slice packet 12 16;
          dstIP \<leftarrow> go_slice packet 16 20;
          Some (Inr (\<lparr>ip4_VersionIHL = b0, ip4_TOS = tos, ip4_Length = len, ip4_ID = ident,
                      ip4_FragOff = fragOff, ip4_TTL = ttl, ip4_Protocol = protocol,
                      ip4_Checksum = checksum, ip4_SrcIP = srcIP, ip4_DstIP = dstIP\<rparr>, ihl))
        }
      })"

definition ParseIPv4Fast ::
  "byte list \<Rightarrow> (perr + uint8 \<times> byte list \<times> byte list \<times> nat) option" where
  "ParseIPv4Fast packet =
     (if length packet < 20 then Some (Inl ErrPacketTooShort)
      else do {
        b0 \<leftarrow> go_index packet 0;
        let ihl = unat (b0 AND 0x0F) * 4;
        if ihl < 20 \<or> length packet < ihl then Some (Inl ErrInvalidHeaderLength)
        else do {
          proto \<leftarrow> go_index packet 9;
          srcIP \<leftarrow> go_slice packet 12 16;
          dstIP \<leftarrow> go_slice packet 16 20;
          Some (Inr (proto, srcIP, dstIP, ihl))
        }
      })"

definition ParseTCPFast ::
  "byte list \<Rightarrow> nat \<Rightarrow> (perr + uint16 \<times> uint16 \<times> uint8 \<times> nat) option" where
  "ParseTCPFast packet offset =
     (if length packet < offset + 20 then Some (Inl ErrPacketTooShort)
      else do {
        tcpBytes \<leftarrow> go_from packet offset;
        b12 \<leftarrow> go_index tcpBytes 12;
        let dataOffset = unat (drop_bit 4 b12) * 4;
        if dataOffset < 20 \<or> length tcpBytes < dataOffset then Some (Inl ErrInvalidHeaderLength)
        else do {
          srcPort \<leftarrow> u16_at tcpBytes 0 2;
          dstPort \<leftarrow> u16_at tcpBytes 2 4;
          flags \<leftarrow> go_index tcpBytes 13;
          Some (Inr (srcPort, dstPort, flags, dataOffset))
        }
      })"

definition ParseTCPHeader :: "byte list \<Rightarrow> nat \<Rightarrow> (perr + TCPHeader \<times> nat) option" where
  "ParseTCPHeader packet offset = do {
     r \<leftarrow> ParseTCPFast packet offset;
     case r of
       Inl err \<Rightarrow> Some (Inl err)
     | Inr (srcPort, dstPort, flags, dataOffset) \<Rightarrow> do {
         tcpBytes \<leftarrow> go_from packet offset;
         seqNum \<leftarrow> u32_at tcpBytes 4 8;
         ackNum \<leftarrow> u32_at tcpBytes 8 12;
         window \<leftarrow> u16_at tcpBytes 14 16;
         checksum \<leftarrow> u16_at tcpBytes 16 18;
         urgent \<leftarrow> u16_at tcpBytes 18 20;
         Some (Inr (\<lparr>tcp_SrcPort = srcPort, tcp_DstPort = dstPort, tcp_SeqNum = seqNum,
                     tcp_AckNum = ackNum, tcp_DataOffset = of_nat (dataOffset div 4),
                     tcp_Flags = flags, tcp_Window = window, tcp_Checksum = checksum,
                     tcp_Urgent = urgent\<rparr>, dataOffset))
       }
   }"

definition ParseIPv6Fast ::
  "byte list \<Rightarrow> (perr + uint8 \<times> byte list \<times> byte list \<times> uint16 \<times> nat) option" where
  "ParseIPv6Fast data =
     (if length data < 40 then Some (Inl ErrPacketTooShort)
      else do {
        b0 \<leftarrow> go_index data 0;
        let version = drop_bit 4 b0;
        if version \<noteq> 6 then Some (Inl (ErrNotIPv6 version))
        else do {
          payloadLen \<leftarrow> u16_at data 4 6;
          nextHeader \<leftarrow> go_index data 6;
          srcIP \<leftarrow> go_slice data 8 24;
          dstIP \<leftarrow> go_slice data 24 40;
          Some (Inr (nextHeader, srcIP, dstIP, payloadLen, 40))
        }
      })"

definition ParseIPv6Header :: "byte list \<Rightarrow> (perr + IPv6Header \<times> nat) option" where
  "ParseIPv6Header data = do {
     r \<leftarrow> ParseIPv6Fast data;
     case r of
       Inl err \<Rightarrow> Some (Inl err)
     | Inr (nextHeader, srcIP, dstIP, payloadLen, ihl) \<Rightarrow> do {
         b0 \<leftarrow> go_index data 0;
         hopLimit \<leftarrow> go_index data 7;
         Some (Inr (\<lparr>ip6_Version = drop_bit 4 b0, ip6_PayloadLen = payloadLen,
                     ip6_NextHeader = nextHeader, ip6_HopLimit = hopLimit,
                     ip6_SrcIP = srcIP, ip6_DstIP = dstIP\<rparr>, ihl))
       }
   }"

definition ParseUDPFast ::
  "byte list \<Rightarrow> nat \<Rightarrow> (perr + uint16 \<times> uint16 \<times> uint16 \<times> nat) option" where
  "ParseUDPFast packet ihl =
     (if length packet < ihl + 8 then Some (Inl ErrPacketTooShort)
      else do {
        udpHeader \<leftarrow> go_slice packet ihl (ihl + 8);
        srcPort \<leftarrow> u16_at udpHeader 0 2;
        dstPort \<leftarrow> u16_at udpHeader 2 4;
        udpLen \<leftarrow> u16_at udpHeader 4 6;
        Some (Inr (srcPort, dstPort, udpLen, ihl + 8))
      })"

section \<open>Construction\<close>

text \<open>The builders return \<open>Some None\<close> for Go's \<open>nil\<close>.\<close>

definition BuildIPv4UDPPacket ::
  "netIP \<Rightarrow> netIP \<Rightarrow> uint16 \<Rightarrow> uint16 \<Rightarrow> byte list \<Rightarrow> byte list option option" where
  "BuildIPv4UDPPacket srcIP dstIP srcPort dstPort payload =
     (case (To4 srcIP, To4 dstIP) of
        (Some src4, Some dst4) \<Rightarrow> do {
          let totalLen = 20 + 8 + length payload;
          let pkt = replicate totalLen (0 :: byte);
          pkt \<leftarrow> go_set pkt 0 0x45;
          pkt \<leftarrow> go_set pkt 1 0x00;
          pkt \<leftarrow> PutUint16 pkt 2 4 (of_nat totalLen);
          pkt \<leftarrow> PutUint16 pkt 4 6 0x1234;
          pkt \<leftarrow> PutUint16 pkt 6 8 0x4000;
          pkt \<leftarrow> go_set pkt 8 64;
          pkt \<leftarrow> go_set pkt 9 17;
          pkt \<leftarrow> go_copy pkt 12 16 src4;
          pkt \<leftarrow> go_copy pkt 16 20 dst4;
          hdr \<leftarrow> go_slice pkt 0 20;
          pkt \<leftarrow> PutUint16 pkt 10 12 (CalculateIPv4HeaderChecksum hdr);
          pkt \<leftarrow> PutUint16 pkt 20 22 srcPort;
          pkt \<leftarrow> PutUint16 pkt 22 24 dstPort;
          pkt \<leftarrow> PutUint16 pkt 24 26 (of_nat (8 + length payload));
          pkt \<leftarrow> go_copy pkt 28 (length pkt) payload;
          seg \<leftarrow> go_from pkt 20;
          pkt \<leftarrow> PutUint16 pkt 26 28 (CalculateUDPChecksumIPv4 src4 dst4 seg);
          Some (Some pkt)
        }
      | _ \<Rightarrow> Some None)"

definition BuildIPv6UDPPacket ::
  "netIP \<Rightarrow> netIP \<Rightarrow> uint16 \<Rightarrow> uint16 \<Rightarrow> byte list \<Rightarrow> byte list option option" where
  "BuildIPv6UDPPacket srcIP dstIP srcPort dstPort payload =
     (case (To16 srcIP, To16 dstIP) of
        (Some src16, Some dst16) \<Rightarrow> do {
          let payloadLen = 8 + length payload;
          let totalLen = 40 + payloadLen;
          let pkt = replicate totalLen (0 :: byte);
          pkt \<leftarrow> go_set pkt 0 0x60;
          pkt \<leftarrow> go_set pkt 1 0x00;
          pkt \<leftarrow> go_set pkt 2 0x00;
          pkt \<leftarrow> go_set pkt 3 0x00;
          pkt \<leftarrow> PutUint16 pkt 4 6 (of_nat payloadLen);
          pkt \<leftarrow> go_set pkt 6 17;
          pkt \<leftarrow> go_set pkt 7 64;
          pkt \<leftarrow> go_copy pkt 8 24 src16;
          pkt \<leftarrow> go_copy pkt 24 40 dst16;
          pkt \<leftarrow> PutUint16 pkt 40 42 srcPort;
          pkt \<leftarrow> PutUint16 pkt 42 44 dstPort;
          pkt \<leftarrow> PutUint16 pkt 44 46 (of_nat payloadLen);
          pkt \<leftarrow> go_copy pkt 48 (length pkt) payload;
          seg \<leftarrow> go_from pkt 40;
          pkt \<leftarrow> PutUint16 pkt 46 48 (CalculateUDPChecksumIPv6 src16 dst16 seg);
          Some (Some pkt)
        }
      | _ \<Rightarrow> Some None)"

section \<open>No panics, and agreement of the parsers\<close>

lemma ParseIPv4Fast_eq:
  "ParseIPv4Fast p =
     Some (if length p < 20 then Inl ErrPacketTooShort
           else let ihl = unat (p ! 0 AND 0x0F) * 4
                in if ihl < 20 \<or> length p < ihl then Inl ErrInvalidHeaderLength
                   else Inr (p ! 9, field p 12 4, field p 16 4, ihl))"
proof (cases "length p < 20")
  case False
  then have "p \<noteq> []"
    by auto
  with False show ?thesis
    by (simp add: ParseIPv4Fast_def go_simps Let_def)
qed (simp add: ParseIPv4Fast_def)

lemma ParseTCPFast_eq:
  "ParseTCPFast p off =
     Some (if length p < off + 20 then Inl ErrPacketTooShort
           else let dataOffset = unat (drop_bit 4 (p ! (off + 12))) * 4
                in if dataOffset < 20 \<or> length p - off < dataOffset then Inl ErrInvalidHeaderLength
                   else Inr (be16 (p ! off) (p ! (off + 1)), be16 (p ! (off + 2)) (p ! (off + 3)),
                             p ! (off + 13), dataOffset))"
  by (simp add: ParseTCPFast_def go_simps Let_def)

lemma ParseIPv6Fast_eq:
  "ParseIPv6Fast p =
     Some (if length p < 40 then Inl ErrPacketTooShort
           else if drop_bit 4 (p ! 0) \<noteq> 6 then Inl (ErrNotIPv6 (drop_bit 4 (p ! 0)))
           else Inr (p ! 6, field p 8 16, field p 24 16, be16 (p ! 4) (p ! 5), 40))"
proof (cases "length p < 40")
  case False
  then have "p \<noteq> []"
    by auto
  with False show ?thesis
    by (simp add: ParseIPv6Fast_def go_simps Let_def)
qed (simp add: ParseIPv6Fast_def)

lemma ParseUDPFast_eq:
  "ParseUDPFast p ihl =
     Some (if length p < ihl + 8 then Inl ErrPacketTooShort
           else Inr (be16 (p ! ihl) (p ! (ihl + 1)), be16 (p ! (ihl + 2)) (p ! (ihl + 3)),
                     be16 (p ! (ihl + 4)) (p ! (ihl + 5)), ihl + 8))"
  by (simp add: ParseUDPFast_def go_simps nth_field)

lemma ParseIPv4Header_eq:
  "ParseIPv4Header p =
     Some (if length p < 20 then Inl ErrPacketTooShort
           else let ihl = unat (p ! 0 AND 0x0F) * 4
                in if ihl < 20 \<or> length p < ihl then Inl ErrInvalidHeaderLength
                   else Inr (\<lparr>ip4_VersionIHL = p ! 0, ip4_TOS = p ! 1, ip4_Length = be16 (p ! 2) (p ! 3),
                      ip4_ID = be16 (p ! 4) (p ! 5), ip4_FragOff = be16 (p ! 6) (p ! 7),
                      ip4_TTL = p ! 8, ip4_Protocol = p ! 9, ip4_Checksum = be16 (p ! 10) (p ! 11),
                      ip4_SrcIP = field p 12 4, ip4_DstIP = field p 16 4\<rparr>, ihl))"
proof (cases "length p < 20")
  case False
  then have "p \<noteq> []"
    by auto
  with False show ?thesis
    by (simp add: ParseIPv4Header_def go_simps Let_def)
qed (simp add: ParseIPv4Header_def)

lemma drop_bit_4_less: "unat (drop_bit 4 (b :: byte)) < 16"
proof -
  have "unat (drop_bit 4 b) = unat b div 16"
    by (subst unat_drop_bit_eq) (simp add: drop_bit_eq_div)
  then show ?thesis
    using unat_byte_less [of b] by (simp add: less_mult_imp_div_less del: unat_byte_less)
qed

text \<open>
  The header parsers and the allocation-free parsers agree on every input, errors
  included, and none of them ever panics: the fields the fast parsers return are those of
  the header record, at the same offsets.
\<close>

theorem header_parsers_agree:
  "ParseIPv4Fast p =
     map_option (map_sum id (\<lambda>(h, ihl). (ip4_Protocol h, ip4_SrcIP h, ip4_DstIP h, ihl))) (ParseIPv4Header p)
   \<and> ParseTCPFast p off =
     map_option (map_sum id (\<lambda>(h, n). (tcp_SrcPort h, tcp_DstPort h, tcp_Flags h, n))) (ParseTCPHeader p off)
   \<and> ParseIPv6Fast p =
     map_option (map_sum id (\<lambda>(h, n). (ip6_NextHeader h, ip6_SrcIP h, ip6_DstIP h, ip6_PayloadLen h, n)))
       (ParseIPv6Header p)
   \<and> ParseIPv4Fast p \<noteq> None \<and> ParseTCPFast p off \<noteq> None \<and> ParseIPv6Fast p \<noteq> None
   \<and> ParseUDPFast p off \<noteq> None"
proof (intro conjI)
  show "ParseIPv4Fast p =
     map_option (map_sum id (\<lambda>(h, ihl). (ip4_Protocol h, ip4_SrcIP h, ip4_DstIP h, ihl))) (ParseIPv4Header p)"
    by (simp add: ParseIPv4Header_eq ParseIPv4Fast_eq Let_def)
  show "ParseTCPFast p off =
     map_option (map_sum id (\<lambda>(h, n). (tcp_SrcPort h, tcp_DstPort h, tcp_Flags h, n))) (ParseTCPHeader p off)"
    by (auto simp: ParseTCPHeader_def ParseTCPFast_eq go_simps Let_def)
  show "ParseIPv6Fast p =
     map_option (map_sum id (\<lambda>(h, n). (ip6_NextHeader h, ip6_SrcIP h, ip6_DstIP h, ip6_PayloadLen h, n)))
       (ParseIPv6Header p)"
    by (cases "p = []") (auto simp: ParseIPv6Header_def ParseIPv6Fast_eq go_simps)
qed (simp_all add: ParseIPv4Fast_eq ParseTCPFast_eq ParseIPv6Fast_eq ParseUDPFast_eq)

text \<open>
  The offsets a successful parse returns stay inside the packet and inside the
  20..60 bytes that a header can have, so the slice expressions \<open>packet[ihl:]\<close> and
  \<open>packet[ihl+dataOffset:]\<close> that follow in the callers are in range.
\<close>

theorem parsed_offsets_in_range:
  assumes "ParseIPv4Fast p = Some (Inr (proto, src, dst, ihl))"
    and "ParseTCPFast p ihl = Some (Inr (srcPort, dstPort, flags, dataOffset))"
  shows "20 \<le> ihl \<and> ihl \<le> 60 \<and> 20 \<le> dataOffset \<and> dataOffset \<le> 60
     \<and> ihl + dataOffset \<le> length p \<and> length src = 4 \<and> length dst = 4"
  using assms and_0F_less [of "p ! 0"] drop_bit_4_less [of "p ! (ihl + 12)"]
  by (auto simp: ParseIPv4Fast_eq ParseTCPFast_eq Let_def split: if_splits)

definition syn_sample :: "byte list" where
  "syn_sample = [0x45, 0, 0, 40, 0, 1, 0x40, 0, 64, 6, 0x26, 0xcd, 10, 0, 0, 1, 10, 0, 0, 2,
     0x1f, 0x90, 1, 0xbb, 0, 0, 0, 1, 0, 0, 0, 0, 0x50, 2, 0xff, 0xff, 0x7a, 0x94, 0, 0]"

theorem parsed_offsets_in_range_witness:
  "ParseIPv4Fast syn_sample = Some (Inr (6, [10, 0, 0, 1], [10, 0, 0, 2], 20))
   \<and> ParseTCPFast syn_sample 20 = Some (Inr (0x1f90, 443, 2, 20)) \<and> 20 + 20 \<le> length syn_sample"
proof -
  have "ParseIPv4Fast syn_sample = Some (Inr (6, [10, 0, 0, 1], [10, 0, 0, 2], 20))"
    and "ParseTCPFast syn_sample 20 = Some (Inr (0x1f90, 443, 2, 20))"
    by code_simp+
  with parsed_offsets_in_range [OF this] show ?thesis
    by blast
qed

section \<open>Built packets\<close>

text \<open>The layout the builders are meant to produce, field by field.\<close>

definition udp4_header :: "byte list \<Rightarrow> byte list \<Rightarrow> uint16 \<Rightarrow> uint16 \<Rightarrow> byte list" where
  "udp4_header s d len c =
     [0x45, 0, hi8 len, lo8 len, 0x12, 0x34, 0x40, 0, 64, 17, hi8 c, lo8 c] @ s @ d"

definition udp6_header :: "byte list \<Rightarrow> byte list \<Rightarrow> uint16 \<Rightarrow> byte list" where
  "udp6_header s d len = [0x60, 0, 0, 0, hi8 len, lo8 len, 17, 64] @ s @ d"

definition udp_segment :: "uint16 \<Rightarrow> uint16 \<Rightarrow> uint16 \<Rightarrow> uint16 \<Rightarrow> byte list \<Rightarrow> byte list" where
  "udp_segment sp dp len c payload =
     [hi8 sp, lo8 sp, hi8 dp, lo8 dp, hi8 len, lo8 len, hi8 c, lo8 c] @ payload"

lemma hi8_lo8_const:
  "hi8 0x1234 = 0x12" "lo8 0x1234 = 0x34" "hi8 0x4000 = 0x40" "lo8 0x4000 = 0" "hi8 0 = 0" "lo8 0 = 0"
  by (simp_all add: hi8_def lo8_def)

lemma zeros_28: "replicate (28 + n) (0 :: byte)
  = [0,0,0,0, 0,0,0,0, 0,0,0,0, 0,0,0,0, 0,0,0,0, 0,0,0,0, 0,0,0,0] @ replicate n 0"
  by (simp add: replicate_add numeral_eq_Suc)

lemma zeros_48: "replicate (48 + n) (0 :: byte)
  = [0,0,0,0, 0,0,0,0, 0,0,0,0, 0,0,0,0, 0,0,0,0, 0,0,0,0, 0,0,0,0, 0,0,0,0, 0,0,0,0, 0,0,0,0,
     0,0,0,0, 0,0,0,0] @ replicate n 0"
  by (simp add: replicate_add numeral_eq_Suc)

lemma BuildIPv4UDPPacket_layout:
  fixes payload :: "byte list"
  assumes "To4 srcIP = Some s" "To4 dstIP = Some d"
  defines "len \<equiv> of_nat (28 + length payload)" and "ulen \<equiv> of_nat (8 + length payload)"
  shows "BuildIPv4UDPPacket srcIP dstIP sp dp payload = Some (Some (
       udp4_header s d len (CalculateIPv4HeaderChecksum (udp4_header s d len 0))
       @ udp_segment sp dp ulen (CalculateUDPChecksumIPv4 s d (udp_segment sp dp ulen 0 payload)) payload))"
proof -
  have "length s = 4" "length d = 4"
    using assms by (auto dest: length_To4)
  then show ?thesis
    using assms(1,2) unfolding len_def ulen_def
    by (simp add: BuildIPv4UDPPacket_def zeros_28 go_simps blit_def field_def hi8_lo8_const
        udp4_header_def udp_segment_def Let_def)
qed

lemma BuildIPv6UDPPacket_layout:
  fixes payload :: "byte list"
  assumes "To16 srcIP = Some s" "To16 dstIP = Some d"
  defines "ulen \<equiv> of_nat (8 + length payload)"
  shows "BuildIPv6UDPPacket srcIP dstIP sp dp payload = Some (Some (
       udp6_header s d ulen
       @ udp_segment sp dp ulen (CalculateUDPChecksumIPv6 s d (udp_segment sp dp ulen 0 payload)) payload))"
proof -
  have "length s = 16" "length d = 16"
    using assms by (auto dest: length_To16)
  then show ?thesis
    using assms(1,2) unfolding ulen_def
    by (simp add: BuildIPv6UDPPacket_def zeros_48 go_simps blit_def field_def hi8_lo8_const
        udp6_header_def udp_segment_def Let_def)
qed

lemma udp4_header_sum: "wsum (udp4_header s d len c) = wsum (udp4_header s d len 0) + unat c"
  by (simp add: udp4_header_def hi8_lo8_const)

lemma udp_segment_sum:
  "pseudo_sum s d p (udp_segment sp dp len c payload)
     = pseudo_sum s d p (udp_segment sp dp len 0 payload) + unat c"
  by (simp add: pseudo_sum_def udp_segment_def hi8_lo8_const)

lemma udp_segment_blit: "blit (udp_segment sp dp len c payload) 6 [0, 0] = udp_segment sp dp len 0 payload"
  by (simp add: blit_def udp_segment_def hi8_lo8_const)

lemma udp4_header_blit: "blit (udp4_header s d len c) 10 [0, 0] = udp4_header s d len 0"
  by (simp add: blit_def udp4_header_def hi8_lo8_const)

lemma length_udp_segment [simp]: "length (udp_segment sp dp len c payload) = 8 + length payload"
  by (simp add: udp_segment_def)

lemma udp4_header_accepted:
  assumes "length s = 4" "length d = 4"
  shows "fold16 (wsum (udp4_header s d len (CalculateIPv4HeaderChecksum (udp4_header s d len 0)))) = 65535"
proof -
  have l: "length (udp4_header s d len 0) = 20"
    using assms by (simp add: udp4_header_def)
  have "CalculateIPv4HeaderChecksum (udp4_header s d len 0) = inet_csum (wsum (udp4_header s d len 0))"
    using l by (subst CalculateIPv4HeaderChecksum_eq) (simp_all add: udp4_header_blit)
  moreover have "0 < wsum (udp4_header s d len 0)"
    by (simp add: udp4_header_def unat_be16)
  ultimately show ?thesis
    by (metis csum_ok_def csum_ok_inet_csum udp4_header_sum)
qed

lemma udp_segment_accepted:
  assumes "c = never_zero (inet_csum (pseudo_sum s d 17 (udp_segment sp dp len 0 payload)))"
  shows "fold16 (pseudo_sum s d 17 (udp_segment sp dp len c payload)) = 65535"
proof -
  have "0 < pseudo_sum s d 17 (udp_segment sp dp len 0 payload)"
    by (simp add: pseudo_sum_def)
  then show ?thesis
    unfolding assms by (metis csum_ok_def csum_ok_inet_csum csum_ok_never_zero udp_segment_sum)
qed

lemma build4_ok:
  assumes "To4 srcIP = Some s" "To4 dstIP = Some d" "length payload \<le> 65507"
  shows "\<exists>pkt. BuildIPv4UDPPacket srcIP dstIP srcPort dstPort payload = Some (Some pkt)
     \<and> length pkt = 28 + length payload
     \<and> u16_at pkt 2 4 = Some (of_nat (length pkt))
     \<and> ParseIPv4Fast pkt = Some (Inr (17, s, d, 20))
     \<and> ParseUDPFast pkt 20 = Some (Inr (srcPort, dstPort, of_nat (8 + length payload), 28))
     \<and> drop 28 pkt = payload
     \<and> fold16 (wsum (take 20 pkt)) = 65535
     \<and> fold16 (pseudo_sum s d 17 (drop 20 pkt)) = 65535"
proof -
  have l: "length s = 4" "length d = 4"
    using assms by (auto dest: length_To4)
  let ?len = "of_nat (28 + length payload) :: uint16" and ?ulen = "of_nat (8 + length payload) :: uint16"
  define u where "u = CalculateUDPChecksumIPv4 s d (udp_segment srcPort dstPort ?ulen 0 payload)"
  define c where "c = CalculateIPv4HeaderChecksum (udp4_header s d ?len 0)"
  let ?h = "udp4_header s d ?len c" and ?u = "udp_segment srcPort dstPort ?ulen u payload"
  have lh: "length ?h = 20"
    using l by (simp add: udp4_header_def)
  have u: "u = never_zero (inet_csum (pseudo_sum s d 17 (udp_segment srcPort dstPort ?ulen 0 payload)))"
    using l assms(3) by (simp add: u_def CalculateUDPChecksumIPv4_eq udp_segment_blit)
  have "ParseIPv4Fast (?h @ ?u) = Some (Inr (17, s, d, 20))"
    using l by (simp add: ParseIPv4Fast_eq udp4_header_def field_def Let_def)
  moreover have "ParseUDPFast (?h @ ?u) 20 = Some (Inr (srcPort, dstPort, ?ulen, 28))"
    using lh by (simp add: ParseUDPFast_eq nth_append udp_segment_def)
  moreover have "u16_at (?h @ ?u) 2 4 = Some ?len"
    using lh by (simp add: go_simps) (simp add: udp4_header_def)
  moreover have "drop 28 (?h @ ?u) = payload"
    using lh by (simp add: udp_segment_def)
  ultimately show ?thesis
    using BuildIPv4UDPPacket_layout [OF assms(1,2), of srcPort dstPort payload] lh
      udp4_header_accepted [OF l] udp_segment_accepted [OF u]
    by (intro exI [of _ "?h @ ?u"]) (simp add: u_def c_def)
qed

text \<open>
  A UDP packet that is built parses back to its addresses, ports, length and payload,
  and both its checksums are the ones a receiver accepts.  A payload above 65507 bytes
  would not fit the 16-bit total length.
\<close>

theorem BuildIPv4UDP_roundtrip:
  assumes "To4 srcIP = Some s" "To4 dstIP = Some d" "length payload \<le> 65507"
  shows "\<exists>pkt. BuildIPv4UDPPacket srcIP dstIP srcPort dstPort payload = Some (Some pkt)
     \<and> length pkt = 28 + length payload
     \<and> u16_at pkt 2 4 = Some (of_nat (length pkt))
     \<and> ParseIPv4Fast pkt = Some (Inr (17, s, d, 20))
     \<and> ParseUDPFast pkt 20 = Some (Inr (srcPort, dstPort, of_nat (8 + length payload), 28))
     \<and> drop 28 pkt = payload
     \<and> fold16 (wsum (take 20 pkt)) = 65535
     \<and> fold16 (pseudo_sum s d 17 (drop 20 pkt)) = 65535"
  by (rule build4_ok [OF assms])

theorem BuildIPv4UDP_roundtrip_witness:
  "\<exists>pkt. BuildIPv4UDPPacket [10, 0, 0, 1] (IPv4 8 8 8 8) 5353 53 [1, 2, 3] = Some (Some pkt)
     \<and> length pkt = 28 + length [1 :: byte, 2, 3]
     \<and> u16_at pkt 2 4 = Some (of_nat (length pkt))
     \<and> ParseIPv4Fast pkt = Some (Inr (17, [10, 0, 0, 1], [8, 8, 8, 8], 20))
     \<and> ParseUDPFast pkt 20 = Some (Inr (5353, 53, of_nat (8 + length [1 :: byte, 2, 3]), 28))
     \<and> drop 28 pkt = [1, 2, 3]
     \<and> fold16 (wsum (take 20 pkt)) = 65535
     \<and> fold16 (pseudo_sum [10, 0, 0, 1] [8, 8, 8, 8] 17 (drop 20 pkt)) = 65535"
  by (rule BuildIPv4UDP_roundtrip) (simp_all add: To4_def IPv4_def v4InV6Prefix_def)

lemma build6_ok:
  assumes "To16 srcIP = Some s" "To16 dstIP = Some d" "length payload \<le> 65527"
  shows "\<exists>pkt. BuildIPv6UDPPacket srcIP dstIP srcPort dstPort payload = Some (Some pkt)
     \<and> length pkt = 48 + length payload
     \<and> ParseIPv6Fast pkt = Some (Inr (17, s, d, of_nat (8 + length payload), 40))
     \<and> ParseUDPFast pkt 40 = Some (Inr (srcPort, dstPort, of_nat (8 + length payload), 48))
     \<and> drop 48 pkt = payload
     \<and> fold16 (pseudo_sum s d 17 (drop 40 pkt)) = 65535"
proof -
  have l: "length s = 16" "length d = 16"
    using assms by (auto dest: length_To16)
  let ?ulen = "of_nat (8 + length payload) :: uint16"
  define u where "u = CalculateUDPChecksumIPv6 s d (udp_segment srcPort dstPort ?ulen 0 payload)"
  let ?h = "udp6_header s d ?ulen" and ?u = "udp_segment srcPort dstPort ?ulen u payload"
  have lh: "length ?h = 40"
    using l by (simp add: udp6_header_def)
  have u: "u = never_zero (inet_csum (pseudo_sum s d 17 (udp_segment srcPort dstPort ?ulen 0 payload)))"
    using l assms(3) by (simp add: u_def CalculateUDPChecksumIPv6_eq udp_segment_blit)
  have "ParseIPv6Fast (?h @ ?u) = Some (Inr (17, s, d, ?ulen, 40))"
    using l by (simp add: ParseIPv6Fast_eq udp6_header_def field_def)
  moreover have "ParseUDPFast (?h @ ?u) 40 = Some (Inr (srcPort, dstPort, ?ulen, 48))"
    using lh by (simp add: ParseUDPFast_eq nth_append udp_segment_def)
  moreover have "drop 48 (?h @ ?u) = payload"
    using lh by (simp add: udp_segment_def)
  ultimately show ?thesis
    using BuildIPv6UDPPacket_layout [OF assms(1,2), of srcPort dstPort payload] lh
      udp_segment_accepted [OF u]
    by (intro exI [of _ "?h @ ?u"]) (simp add: u_def)
qed

text \<open>
  The IPv6 counterpart, for payloads up to 65527 bytes.
\<close>

theorem BuildIPv6UDP_roundtrip:
  assumes "To16 srcIP = Some s" "To16 dstIP = Some d" "length payload \<le> 65527"
  shows "\<exists>pkt. BuildIPv6UDPPacket srcIP dstIP srcPort dstPort payload = Some (Some pkt)
     \<and> length pkt = 48 + length payload
     \<and> ParseIPv6Fast pkt = Some (Inr (17, s, d, of_nat (8 + length payload), 40))
     \<and> ParseUDPFast pkt 40 = Some (Inr (srcPort, dstPort, of_nat (8 + length payload), 48))
     \<and> drop 48 pkt = payload
     \<and> fold16 (pseudo_sum s d 17 (drop 40 pkt)) = 65535"
  by (rule build6_ok [OF assms])

theorem BuildIPv6UDP_roundtrip_witness:
  "\<exists>pkt. BuildIPv6UDPPacket IPv6loopback [8, 8, 8, 8] 5353 53 [1, 2] = Some (Some pkt)
     \<and> length pkt = 48 + length [1 :: byte, 2]
     \<and> ParseIPv6Fast pkt = Some (Inr (17, IPv6loopback, IPv4 8 8 8 8, of_nat (8 + length [1 :: byte, 2]), 40))
     \<and> ParseUDPFast pkt 40 = Some (Inr (5353, 53, of_nat (8 + length [1 :: byte, 2]), 48))
     \<and> drop 48 pkt = [1, 2]
     \<and> fold16 (pseudo_sum IPv6loopback (IPv4 8 8 8 8) 17 (drop 40 pkt)) = 65535"
  by (rule BuildIPv6UDP_roundtrip)
    (simp_all add: To16_def IPv4_def v4InV6Prefix_def IPv6loopback_def)

section \<open>Summary for the callers\<close>

text \<open>No parser or builder panics, and what a successful parse gives.\<close>

lemma ParseIPv4Fast_returns [returns_intros]: "returns (ParseIPv4Fast packet)"
  by (auto simp: ParseIPv4Fast_def Let_def intro!: returns_intros)

lemma ParseTCPFast_returns [returns_intros]: "returns (ParseTCPFast packet offset)"
  by (auto simp: ParseTCPFast_def Let_def go_from_def intro!: returns_intros split: if_split_asm)

lemma ParseIPv6Fast_returns [returns_intros]: "returns (ParseIPv6Fast packet)"
  by (auto simp: ParseIPv6Fast_def Let_def intro!: returns_intros)

lemma ParseUDPFast_returns [returns_intros]: "returns (ParseUDPFast packet ihl)"
  by (auto simp: ParseUDPFast_def Let_def dest!: go_slice_length intro!: returns_intros)

lemma BuildIPv4UDPPacket_returns [returns_intros]: "returns (BuildIPv4UDPPacket srcIP dstIP sp dp payload)"
  using BuildIPv4UDPPacket_layout [of srcIP _ dstIP]
  by (cases "To4 srcIP"; cases "To4 dstIP") (simp_all add: BuildIPv4UDPPacket_def)

lemma BuildIPv6UDPPacket_returns [returns_intros]: "returns (BuildIPv6UDPPacket srcIP dstIP sp dp payload)"
  using BuildIPv6UDPPacket_layout [of srcIP _ dstIP]
  by (cases "To16 srcIP"; cases "To16 dstIP") (simp_all add: BuildIPv6UDPPacket_def)

lemma ParseIPv4Fast_result:
  "ParseIPv4Fast p = Some (Inr (proto, s, d, ihl)) \<longleftrightarrow>
     20 \<le> length p \<and> ihl = unat (p ! 0 AND 0x0F) * 4 \<and> 20 \<le> ihl \<and> ihl \<le> length p
     \<and> proto = p ! 9 \<and> s = field p 12 4 \<and> d = field p 16 4"
  by (cases "p = []") (auto simp: ParseIPv4Fast_def Let_def go_simps)

lemma ParseIPv6Fast_result:
  "ParseIPv6Fast p = Some (Inr (proto, s, d, len, ihl)) \<longleftrightarrow>
     40 \<le> length p \<and> drop_bit 4 (p ! 0) = 6 \<and> ihl = 40 \<and> proto = p ! 6 \<and> s = field p 8 16 \<and> d = field p 24 16
     \<and> len = be16 (p ! 4) (p ! 5)"
  by (cases "p = []") (auto simp: ParseIPv6Fast_def Let_def go_simps)

lemma ParseTCPFast_result:
  "ParseTCPFast p h = Some (Inr (sp, dp, flags, off)) \<longleftrightarrow>
     h + 20 \<le> length p \<and> off = unat (drop_bit 4 (p ! (h + 12))) * 4 \<and> 20 \<le> off \<and> h + off \<le> length p
     \<and> sp = be16 (p ! h) (p ! (h + 1)) \<and> dp = be16 (p ! (h + 2)) (p ! (h + 3)) \<and> flags = p ! (h + 13)"
  by (auto simp: ParseTCPFast_def Let_def go_simps add.assoc)

lemma ParseUDPFast_result:
  "ParseUDPFast p h = Some (Inr (sp, dp, len, off)) \<longleftrightarrow>
     h + 8 \<le> length p \<and> off = h + 8
     \<and> sp = be16 (p ! h) (p ! (h + 1)) \<and> dp = be16 (p ! (h + 2)) (p ! (h + 3)) \<and> len = be16 (p ! (h + 4)) (p ! (h + 5))"
  by (auto simp: ParseUDPFast_def go_simps nth_field)

end
