(* ===== verification/Rewrite.thy ===== *)
theory Rewrite
  imports PacketParser
begin

text \<open>
  The in-place address and port translation of \<open>internal/interceptor/packet_parser.go\<close>
  (\<open>RewriteIPv4TCP\<close>, \<open>RewriteIPv6TCP\<close>), with the two running checksums the source keeps in
  local variables and writes back at the end.

  The locale \<open>csum_region\<close> states what a checksum field of a packet is: a sum over the packet
  in which the field counts once.  Its lemmas say that a checksum taken out of the packet,
  updated incrementally along with the bytes and stored again is still accepted by a
  receiver.  It is interpreted for the IPv4 header, and for a TCP segment with its
  pseudo-header over IPv4 and IPv6.
\<close>

section \<open>The operations\<close>

text \<open>
  The blocks \<open>if newSrcIP != nil {...}\<close> of \<open>RewriteIPv4TCP\<close>: \<open>lo\<close> is 12 for the source and 16
  for the destination.  A nil \<open>net.IP\<close> is the empty list.
\<close>

definition rewrite_addr4 ::
  "nat \<Rightarrow> netIP \<Rightarrow> byte list \<times> uint16 \<times> uint16 \<Rightarrow> (byte list \<times> uint16 \<times> uint16) option" where
  "rewrite_addr4 lo newIP st =
     (case st of (packet, ipCsum, tcpCsum) \<Rightarrow>
        if newIP = [] then Some st
        else case To4 newIP of
          None \<Rightarrow> Some st
        | Some ip4 \<Rightarrow> do {
            oldA \<leftarrow> u32_at packet lo (lo + 4);
            newA \<leftarrow> Uint32 ip4;
            if oldA \<noteq> newA then do {
              packet \<leftarrow> go_copy packet lo (lo + 4) ip4;
              Some (packet, UpdateChecksum32 ipCsum oldA newA, UpdateChecksum32 tcpCsum oldA newA)
            } else Some st
          })"

definition rewrite_port ::
  "nat \<Rightarrow> uint16 \<Rightarrow> byte list \<times> uint16 \<Rightarrow> (byte list \<times> uint16) option" where
  "rewrite_port lo newPort st =
     (case st of (packet, tcpCsum) \<Rightarrow>
        if newPort \<noteq> 0 then do {
          oldPort \<leftarrow> u16_at packet lo (lo + 2);
          if oldPort \<noteq> newPort then do {
            packet \<leftarrow> PutUint16 packet lo (lo + 2) newPort;
            Some (packet, UpdateChecksum16 tcpCsum oldPort newPort)
          } else Some st
        } else Some st)"

definition RewriteIPv4TCP ::
  "byte list \<Rightarrow> netIP \<Rightarrow> netIP \<Rightarrow> uint16 \<Rightarrow> uint16 \<Rightarrow> (perr + byte list) option" where
  "RewriteIPv4TCP packet newSrcIP newDstIP newSrcPort newDstPort =
     (if length packet < 40 then Some (Inl ErrPacketTooShort)
      else do {
        b0 \<leftarrow> go_index packet 0;
        let ihl = unat (b0 AND 0x0F) * 4;
        if length packet < ihl + 20 then Some (Inl ErrPacketTooShort)
        else do {
          ipCsum \<leftarrow> u16_at packet 10 12;
          let tcpOffset = ihl;
          tcpCsum \<leftarrow> u16_at packet (tcpOffset + 16) (tcpOffset + 18);
          st \<leftarrow> rewrite_addr4 12 newSrcIP (packet, ipCsum, tcpCsum);
          (packet, ipCsum, tcpCsum) \<leftarrow> rewrite_addr4 16 newDstIP st;
          st \<leftarrow> rewrite_port tcpOffset newSrcPort (packet, tcpCsum);
          (packet, tcpCsum) \<leftarrow> rewrite_port (tcpOffset + 2) newDstPort st;
          packet \<leftarrow> PutUint16 packet 10 12 ipCsum;
          packet \<leftarrow> PutUint16 packet (tcpOffset + 16) (tcpOffset + 18) tcpCsum;
          Some (Inr packet)
        }
      })"

definition rewrite_addr6 ::
  "nat \<Rightarrow> netIP \<Rightarrow> byte list \<times> uint16 \<Rightarrow> (byte list \<times> uint16) option" where
  "rewrite_addr6 lo newIP st =
     (case st of (packet, tcpCsum) \<Rightarrow>
        if newIP = [] then Some st
        else case To16 newIP of
          None \<Rightarrow> Some st
        | Some ip6 \<Rightarrow> do {
            oldA \<leftarrow> go_slice packet lo (lo + 16);
            let newA = ip6;
            if oldA \<noteq> newA then do {
              packet \<leftarrow> go_copy packet lo (lo + 16) ip6;
              Some (packet, UpdateChecksumIPv6Bytes tcpCsum oldA newA)
            } else Some st
          })"

definition RewriteIPv6TCP ::
  "byte list \<Rightarrow> netIP \<Rightarrow> netIP \<Rightarrow> uint16 \<Rightarrow> uint16 \<Rightarrow> (perr + byte list) option" where
  "RewriteIPv6TCP packet newSrcIP newDstIP newSrcPort newDstPort =
     (if length packet < 60 then Some (Inl ErrPacketTooShort)
      else do {
        b0 \<leftarrow> go_index packet 0;
        let version = drop_bit 4 b0;
        if version \<noteq> 6 then Some (Inl (ErrNotIPv6 version))
        else do {
          let tcpOffset = 40;
          tcpCsum \<leftarrow> u16_at packet (tcpOffset + 16) (tcpOffset + 18);
          st \<leftarrow> rewrite_addr6 8 newSrcIP (packet, tcpCsum);
          st \<leftarrow> rewrite_addr6 24 newDstIP st;
          st \<leftarrow> rewrite_port tcpOffset newSrcPort st;
          (packet, tcpCsum) \<leftarrow> rewrite_port (tcpOffset + 2) newDstPort st;
          packet \<leftarrow> PutUint16 packet (tcpOffset + 16) (tcpOffset + 18) tcpCsum;
          Some (Inr packet)
        }
      })"

section \<open>Checksum fields\<close>

definition csum_rest :: "(byte list \<Rightarrow> nat) \<Rightarrow> (byte list \<Rightarrow> nat) \<Rightarrow> byte list \<Rightarrow> nat" where
  "csum_rest tsum pos q = tsum (blit q (pos q) [0, 0])"

definition stored_csum :: "(byte list \<Rightarrow> nat) \<Rightarrow> byte list \<Rightarrow> uint16" where
  "stored_csum pos q = be16 (q ! pos q) (q ! (pos q + 1))"

text \<open>What the rewritten packet is to hold: a nil address or a zero port keeps the old one.\<close>

definition new_addr :: "(netIP \<Rightarrow> netIP option) \<Rightarrow> netIP \<Rightarrow> netIP \<Rightarrow> netIP" where
  "new_addr conv ip old = (case conv ip of None \<Rightarrow> old | Some a \<Rightarrow> a)"

definition new_port :: "uint16 \<Rightarrow> uint16 \<Rightarrow> uint16" where
  "new_port p old = (if p = 0 then old else p)"

abbreviation port_bytes :: "uint16 \<Rightarrow> byte list" where
  "port_bytes w \<equiv> [hi8 w, lo8 w]"

lemma conv_Nil [simp]: "To4 [] = None" "To16 [] = None"
  by (simp_all add: To4_def To16_def)

lemma two_bytes_field:
  "i + 2 \<le> length q \<Longrightarrow> field q i 2 = port_bytes (be16 (q ! i) (q ! (i + 1)))"
  by (simp add: field_def drop_two)

locale csum_region =
  fixes valid :: "byte list \<Rightarrow> bool" and tsum :: "byte list \<Rightarrow> nat" and pos :: "byte list \<Rightarrow> nat"
  assumes put: "valid q \<Longrightarrow>
      tsum (blit q (pos q) [a, b]) + unat (stored_csum pos q) = tsum q + unat (be16 a b)"
    and positive: "valid q \<Longrightarrow> 0 < csum_rest tsum pos q"
begin

lemma total_split: "valid q \<Longrightarrow> tsum q = csum_rest tsum pos q + unat (stored_csum pos q)"
  using put [of q 0 0] by (simp add: csum_rest_def)

text \<open>Taking the checksum of an accepted packet out, and storing a checksum.\<close>

lemma load: "valid q \<Longrightarrow> fold16 (tsum q) = 65535 \<Longrightarrow> csum_ok (csum_rest tsum pos q) (stored_csum pos q)"
  by (simp add: csum_ok_def total_split)

lemma store:
  "valid q \<Longrightarrow> csum_ok (csum_rest tsum pos q) c \<Longrightarrow>
   fold16 (tsum (blit q (pos q) [hi8 c, lo8 c])) = 65535"
  using put [of q "hi8 c" "lo8 c"] total_split [of q] by (simp add: csum_ok_def)

lemma rest_step:
  assumes "valid q" "valid q'" "stored_csum pos q' = stored_csum pos q"
    and "tsum q' + m = tsum q + m'"
  shows "csum_rest tsum pos q' + m = csum_rest tsum pos q + m' \<and> 0 < csum_rest tsum pos q'"
  using assms total_split [of q] total_split [of q'] positive [of q'] by simp

lemma step16:
  assumes "csum_ok (csum_rest tsum pos q) c"
    and "valid q" "valid q'" "stored_csum pos q' = stored_csum pos q"
    and "tsum q' + unat m = tsum q + unat m'"
  shows "csum_ok (csum_rest tsum pos q') (UpdateChecksum16 c m m')"
  using UpdateChecksum16_ok [OF assms(1)] rest_step [OF assms(2-5)] by blast

lemma step32:
  assumes "csum_ok (csum_rest tsum pos q) s"
    and "valid q" "valid q'" "stored_csum pos q' = stored_csum pos q"
    and "tsum q' + wsum [a, b, c, d] = tsum q + wsum [a', b', c', d']"
  shows "csum_ok (csum_rest tsum pos q') (UpdateChecksum32 s (be32 a b c d) (be32 a' b' c' d'))"
  using UpdateChecksum32_ok [OF assms(1)] rest_step [OF assms(2-5)] by blast

lemma step128:
  assumes "csum_ok (csum_rest tsum pos q) s"
    and "valid q" "valid q'" "stored_csum pos q' = stored_csum pos q"
    and "length old = 16" "length new = 16" "tsum q' + wsum old = tsum q + wsum new"
  shows "csum_ok (csum_rest tsum pos q') (UpdateChecksumIPv6Bytes s old new)"
  using UpdateChecksumIPv6Bytes_ok [OF assms(5,6,1)] rest_step [OF assms(2-4,7)] by blast

text \<open>The steps of the rewriters, wherever a write at \<open>lo\<close> moves the sum by its bytes.\<close>

lemma port_step:
  assumes l: "lo + 2 \<le> length q" and v: "valid q"
    and w: "\<And>ys. length ys = 2 \<Longrightarrow> valid (blit q lo ys)
      \<and> stored_csum pos (blit q lo ys) = stored_csum pos q
      \<and> tsum (blit q lo ys) + wsum (field q lo 2) = tsum q + wsum ys"
  shows "\<exists>c'. rewrite_port lo p (q, c)
        = Some (blit q lo (port_bytes (new_port p (be16 (q ! lo) (q ! (lo + 1))))), c')
      \<and> (csum_ok (csum_rest tsum pos q) c \<longrightarrow>
         csum_ok (csum_rest tsum pos (blit q lo (port_bytes (new_port p (be16 (q ! lo) (q ! (lo + 1))))))) c')"
proof (cases "p = 0 \<or> be16 (q ! lo) (q ! (lo + 1)) = p")
  case True
  have "blit q lo (port_bytes (be16 (q ! lo) (q ! (lo + 1)))) = q"
    using blit_field_same [OF l] by (simp only: two_bytes_field [OF l])
  with True l show ?thesis
    by (auto simp: rewrite_port_def new_port_def go_simps)
next
  case False
  let ?old = "be16 (q ! lo) (q ! (lo + 1))" and ?q = "blit q lo (port_bytes p)"
  have "rewrite_port lo p (q, c) = Some (?q, UpdateChecksum16 c ?old p)"
    using False l by (simp add: rewrite_port_def go_simps)
  moreover have "csum_ok (csum_rest tsum pos ?q) (UpdateChecksum16 c ?old p)"
    if "csum_ok (csum_rest tsum pos q) c"
    using that v w [of "port_bytes p"] by (intro step16) (auto simp: two_bytes_field [OF l])
  ultimately show ?thesis
    using False by (simp add: new_port_def)
qed

lemma addr6_step:
  assumes l: "lo + 16 \<le> length q" and v: "valid q"
    and w: "\<And>ys. length ys = 16 \<Longrightarrow> valid (blit q lo ys)
      \<and> stored_csum pos (blit q lo ys) = stored_csum pos q
      \<and> tsum (blit q lo ys) + wsum (field q lo 16) = tsum q + wsum ys"
  shows "\<exists>c'. rewrite_addr6 lo ip (q, c) = Some (blit q lo (new_addr To16 ip (field q lo 16)), c')
      \<and> (csum_ok (csum_rest tsum pos q) c \<longrightarrow>
         csum_ok (csum_rest tsum pos (blit q lo (new_addr To16 ip (field q lo 16)))) c')"
proof (cases "To16 ip")
  case None
  then show ?thesis
    using l by (simp add: rewrite_addr6_def new_addr_def)
next
  case (Some a)
  have ip: "ip \<noteq> []"
    using Some by auto
  have a: "length a = 16"
    using Some by (rule length_To16)
  show ?thesis
  proof (cases "field q lo 16 = a")
    case True
    then show ?thesis
      using Some ip l blit_field_same [OF l] by (simp add: rewrite_addr6_def new_addr_def go_simps)
  next
    case False
    then have "rewrite_addr6 lo ip (q, c)
        = Some (blit q lo a, UpdateChecksumIPv6Bytes c (field q lo 16) a)"
      using Some ip l a by (simp add: rewrite_addr6_def go_simps)
    moreover have "csum_ok (csum_rest tsum pos (blit q lo a)) (UpdateChecksumIPv6Bytes c (field q lo 16) a)"
      if "csum_ok (csum_rest tsum pos q) c"
      using that v w [OF a] l a by (intro step128) auto
    ultimately show ?thesis
      using Some by (simp add: new_addr_def)
  qed
qed

end

text \<open>The regions of the packets that are rewritten.\<close>

definition hdr_len :: "byte list \<Rightarrow> nat" where
  "hdr_len q = unat (q ! 0 AND 0x0F) * 4"

definition ip4_valid :: "byte list \<Rightarrow> bool" where
  "ip4_valid q \<longleftrightarrow> 20 \<le> hdr_len q \<and> hdr_len q \<le> length q"

definition ip4_total :: "byte list \<Rightarrow> nat" where
  "ip4_total q = wsum (take (hdr_len q) q)"

definition tcp4_valid :: "nat \<Rightarrow> byte list \<Rightarrow> bool" where
  "tcp4_valid n q \<longleftrightarrow> 20 \<le> hdr_len q \<and> 20 \<le> n \<and> hdr_len q + n \<le> length q"

definition tcp4_total :: "nat \<Rightarrow> byte list \<Rightarrow> nat" where
  "tcp4_total n q = pseudo_sum (field q 12 4) (field q 16 4) 6 (field q (hdr_len q) n)"

definition tcp6_valid :: "nat \<Rightarrow> byte list \<Rightarrow> bool" where
  "tcp6_valid n q \<longleftrightarrow> 20 \<le> n \<and> 40 + n \<le> length q"

definition tcp6_total :: "nat \<Rightarrow> byte list \<Rightarrow> nat" where
  "tcp6_total n q = pseudo_sum (field q 8 16) (field q 24 16) 6 (field q 40 n)"

lemma even_hdr_len [simp]: "even (hdr_len q)"
  by (simp add: hdr_len_def)

lemma hdr_len_blit [blit_simps]:
  "0 < i \<Longrightarrow> i + length ys \<le> length q \<Longrightarrow> hdr_len (blit q i ys) = hdr_len q"
  by (cases "length q") (auto simp: hdr_len_def nth_blit)

lemma take_blit: "i + length ys \<le> n \<Longrightarrow> n \<le> length q \<Longrightarrow> take n (blit q i ys) = blit (take n q) i ys"
  by (rule nth_equalityI) (auto simp: nth_blit)

lemma field_blit_in:
  "j \<le> i \<Longrightarrow> i + length ys \<le> j + n \<Longrightarrow> j + n \<le> length q \<Longrightarrow>
   field (blit q i ys) j n = blit (field q j n) (i - j) ys"
  by (rule nth_equalityI) (auto simp: nth_blit nth_field add.commute)

lemma field_take: "i + k \<le> n \<Longrightarrow> field (take n q) i k = field q i k"
  by (simp add: field_def drop_take)

lemma field_field: "i + k \<le> n \<Longrightarrow> field (field q j n) i k = field q (j + i) k"
  by (simp add: field_def drop_take add.commute)

lemma wsum_field2:
  "i + 2 \<le> length q \<Longrightarrow> wsum (field q i (Suc (Suc 0))) = unat (be16 (q ! i) (q ! (i + 1)))"
  by (simp add: field_def drop_two)

text \<open>Writing inside a region moves its sum by the difference of the bytes.\<close>

lemma ip4_total_blit:
  assumes "ip4_valid q" "0 < i" "even i" "even (length ys)" "i + length ys \<le> hdr_len q"
  shows "ip4_total (blit q i ys) + wsum (field q i (length ys)) = ip4_total q + wsum ys"
  using assms wsum_blit [of i ys "take (hdr_len q) q"]
  by (simp add: ip4_total_def ip4_valid_def hdr_len_blit take_blit field_take)

lemma pseudo_sum_blit:
  assumes "even i" "even (length ys)" "i + length ys \<le> length seg"
  shows "pseudo_sum s d p (blit seg i ys) + wsum (field seg i (length ys)) = pseudo_sum s d p seg + wsum ys"
  using assms wsum_blit [of i ys seg] by (simp add: pseudo_sum_def)

lemma tcp4_total_seg:
  assumes "tcp4_valid n q" "even i" "even (length ys)" "i + length ys \<le> n"
  shows "tcp4_total n (blit q (hdr_len q + i) ys) + wsum (field q (hdr_len q + i) (length ys))
     = tcp4_total n q + wsum ys"
  using assms pseudo_sum_blit [of i ys "field q (hdr_len q) n"]
  by (simp add: tcp4_total_def tcp4_valid_def blit_simps field_blit_in field_field)

lemma tcp4_total_addr:
  assumes "tcp4_valid n q" "length ys = 4" "i = 12 \<or> i = 16"
  shows "tcp4_total n (blit q i ys) + wsum (field q i 4) = tcp4_total n q + wsum ys"
  using assms by (auto simp: tcp4_total_def tcp4_valid_def blit_simps pseudo_sum_def)

lemma tcp6_total_seg:
  assumes "tcp6_valid n q" "even i" "even (length ys)" "i + length ys \<le> n"
  shows "tcp6_total n (blit q (40 + i) ys) + wsum (field q (40 + i) (length ys))
     = tcp6_total n q + wsum ys"
  using assms pseudo_sum_blit [of i ys "field q 40 n"]
  by (simp add: tcp6_total_def tcp6_valid_def blit_simps field_blit_in field_field)

lemma tcp6_total_addr:
  assumes "tcp6_valid n q" "length ys = 16" "i = 8 \<or> i = 24"
  shows "tcp6_total n (blit q i ys) + wsum (field q i 16) = tcp6_total n q + wsum ys"
  using assms by (auto simp: tcp6_total_def tcp6_valid_def blit_simps pseudo_sum_def)

lemma hdr_wsum_pos: "20 \<le> hdr_len q \<Longrightarrow> hdr_len q \<le> length q \<Longrightarrow> 0 < wsum (take (hdr_len q) q)"
proof -
  assume h: "20 \<le> hdr_len q" "hdr_len q \<le> length q"
  obtain a b r where q: "q = a # b # r"
    using h by (cases q rule: wsum.cases) auto
  have "unat a \<noteq> 0"
  proof
    assume "unat a = 0"
    then have "a = 0" by (simp add: unat_eq_0)
    with h q show False by (simp add: hdr_len_def)
  qed
  moreover have "hdr_len q = Suc (Suc (hdr_len q - 2))"
    using h(1) by simp
  then obtain k where "hdr_len q = Suc (Suc k)"
    by blast
  ultimately show ?thesis
    using q by (simp add: unat_be16)
qed

interpretation ip4: csum_region ip4_valid ip4_total "\<lambda>_. 10"
proof
  fix q a b
  assume v: "ip4_valid q"
  then show "ip4_total (blit q 10 [a, b]) + unat (stored_csum (\<lambda>_. 10) q) = ip4_total q + unat (be16 a b)"
    using ip4_total_blit [of q 10 "[a, b]"] by (simp add: ip4_valid_def stored_csum_def wsum_field2)
  show "0 < csum_rest ip4_total (\<lambda>_. 10) q"
    using v hdr_wsum_pos [of "blit q 10 [0, 0]"]
    by (simp add: csum_rest_def ip4_total_def ip4_valid_def blit_simps)
qed

interpretation tcp4: csum_region "tcp4_valid n" "tcp4_total n" "\<lambda>q. hdr_len q + 16" for n
proof
  fix q a b
  assume v: "tcp4_valid n q"
  then show "tcp4_total n (blit q (hdr_len q + 16) [a, b]) + unat (stored_csum (\<lambda>q. hdr_len q + 16) q)
      = tcp4_total n q + unat (be16 a b)"
    using tcp4_total_seg [of n q 16 "[a, b]"] by (simp add: tcp4_valid_def stored_csum_def wsum_field2)
  show "0 < csum_rest (tcp4_total n) (\<lambda>q. hdr_len q + 16) q"
    by (simp add: csum_rest_def tcp4_total_def pseudo_sum_def)
qed

interpretation tcp6: csum_region "tcp6_valid n" "tcp6_total n" "\<lambda>q. 56" for n
proof
  fix q a b
  assume v: "tcp6_valid n q"
  then show "tcp6_total n (blit q 56 [a, b]) + unat (stored_csum (\<lambda>q. 56) q)
      = tcp6_total n q + unat (be16 a b)"
    using tcp6_total_seg [of n q 16 "[a, b]"] by (simp add: tcp6_valid_def stored_csum_def wsum_field2)
  show "0 < csum_rest (tcp6_total n) (\<lambda>q. 56) q"
    by (simp add: csum_rest_def tcp6_total_def pseudo_sum_def)
qed

section \<open>The steps of a rewrite\<close>

abbreviation ip4_accepts :: "byte list \<Rightarrow> uint16 \<Rightarrow> bool" where
  "ip4_accepts q c \<equiv> csum_ok (csum_rest ip4_total (\<lambda>_. 10) q) c"

abbreviation tcp4_accepts :: "nat \<Rightarrow> byte list \<Rightarrow> uint16 \<Rightarrow> bool" where
  "tcp4_accepts n q c \<equiv> csum_ok (csum_rest (tcp4_total n) (\<lambda>q. hdr_len q + 16) q) c"

abbreviation tcp6_accepts :: "nat \<Rightarrow> byte list \<Rightarrow> uint16 \<Rightarrow> bool" where
  "tcp6_accepts n q c \<equiv> csum_ok (csum_rest (tcp6_total n) (\<lambda>_. 56) q) c"

lemma length_new_addr4 [simp]: "length old = 4 \<Longrightarrow> length (new_addr To4 ip old) = 4"
  by (auto simp: new_addr_def dest: length_To4 split: option.splits)

lemma length_new_addr6 [simp]: "length old = 16 \<Longrightarrow> length (new_addr To16 ip old) = 16"
  by (auto simp: new_addr_def dest: length_To16 split: option.splits)

lemma tcp4_valid_blit [intro]:
  "tcp4_valid n q \<Longrightarrow> 0 < i \<Longrightarrow> i + length ys \<le> length q \<Longrightarrow> tcp4_valid n (blit q i ys)"
  by (simp add: tcp4_valid_def hdr_len_blit)

lemma tcp6_valid_blit [intro]:
  "tcp6_valid n q \<Longrightarrow> i + length ys \<le> length q \<Longrightarrow> tcp6_valid n (blit q i ys)"
  by (simp add: tcp6_valid_def)

lemma tcp4_ip4_valid: "tcp4_valid n q \<Longrightarrow> ip4_valid q"
  by (simp add: tcp4_valid_def ip4_valid_def)

lemma be32_field:
  "i + 4 \<le> length q \<Longrightarrow> field q i 4 = [q ! i, q ! (i + 1), q ! (i + 2), q ! (i + 3)]"
  using four_bytes [of "field q i 4"] by (simp add: nth_field)

lemma be32_inject: "be32 a b c d = be32 a' b' c' d' \<longleftrightarrow> [a, b, c, d] = [a', b', c', d']"
  by (auto dest: arg_cong [of _ _ bytes32])

lemma rewrite_addr4_step:
  assumes v: "tcp4_valid n q" and lo: "lo = 12 \<or> lo = 16"
  shows "\<exists>ic' tc'. rewrite_addr4 lo ip (q, ic, tc)
        = Some (blit q lo (new_addr To4 ip (field q lo 4)), ic', tc')
      \<and> (ip4_accepts q ic \<longrightarrow> ip4_accepts (blit q lo (new_addr To4 ip (field q lo 4))) ic')
      \<and> (tcp4_accepts n q tc \<longrightarrow> tcp4_accepts n (blit q lo (new_addr To4 ip (field q lo 4))) tc')"
proof (cases "To4 ip")
  case None
  then show ?thesis
    using v lo by (auto simp: rewrite_addr4_def new_addr_def tcp4_valid_def)
next
  case (Some a)
  then obtain a0 a1 a2 a3 where a: "a = [a0, a1, a2, a3]"
    using four_bytes [OF length_To4 [OF Some]] by blast
  have l: "lo + 4 \<le> length q" "ip \<noteq> []"
    using v lo Some by (auto simp: tcp4_valid_def)
  let ?q = "blit q lo a" and ?old = "be32 (q ! lo) (q ! (lo + 1)) (q ! (lo + 2)) (q ! (lo + 3))"
  have v': "tcp4_valid n ?q" and st: "stored_csum (\<lambda>_. 10) ?q = stored_csum (\<lambda>_. 10) q"
    "stored_csum (\<lambda>q. hdr_len q + 16) ?q = stored_csum (\<lambda>q. hdr_len q + 16) q"
    using v lo l by (auto simp: a stored_csum_def nth_blit hdr_len_blit tcp4_valid_def)
  have ip: "ip4_total ?q + wsum (field q lo 4) = ip4_total q + wsum a"
    using ip4_total_blit [of q lo a] tcp4_ip4_valid [OF v] lo v length_To4 [OF Some]
    by (auto simp: tcp4_valid_def)
  have tcp: "tcp4_total n ?q + wsum (field q lo 4) = tcp4_total n q + wsum a"
    using tcp4_total_addr [OF v, of a lo] lo by (simp add: a)
  show ?thesis
  proof (cases "?old = be32 a0 a1 a2 a3")
    case True
    then have "a = field q lo 4"
      by (simp only: be32_inject a be32_field [OF l(1)])
    then have "blit q lo a = q"
      using l(1) by simp
    with True Some l show ?thesis
      by (simp add: rewrite_addr4_def new_addr_def go_simps Uint32_def a)
  next
    case False
    then have "rewrite_addr4 lo ip (q, ic, tc)
        = Some (?q, UpdateChecksum32 ic ?old (be32 a0 a1 a2 a3), UpdateChecksum32 tc ?old (be32 a0 a1 a2 a3))"
      using Some l by (simp add: rewrite_addr4_def go_simps Uint32_def a)
    moreover have "ip4_accepts ?q (UpdateChecksum32 ic ?old (be32 a0 a1 a2 a3))" if "ip4_accepts q ic"
      by (rule ip4.step32 [OF that tcp4_ip4_valid [OF v] tcp4_ip4_valid [OF v'] st(1)])
        (use ip l in \<open>simp only: a be32_field\<close>)
    moreover have "tcp4_accepts n ?q (UpdateChecksum32 tc ?old (be32 a0 a1 a2 a3))"
      if "tcp4_accepts n q tc"
      by (rule tcp4.step32 [OF that v v' st(2)]) (use tcp l in \<open>simp only: a be32_field\<close>)
    ultimately show ?thesis
      using Some by (simp add: new_addr_def)
  qed
qed

lemma tcp4_port_step:
  assumes v: "tcp4_valid n q" and lo: "lo = hdr_len q \<or> lo = hdr_len q + 2"
  shows "\<exists>c'. rewrite_port lo p (q, c)
        = Some (blit q lo (port_bytes (new_port p (be16 (q ! lo) (q ! (lo + 1))))), c')
      \<and> (tcp4_accepts n q c \<longrightarrow>
         tcp4_accepts n (blit q lo (port_bytes (new_port p (be16 (q ! lo) (q ! (lo + 1)))))) c')"
proof (rule tcp4.port_step [OF _ v])
  show l: "lo + 2 \<le> length q"
    using v lo by (auto simp: tcp4_valid_def)
  fix ys :: "byte list"
  assume ys: "length ys = 2"
  have h: "0 < lo" "20 \<le> hdr_len q"
    using v lo by (auto simp: tcp4_valid_def)
  have "tcp4_total n (blit q lo ys) + wsum (field q lo 2) = tcp4_total n q + wsum ys"
    using tcp4_total_seg [OF v, of 0 ys] tcp4_total_seg [OF v, of 2 ys] lo ys v
    by (auto simp: tcp4_valid_def)
  moreover have "stored_csum (\<lambda>q. hdr_len q + 16) (blit q lo ys) = stored_csum (\<lambda>q. hdr_len q + 16) q"
    using v lo l h ys by (auto simp: stored_csum_def hdr_len_blit nth_blit tcp4_valid_def)
  ultimately show "tcp4_valid n (blit q lo ys)
      \<and> stored_csum (\<lambda>q. hdr_len q + 16) (blit q lo ys) = stored_csum (\<lambda>q. hdr_len q + 16) q
      \<and> tcp4_total n (blit q lo ys) + wsum (field q lo 2) = tcp4_total n q + wsum ys"
    using v l h ys by auto
qed

lemma tcp6_port_step:
  assumes v: "tcp6_valid n q" and lo: "lo = 40 \<or> lo = 42"
  shows "\<exists>c'. rewrite_port lo p (q, c)
        = Some (blit q lo (port_bytes (new_port p (be16 (q ! lo) (q ! (lo + 1))))), c')
      \<and> (tcp6_accepts n q c \<longrightarrow>
         tcp6_accepts n (blit q lo (port_bytes (new_port p (be16 (q ! lo) (q ! (lo + 1)))))) c')"
proof (rule tcp6.port_step [OF _ v])
  show l: "lo + 2 \<le> length q"
    using v lo by (auto simp: tcp6_valid_def)
  fix ys :: "byte list"
  assume ys: "length ys = 2"
  have "tcp6_total n (blit q lo ys) + wsum (field q lo 2) = tcp6_total n q + wsum ys"
    using tcp6_total_seg [OF v, of 0 ys] tcp6_total_seg [OF v, of 2 ys] lo ys v
    by (auto simp: tcp6_valid_def)
  moreover have "stored_csum (\<lambda>_. 56) (blit q lo ys) = stored_csum (\<lambda>_. 56) q"
    using v lo l ys by (auto simp: stored_csum_def nth_blit tcp6_valid_def)
  ultimately show "tcp6_valid n (blit q lo ys)
      \<and> stored_csum (\<lambda>_. 56) (blit q lo ys) = stored_csum (\<lambda>_. 56) q
      \<and> tcp6_total n (blit q lo ys) + wsum (field q lo 2) = tcp6_total n q + wsum ys"
    using v l ys by auto
qed

lemma tcp6_addr_step:
  assumes v: "tcp6_valid n q" and lo: "lo = 8 \<or> lo = 24"
  shows "\<exists>c'. rewrite_addr6 lo ip (q, c) = Some (blit q lo (new_addr To16 ip (field q lo 16)), c')
      \<and> (tcp6_accepts n q c \<longrightarrow> tcp6_accepts n (blit q lo (new_addr To16 ip (field q lo 16))) c')"
proof (rule tcp6.addr6_step [OF _ v])
  show l: "lo + 16 \<le> length q"
    using v lo by (auto simp: tcp6_valid_def)
  fix ys :: "byte list"
  assume ys: "length ys = 16"
  moreover have "stored_csum (\<lambda>_. 56) (blit q lo ys) = stored_csum (\<lambda>_. 56) q"
    using v lo l ys by (auto simp: stored_csum_def nth_blit tcp6_valid_def)
  ultimately show "tcp6_valid n (blit q lo ys)
      \<and> stored_csum (\<lambda>_. 56) (blit q lo ys) = stored_csum (\<lambda>_. 56) q
      \<and> tcp6_total n (blit q lo ys) + wsum (field q lo 16) = tcp6_total n q + wsum ys"
    using v l tcp6_total_addr [OF v ys lo] by auto
qed

lemma ip4_total_beyond:
  "ip4_valid q \<Longrightarrow> hdr_len q \<le> i \<Longrightarrow> i + length ys \<le> length q \<Longrightarrow> ip4_total (blit q i ys) = ip4_total q"
  by (simp add: ip4_total_def ip4_valid_def hdr_len_blit) (simp add: blit_def)

lemma ip4_rest_beyond:
  assumes "ip4_valid q" "hdr_len q \<le> i" "i + length ys \<le> length q"
  shows "csum_rest ip4_total (\<lambda>_. 10) (blit q i ys) = csum_rest ip4_total (\<lambda>_. 10) q"
proof -
  have "take (hdr_len q) (blit q i ys) = take (hdr_len q) q"
    using assms by (simp add: blit_def)
  with assms show ?thesis
    by (simp add: csum_rest_def ip4_total_def ip4_valid_def hdr_len_blit take_blit)
qed

lemma tcp4_rest_csum:
  assumes "tcp4_valid n q"
  shows "csum_rest (tcp4_total n) (\<lambda>q. hdr_len q + 16) (blit q 10 (port_bytes c))
    = csum_rest (tcp4_total n) (\<lambda>q. hdr_len q + 16) q"
  using assms
  by (simp add: csum_rest_def tcp4_total_def tcp4_valid_def blit_simps field_blit_in)

lemma be16_field: "i + 2 \<le> length q \<Longrightarrow> field q i 2 = port_bytes w \<Longrightarrow> be16 (q ! i) (q ! (i + 1)) = w"
  by (simp add: two_bytes_field)

text \<open>The packet with the four writes made, before the checksums are stored.\<close>

definition rewritten4 :: "byte list \<Rightarrow> netIP \<Rightarrow> netIP \<Rightarrow> uint16 \<Rightarrow> uint16 \<Rightarrow> byte list" where
  "rewritten4 p s d sp dp =
     (let h = hdr_len p;
          p1 = blit p 12 (new_addr To4 s (field p 12 4));
          p2 = blit p1 16 (new_addr To4 d (field p 16 4));
          p3 = blit p2 h (port_bytes (new_port sp (be16 (p ! h) (p ! (h + 1)))))
      in blit p3 (h + 2) (port_bytes (new_port dp (be16 (p ! (h + 2)) (p ! (h + 2 + 1))))))"

lemma rewrite4_steps:
  assumes v: "tcp4_valid n p"
  obtains st1 q ic tc2 st3 tc where
    "rewrite_addr4 12 s (p, c1, c2) = Some st1" "rewrite_addr4 16 d st1 = Some (q, ic, tc2)"
    "rewrite_port (hdr_len p) sp (q, tc2) = Some st3"
    "rewrite_port (hdr_len p + 2) dp st3 = Some (rewritten4 p s d sp dp, tc)"
    "tcp4_valid n (rewritten4 p s d sp dp)"
    "ip4_accepts p c1 \<longrightarrow> ip4_accepts (rewritten4 p s d sp dp) ic"
    "tcp4_accepts n p c2 \<longrightarrow> tcp4_accepts n (rewritten4 p s d sp dp) tc"
proof -
  let ?h = "hdr_len p"
  have len: "20 \<le> ?h" "?h + 20 \<le> length p"
    using v by (auto simp: tcp4_valid_def)
  define p1 where "p1 = blit p 12 (new_addr To4 s (field p 12 4))"
  have l1: "length p1 = length p" "hdr_len p1 = ?h" and v1: "tcp4_valid n p1"
    using len v by (auto simp: p1_def hdr_len_blit)
  define p2 where "p2 = blit p1 16 (new_addr To4 d (field p1 16 4))"
  have l2: "length p2 = length p" "hdr_len p2 = ?h" and v2: "tcp4_valid n p2"
    using len v1 l1 by (auto simp: p2_def hdr_len_blit)
  define p3 where "p3 = blit p2 ?h (port_bytes (new_port sp (be16 (p2 ! ?h) (p2 ! (?h + 1)))))"
  have l3: "length p3 = length p" "hdr_len p3 = ?h" and v3: "tcp4_valid n p3"
    using len v2 l2 by (auto simp: p3_def hdr_len_blit)
  define p4 where "p4 = blit p3 (?h + 2) (port_bytes (new_port dp (be16 (p3 ! (?h + 2)) (p3 ! (?h + 2 + 1)))))"
  have p4: "p4 = rewritten4 p s d sp dp"
    using len by (simp add: p4_def p3_def p2_def p1_def rewritten4_def Let_def blit_simps nth_blit add.assoc)
  obtain ic1 tc1 where s1: "rewrite_addr4 12 s (p, c1, c2) = Some (p1, ic1, tc1)"
    and a1: "ip4_accepts p c1 \<longrightarrow> ip4_accepts p1 ic1" "tcp4_accepts n p c2 \<longrightarrow> tcp4_accepts n p1 tc1"
    using rewrite_addr4_step [OF v, of 12 s c1 c2] by (auto simp: p1_def)
  obtain ic2 tc2 where s2: "rewrite_addr4 16 d (p1, ic1, tc1) = Some (p2, ic2, tc2)"
    and a2: "ip4_accepts p1 ic1 \<longrightarrow> ip4_accepts p2 ic2" "tcp4_accepts n p1 tc1 \<longrightarrow> tcp4_accepts n p2 tc2"
    using rewrite_addr4_step [OF v1, of 16 d ic1 tc1] by (auto simp: p2_def)
  obtain tc3 where s3: "rewrite_port ?h sp (p2, tc2) = Some (p3, tc3)"
    and a3: "tcp4_accepts n p2 tc2 \<longrightarrow> tcp4_accepts n p3 tc3"
    using tcp4_port_step [OF v2, of ?h sp tc2] l2 by (auto simp: p3_def)
  obtain tc4 where s4: "rewrite_port (?h + 2) dp (p3, tc3) = Some (p4, tc4)"
    and a4: "tcp4_accepts n p3 tc3 \<longrightarrow> tcp4_accepts n p4 tc4"
    unfolding p4_def using tcp4_port_step [OF v3, of "?h + 2" dp tc3] l3 by auto
  have "ip4_accepts p4 ic2 = ip4_accepts p2 ic2"
    using v2 v3 len l2 l3 by (simp add: p4_def p3_def ip4_rest_beyond tcp4_ip4_valid)
  moreover have "tcp4_valid n p4"
    using v3 l3 len by (auto simp: p4_def)
  ultimately show thesis
    using that [OF s1 s2 s3] s4 a1 a2 a3 a4 unfolding p4 by blast
qed

lemma rewritten4_fields:
  fixes p s d :: "byte list" and sp dp :: uint16
  assumes "tcp4_valid n p"
  defines "q \<equiv> rewritten4 p s d sp dp" and "h \<equiv> hdr_len p"
  shows "length q = length p" "hdr_len q = h"
    "field q 12 4 = new_addr To4 s (field p 12 4)" "field q 16 4 = new_addr To4 d (field p 16 4)"
    "field q h 2 = port_bytes (new_port sp (be16 (p ! h) (p ! (h + 1))))"
    "field q (h + 2) 2 = port_bytes (new_port dp (be16 (p ! (h + 2)) (p ! (h + 2 + 1))))"
    "i < length p \<Longrightarrow> i \<notin> {12..<20} \<union> {h..<h + 4} \<Longrightarrow> q ! i = p ! i"
  using assms(1) by (auto simp: q_def h_def tcp4_valid_def rewritten4_def Let_def blit_simps nth_blit)

lemma rewrite4_ok:
  assumes v: "tcp4_valid n p"
  shows "\<exists>p'. RewriteIPv4TCP p srcIP dstIP srcPort dstPort = Some (Inr p') \<and> length p' = length p
     \<and> field p' 12 4 = new_addr To4 srcIP (field p 12 4)
     \<and> field p' 16 4 = new_addr To4 dstIP (field p 16 4)
     \<and> field p' (hdr_len p) 2
         = port_bytes (new_port srcPort (be16 (p ! hdr_len p) (p ! (hdr_len p + 1))))
     \<and> field p' (hdr_len p + 2) 2
         = port_bytes (new_port dstPort (be16 (p ! (hdr_len p + 2)) (p ! (hdr_len p + 2 + 1))))
     \<and> (\<forall>i < length p. i \<notin> {10..<20} \<union> {hdr_len p..<hdr_len p + 4} \<union> {hdr_len p + 16..<hdr_len p + 18}
           \<longrightarrow> p' ! i = p ! i)
     \<and> (fold16 (ip4_total p) = 65535 \<longrightarrow> fold16 (ip4_total p') = 65535)
     \<and> (fold16 (tcp4_total n p) = 65535 \<longrightarrow> fold16 (tcp4_total n p') = 65535)"
proof -
  let ?h = "hdr_len p" and ?q = "rewritten4 p srcIP dstIP srcPort dstPort"
  let ?c1 = "stored_csum (\<lambda>_. 10) p" and ?c2 = "stored_csum (\<lambda>q. hdr_len q + 16) p"
  note f = rewritten4_fields [OF v, where s = srcIP and d = dstIP and sp = srcPort and dp = dstPort]
  have len: "20 \<le> ?h" "?h + 20 \<le> length p" "p \<noteq> []" "\<not> length p < 40"
    using v by (auto simp: tcp4_valid_def)
  obtain st1 q ic tc2 st3 tc where run:
    "rewrite_addr4 12 srcIP (p, ?c1, ?c2) = Some st1" "rewrite_addr4 16 dstIP st1 = Some (q, ic, tc2)"
    "rewrite_port ?h srcPort (q, tc2) = Some st3" "rewrite_port (?h + 2) dstPort st3 = Some (?q, tc)"
    and vq: "tcp4_valid n ?q"
    and ok: "ip4_accepts p ?c1 \<longrightarrow> ip4_accepts ?q ic" "tcp4_accepts n p ?c2 \<longrightarrow> tcp4_accepts n ?q tc"
    using rewrite4_steps [OF v] by metis
  define q5 where "q5 = blit ?q 10 (port_bytes ic)"
  define q6 where "q6 = blit q5 (?h + 16) (port_bytes tc)"
  have l5: "length q5 = length p" "hdr_len q5 = ?h" and v5: "tcp4_valid n q5"
    using f len vq by (auto simp: q5_def hdr_len_blit)
  have "RewriteIPv4TCP p srcIP dstIP srcPort dstPort = Some (Inr q6)"
    using run len f l5
    by (simp add: RewriteIPv4TCP_def go_simps hdr_len_def [symmetric] Let_def stored_csum_def q5_def q6_def add.assoc)
  moreover have "fold16 (ip4_total q6) = 65535" if "fold16 (ip4_total p) = 65535"
  proof -
    have "fold16 (ip4_total q5) = 65535"
      using that ok(1) ip4.load ip4.store v vq unfolding q5_def by (blast intro: tcp4_ip4_valid)
    then show ?thesis
      using v5 l5 len by (simp add: q6_def ip4_total_beyond tcp4_ip4_valid)
  qed
  moreover have "fold16 (tcp4_total n q6) = 65535" if "fold16 (tcp4_total n p) = 65535"
  proof -
    have "tcp4_accepts n q5 tc"
      using that ok(2) tcp4.load [OF v] by (simp add: q5_def tcp4_rest_csum [OF vq])
    from tcp4.store [OF v5 this] show ?thesis
      by (simp add: q6_def l5)
  qed
  moreover have "length q6 = length p" "field q6 12 4 = field ?q 12 4" "field q6 16 4 = field ?q 16 4"
    "field q6 ?h 2 = field ?q ?h 2" "field q6 (?h + 2) 2 = field ?q (?h + 2) 2"
    "\<And>i. i < length p \<Longrightarrow> i \<notin> {10..<20} \<union> {?h..<?h + 4} \<union> {?h + 16..<?h + 18} \<Longrightarrow> q6 ! i = ?q ! i"
    using len f l5 by (auto simp: q6_def q5_def blit_simps nth_blit)
  ultimately show ?thesis
    using f by (intro exI [of _ q6]) auto
qed

text \<open>
  C3: on every IPv4 TCP packet whose headers fit, \<open>RewriteIPv4TCP\<close> succeeds, replaces
  exactly the addresses and ports it is asked to replace (a nil or non-IPv4 address or a zero
  port keeps the old one), changes no other byte than these and the two checksums, and keeps
  both checksums acceptable to a receiver, for every length \<open>n\<close> the TCP segment may have.
\<close>

theorem RewriteIPv4TCP_correct:
  assumes v: "tcp4_valid n p"
  shows "\<exists>p'. RewriteIPv4TCP p srcIP dstIP srcPort dstPort = Some (Inr p') \<and> length p' = length p
     \<and> field p' 12 4 = new_addr To4 srcIP (field p 12 4)
     \<and> field p' 16 4 = new_addr To4 dstIP (field p 16 4)
     \<and> field p' (hdr_len p) 2
         = port_bytes (new_port srcPort (be16 (p ! hdr_len p) (p ! (hdr_len p + 1))))
     \<and> field p' (hdr_len p + 2) 2
         = port_bytes (new_port dstPort (be16 (p ! (hdr_len p + 2)) (p ! (hdr_len p + 2 + 1))))
     \<and> (\<forall>i < length p. i \<notin> {10..<20} \<union> {hdr_len p..<hdr_len p + 4} \<union> {hdr_len p + 16..<hdr_len p + 18}
           \<longrightarrow> p' ! i = p ! i)
     \<and> (fold16 (ip4_total p) = 65535 \<longrightarrow> fold16 (ip4_total p') = 65535)
     \<and> (fold16 (tcp4_total n p) = 65535 \<longrightarrow> fold16 (tcp4_total n p') = 65535)"
  by (rule rewrite4_ok [OF assms])


theorem RewriteIPv4TCP_correct_witness:
  "\<exists>p'. RewriteIPv4TCP syn_sample [] [127, 0, 0, 1] 0 8080 = Some (Inr p')
     \<and> field p' 12 4 = [10, 0, 0, 1] \<and> field p' 16 4 = [127, 0, 0, 1]
     \<and> field p' 20 2 = [0x1f, 0x90] \<and> field p' (20 + 2) 2 = [0x1f, 0x90]
     \<and> fold16 (ip4_total p') = 65535 \<and> fold16 (tcp4_total 20 p') = 65535"
proof -
  have v: "tcp4_valid 20 syn_sample" and eqs: "hdr_len syn_sample = 20"
    "new_addr To4 [] (field syn_sample 12 4) = [10, 0, 0, 1]"
    "new_addr To4 [127, 0, 0, 1] (field syn_sample 16 4) = [127, 0, 0, 1]"
    "port_bytes (new_port 0 (be16 (syn_sample ! 20) (syn_sample ! (20 + 1)))) = [0x1f, 0x90]"
    "port_bytes (new_port 8080 (be16 (syn_sample ! (20 + 2)) (syn_sample ! (20 + 2 + 1)))) = [0x1f, 0x90]"
    by code_simp+
  moreover have "fold16 (ip4_total syn_sample) = 65535" "fold16 (tcp4_total 20 syn_sample) = 65535"
    by (simp_all add: fold16_def ip4_total_def tcp4_total_def pseudo_sum_def field_def syn_sample_def
        hdr_len_def unat_be16)
  ultimately show ?thesis
    using RewriteIPv4TCP_correct [OF v, of "[]" "[127, 0, 0, 1]" 0 8080] unfolding eqs by blast
qed

text \<open>The same for IPv6, where there is no header checksum.\<close>

definition rewritten6 :: "byte list \<Rightarrow> netIP \<Rightarrow> netIP \<Rightarrow> uint16 \<Rightarrow> uint16 \<Rightarrow> byte list" where
  "rewritten6 p s d sp dp =
     (let p1 = blit p 8 (new_addr To16 s (field p 8 16));
          p2 = blit p1 24 (new_addr To16 d (field p 24 16));
          p3 = blit p2 40 (port_bytes (new_port sp (be16 (p ! 40) (p ! 41))))
      in blit p3 42 (port_bytes (new_port dp (be16 (p ! 42) (p ! 43)))))"

lemma rewrite6_steps:
  assumes v: "tcp6_valid n p"
  obtains st1 st2 st3 tc where
    "rewrite_addr6 8 s (p, c) = Some st1" "rewrite_addr6 24 d st1 = Some st2"
    "rewrite_port 40 sp st2 = Some st3" "rewrite_port 42 dp st3 = Some (rewritten6 p s d sp dp, tc)"
    "tcp6_valid n (rewritten6 p s d sp dp)"
    "tcp6_accepts n p c \<longrightarrow> tcp6_accepts n (rewritten6 p s d sp dp) tc"
proof -
  have len: "60 \<le> length p"
    using v by (auto simp: tcp6_valid_def)
  define p1 where "p1 = blit p 8 (new_addr To16 s (field p 8 16))"
  have l1: "length p1 = length p" and v1: "tcp6_valid n p1"
    using len v by (auto simp: p1_def)
  define p2 where "p2 = blit p1 24 (new_addr To16 d (field p1 24 16))"
  have l2: "length p2 = length p" and v2: "tcp6_valid n p2"
    using len v1 l1 by (auto simp: p2_def)
  define p3 where "p3 = blit p2 40 (port_bytes (new_port sp (be16 (p2 ! 40) (p2 ! (40 + 1)))))"
  have l3: "length p3 = length p" and v3: "tcp6_valid n p3"
    using len v2 l2 by (auto simp: p3_def)
  define p4 where "p4 = blit p3 42 (port_bytes (new_port dp (be16 (p3 ! 42) (p3 ! (42 + 1)))))"
  have v4: "tcp6_valid n p4"
    using len v3 l3 by (auto simp: p4_def)
  have p4: "p4 = rewritten6 p s d sp dp"
    using len by (simp add: p4_def p3_def p2_def p1_def rewritten6_def Let_def blit_simps nth_blit)
  obtain tc1 where s1: "rewrite_addr6 8 s (p, c) = Some (p1, tc1)"
    and a1: "tcp6_accepts n p c \<longrightarrow> tcp6_accepts n p1 tc1"
    using tcp6_addr_step [OF v, of 8 s c] by (auto simp: p1_def)
  obtain tc2 where s2: "rewrite_addr6 24 d (p1, tc1) = Some (p2, tc2)"
    and a2: "tcp6_accepts n p1 tc1 \<longrightarrow> tcp6_accepts n p2 tc2"
    using tcp6_addr_step [OF v1, of 24 d tc1] by (auto simp: p2_def)
  obtain tc3 where s3: "rewrite_port 40 sp (p2, tc2) = Some (p3, tc3)"
    and a3: "tcp6_accepts n p2 tc2 \<longrightarrow> tcp6_accepts n p3 tc3"
    using tcp6_port_step [OF v2, of 40 sp tc2] by (auto simp: p3_def)
  obtain tc4 where s4: "rewrite_port 42 dp (p3, tc3) = Some (p4, tc4)"
    and a4: "tcp6_accepts n p3 tc3 \<longrightarrow> tcp6_accepts n p4 tc4"
    using tcp6_port_step [OF v3, of 42 dp tc3] by (auto simp: p4_def)
  show thesis
    using that [OF s1 s2 s3] s4 v4 a1 a2 a3 a4 unfolding p4 by blast
qed

lemma rewritten6_fields:
  fixes p s d :: "byte list" and sp dp :: uint16
  assumes "tcp6_valid n p"
  defines "q \<equiv> rewritten6 p s d sp dp"
  shows "length q = length p"
    "field q 8 16 = new_addr To16 s (field p 8 16)" "field q 24 16 = new_addr To16 d (field p 24 16)"
    "field q 40 2 = port_bytes (new_port sp (be16 (p ! 40) (p ! 41)))"
    "field q 42 2 = port_bytes (new_port dp (be16 (p ! 42) (p ! 43)))"
    "i < length p \<Longrightarrow> i \<notin> {8..<44} \<Longrightarrow> q ! i = p ! i"
  using assms(1) by (auto simp: q_def tcp6_valid_def rewritten6_def Let_def blit_simps nth_blit)

lemma rewrite6_ok:
  assumes v: "tcp6_valid n p" and ver: "drop_bit 4 (p ! 0) = 6"
  shows "\<exists>p'. RewriteIPv6TCP p srcIP dstIP srcPort dstPort = Some (Inr p') \<and> length p' = length p
     \<and> field p' 8 16 = new_addr To16 srcIP (field p 8 16)
     \<and> field p' 24 16 = new_addr To16 dstIP (field p 24 16)
     \<and> field p' 40 2 = port_bytes (new_port srcPort (be16 (p ! 40) (p ! 41)))
     \<and> field p' 42 2 = port_bytes (new_port dstPort (be16 (p ! 42) (p ! 43)))
     \<and> (\<forall>i < length p. i \<notin> {8..<44} \<union> {56, 57} \<longrightarrow> p' ! i = p ! i)
     \<and> (fold16 (tcp6_total n p) = 65535 \<longrightarrow> fold16 (tcp6_total n p') = 65535)"
proof -
  let ?q = "rewritten6 p srcIP dstIP srcPort dstPort" and ?c = "stored_csum (\<lambda>_. 56) p"
  note f = rewritten6_fields [OF v, where s = srcIP and d = dstIP and sp = srcPort and dp = dstPort]
  have len: "\<not> length p < 60" "p \<noteq> []"
    using v by (auto simp: tcp6_valid_def)
  obtain st1 st2 st3 tc where run:
    "rewrite_addr6 8 srcIP (p, ?c) = Some st1" "rewrite_addr6 24 dstIP st1 = Some st2"
    "rewrite_port 40 srcPort st2 = Some st3" "rewrite_port 42 dstPort st3 = Some (?q, tc)"
    and vq: "tcp6_valid n ?q" and ok: "tcp6_accepts n p ?c \<longrightarrow> tcp6_accepts n ?q tc"
    using rewrite6_steps [OF v] by metis
  define q' where "q' = blit ?q 56 (port_bytes tc)"
  have "RewriteIPv6TCP p srcIP dstIP srcPort dstPort = Some (Inr q')"
    using run len f ver by (simp add: RewriteIPv6TCP_def go_simps Let_def stored_csum_def q'_def)
  moreover have "fold16 (tcp6_total n q') = 65535" if "fold16 (tcp6_total n p) = 65535"
    using that ok tcp6.load [OF v] tcp6.store [OF vq] by (simp add: q'_def)
  moreover have "length q' = length p" "field q' 8 16 = field ?q 8 16" "field q' 24 16 = field ?q 24 16"
    "field q' 40 2 = field ?q 40 2" "field q' 42 2 = field ?q 42 2"
    "\<And>i. i < length p \<Longrightarrow> i \<notin> {8..<44} \<union> {56, 57} \<Longrightarrow> q' ! i = ?q ! i"
    using len f by (auto simp: q'_def blit_simps nth_blit)
  ultimately show ?thesis
    using f by (intro exI [of _ q']) auto
qed

text \<open>
  C4: the same for \<open>RewriteIPv6TCP\<close> on every IPv6 packet with a TCP header behind its fixed
  header: it succeeds, replaces what it is asked to replace, changes nothing else but the TCP
  checksum, and keeps that checksum acceptable to a receiver.
\<close>

theorem RewriteIPv6TCP_correct:
  assumes v: "tcp6_valid n p" and ver: "drop_bit 4 (p ! 0) = 6"
  shows "\<exists>p'. RewriteIPv6TCP p srcIP dstIP srcPort dstPort = Some (Inr p') \<and> length p' = length p
     \<and> field p' 8 16 = new_addr To16 srcIP (field p 8 16)
     \<and> field p' 24 16 = new_addr To16 dstIP (field p 24 16)
     \<and> field p' 40 2 = port_bytes (new_port srcPort (be16 (p ! 40) (p ! 41)))
     \<and> field p' 42 2 = port_bytes (new_port dstPort (be16 (p ! 42) (p ! 43)))
     \<and> (\<forall>i < length p. i \<notin> {8..<44} \<union> {56, 57} \<longrightarrow> p' ! i = p ! i)
     \<and> (fold16 (tcp6_total n p) = 65535 \<longrightarrow> fold16 (tcp6_total n p') = 65535)"
  by (rule rewrite6_ok [OF assms])

definition syn6_sample :: "byte list" where
  "syn6_sample = [0x60, 0, 0, 0, 0, 20, 6, 64,
     0x20, 1, 0xd, 0xb8, 0, 0, 0, 0, 0, 0, 0, 0, 0, 0, 0, 1,
     0x20, 1, 0xd, 0xb8, 0, 0, 0, 0, 0, 0, 0, 0, 0, 0, 0, 2,
     0x1f, 0x90, 1, 0xbb, 0, 0, 0, 1, 0, 0, 0, 0, 0x50, 2, 0xff, 0xff, 0x33, 0x22, 0, 0]"

theorem RewriteIPv6TCP_correct_witness:
  "\<exists>p'. RewriteIPv6TCP syn6_sample [] IPv6loopback 0 8080 = Some (Inr p')
     \<and> field p' 24 16 = IPv6loopback \<and> field p' 42 2 = [0x1f, 0x90]
     \<and> fold16 (tcp6_total 20 p') = 65535"
proof -
  have v: "tcp6_valid 20 syn6_sample" "drop_bit 4 (syn6_sample ! 0) = 6"
    and eqs: "new_addr To16 IPv6loopback (field syn6_sample 24 16) = IPv6loopback"
    "port_bytes (new_port 8080 (be16 (syn6_sample ! 42) (syn6_sample ! 43))) = [0x1f, 0x90]"
    by code_simp+
  moreover have "fold16 (tcp6_total 20 syn6_sample) = 65535"
    by (simp add: fold16_def tcp6_total_def pseudo_sum_def field_def syn6_sample_def unat_be16)
  ultimately show ?thesis
    using RewriteIPv6TCP_correct [OF v, of "[]" IPv6loopback 0 8080] unfolding eqs by blast
qed

section \<open>No panics\<close>

lemma Uint32_returns: "length b = 4 \<Longrightarrow> returns (Uint32 b)"
  by (auto simp: Uint32_def numeral_eq_Suc length_Suc_conv)

lemma rewrite_addr4_returns:
  assumes "lo + 4 \<le> length p"
  shows "\<exists>p' ic tc'. rewrite_addr4 lo ip (p, c, tc) = Some (p', ic, tc') \<and> length p' = length p"
proof (cases "To4 ip")
  case (Some a)
  then have "length a = 4"
    by (rule length_To4)
  then show ?thesis
    using assms Some returnsD [OF Uint32_returns [of a]] by (auto simp: rewrite_addr4_def go_simps)
qed (simp add: rewrite_addr4_def)

lemma rewrite_addr6_returns:
  assumes "lo + 16 \<le> length p"
  shows "\<exists>p' tc'. rewrite_addr6 lo ip (p, tc) = Some (p', tc') \<and> length p' = length p"
  using assms length_To16 [of ip] by (cases "To16 ip") (auto simp: rewrite_addr6_def go_simps Let_def)

lemma rewrite_port_returns:
  assumes "lo + 2 \<le> length p"
  shows "\<exists>p' tc'. rewrite_port lo port (p, tc) = Some (p', tc') \<and> length p' = length p"
  using assms by (auto simp: rewrite_port_def go_simps)

lemma RewriteIPv4TCP_returns: "\<exists>res. RewriteIPv4TCP p s d sp dp = Some res \<and> (\<forall>p'. res = Inr p' \<longrightarrow> length p' = length p)"
proof (cases "length p < 40 \<or> length p < hdr_len p + 20")
  case True
  then show ?thesis
    by (cases "p = []") (auto simp: RewriteIPv4TCP_def go_simps Let_def hdr_len_def)
next
  case False
  then have len: "40 \<le> length p" "hdr_len p + 20 \<le> length p" "p \<noteq> []"
    by auto
  let ?ic = "be16 (p ! 10) (p ! 11)" and ?tc = "be16 (p ! (hdr_len p + 16)) (p ! (17 + hdr_len p))"
  obtain p1 i1 t1 where 1: "rewrite_addr4 12 s (p, ?ic, ?tc) = Some (p1, i1, t1)" "length p1 = length p"
    using rewrite_addr4_returns [of 12 p s ?ic ?tc] len by auto
  obtain p2 i2 t2 where 2: "rewrite_addr4 16 d (p1, i1, t1) = Some (p2, i2, t2)" "length p2 = length p"
    using rewrite_addr4_returns [of 16 p1 d i1 t1] len 1(2) by auto
  obtain p3 t3 where 3: "rewrite_port (hdr_len p) sp (p2, t2) = Some (p3, t3)" "length p3 = length p"
    using rewrite_port_returns [of "hdr_len p" p2 sp t2] len 2(2) by auto
  obtain p4 t4 where 4: "rewrite_port (hdr_len p + 2) dp (p3, t3) = Some (p4, t4)" "length p4 = length p"
    using rewrite_port_returns [of "hdr_len p + 2" p3 dp t3] len 3(2) by auto
  show ?thesis
    using len 1 2 3 4 by (auto simp: RewriteIPv4TCP_def go_simps Let_def hdr_len_def [symmetric] add.assoc)
qed

lemma RewriteIPv6TCP_returns: "\<exists>res. RewriteIPv6TCP p s d sp dp = Some res \<and> (\<forall>p'. res = Inr p' \<longrightarrow> length p' = length p)"
proof (cases "length p < 60 \<or> drop_bit 4 (p ! 0) \<noteq> 6")
  case True
  then show ?thesis
    by (cases "p = []") (auto simp: RewriteIPv6TCP_def go_simps Let_def)
next
  case False
  then have len: "60 \<le> length p" "drop_bit 4 (p ! 0) = 6" "p \<noteq> []"
    by auto
  let ?tc = "be16 (p ! 56) (p ! 57)"
  obtain p1 t1 where 1: "rewrite_addr6 8 s (p, ?tc) = Some (p1, t1)" "length p1 = length p"
    using rewrite_addr6_returns [of 8 p s ?tc] len by auto
  obtain p2 t2 where 2: "rewrite_addr6 24 d (p1, t1) = Some (p2, t2)" "length p2 = length p"
    using rewrite_addr6_returns [of 24 p1 d t1] len 1(2) by auto
  obtain p3 t3 where 3: "rewrite_port 40 sp (p2, t2) = Some (p3, t3)" "length p3 = length p"
    using rewrite_port_returns [of 40 p2 sp t2] len 2(2) by auto
  obtain p4 t4 where 4: "rewrite_port 42 dp (p3, t3) = Some (p4, t4)" "length p4 = length p"
    using rewrite_port_returns [of 42 p3 dp t3] len 3(2) by auto
  show ?thesis
    using len 1 2 3 4 by (auto simp: RewriteIPv6TCP_def go_simps Let_def)
qed

end
