(* ===== verification/Fragment.thy ===== *)
theory Fragment
  imports Rewrite
begin

text \<open>
  Cutting of oversized packets, \<open>internal/interceptor/packet_parser.go\<close>: \<open>FragmentIPv4\<close>
  (IP fragments) and \<open>FragmentIPv6TCP\<close> (TCP segments).  The MTU is a Go \<open>int\<close>, so it may be
  negative; \<open>None\<close> is a panic.

  Both functions run the same loop over the payload.  The locale \<open>segmenter\<close> has the loop
  and the contract of its body, and shows that the pieces carry the whole payload in order;
  it is interpreted for both.
\<close>

section \<open>IPv4 fragments\<close>

text \<open>\<open>for i := 0; i < ipHdrLen; i += 2 { csum += uint32(frag[i])<<8 | uint32(frag[i+1]) }\<close>\<close>

function hdr_loop :: "nat \<Rightarrow> nat \<Rightarrow> byte list \<Rightarrow> uint32 \<Rightarrow> uint32" where
  "hdr_loop i ipHdrLen frag csum =
     (if i < ipHdrLen then hdr_loop (i + 2) ipHdrLen frag (csum + word_at frag i) else csum)"
  by pat_completeness auto
termination
  by (relation "measure (\<lambda>(i, n, _). n - i)") auto

declare hdr_loop.simps [simp del]

text \<open>The body of the loop: the fragment with the payload bytes from \<open>offset\<close> to \<open>fin\<close>.\<close>

definition frag4_piece :: "byte list \<Rightarrow> nat \<Rightarrow> byte list \<Rightarrow> nat \<Rightarrow> nat \<Rightarrow> byte list option" where
  "frag4_piece packet ipHdrLen payload offset fin = do {
     let frag = replicate (ipHdrLen + fin - offset) 0;
     hdr \<leftarrow> go_slice packet 0 ipHdrLen;
     frag \<leftarrow> go_copy frag 0 ipHdrLen hdr;
     chunk \<leftarrow> go_slice payload offset fin;
     frag \<leftarrow> go_copy frag ipHdrLen (length frag) chunk;
     frag \<leftarrow> PutUint16 frag 2 4 (of_nat (length frag));
     let fragOffset = (of_nat (offset div 8) :: uint16);
     let fragOffset = (if fin < length payload then fragOffset OR 0x2000 else fragOffset);
     frag \<leftarrow> PutUint16 frag 6 8 fragOffset;
     frag \<leftarrow> go_set frag 10 0;
     frag \<leftarrow> go_set frag 11 0;
     let csum = csum_fold (hdr_loop 0 ipHdrLen frag 0);
     let ipCsum = NOT (ucast csum);
     PutUint16 frag 10 12 ipCsum
   }"

text \<open>
  The loop \<open>for offset := 0; offset < len(payload); offset += maxPayload\<close>.  It is entered
  with \<open>maxPayload > 0\<close> only; the condition is repeated here for termination.
\<close>

function frag4_loop :: "byte list \<Rightarrow> nat \<Rightarrow> byte list \<Rightarrow> nat \<Rightarrow> nat \<Rightarrow> byte list list option" where
  "frag4_loop packet ipHdrLen payload maxPayload offset =
     (if offset < length payload \<and> 0 < maxPayload then do {
        let fin = min (offset + maxPayload) (length payload);
        frag \<leftarrow> frag4_piece packet ipHdrLen payload offset fin;
        fragments \<leftarrow> frag4_loop packet ipHdrLen payload maxPayload (offset + maxPayload);
        Some (frag # fragments)
      } else Some [])"
  by pat_completeness auto
termination
  by (relation "measure (\<lambda>(_, _, payload, _, offset). length payload - offset)") auto

declare frag4_loop.simps [simp del]

definition FragmentIPv4 :: "byte list \<Rightarrow> int \<Rightarrow> byte list list option" where
  "FragmentIPv4 packet mtu =
     (if length packet = 0 then Some []
      else do {
        b0 \<leftarrow> go_index packet 0;
        let version = drop_bit 4 b0;
        if version \<noteq> 4 then Some [packet]
        else do {
          let ipHdrLen = unat (b0 AND 0x0F) * 4;
          if int (length packet) \<le> mtu \<or> length packet \<le> ipHdrLen \<or> ipHdrLen < 20 then Some [packet]
          else do {
            payload \<leftarrow> go_from packet ipHdrLen;
            let maxPayload = (mtu - int ipHdrLen) AND NOT 7;
            if maxPayload \<le> 0 then Some [packet]
            else frag4_loop packet ipHdrLen payload (nat maxPayload) 0
          }
        }
      })"

section \<open>IPv6 TCP segments\<close>

definition IPPROTO_TCP :: byte where "IPPROTO_TCP = 6"
definition TCP_FIN :: byte where "TCP_FIN = 1"
definition TCP_PSH :: byte where "TCP_PSH = 8"

definition frag6_piece ::
  "byte list \<Rightarrow> nat \<Rightarrow> byte list \<Rightarrow> uint32 \<Rightarrow> byte \<Rightarrow> nat \<Rightarrow> nat \<Rightarrow> byte list option" where
  "frag6_piece packet tcpHdrLen payload baseSeq origFlags offset fin = do {
     let tcpOffset = 40;
     let totalHdrLen = 40 + tcpHdrLen;
     let chunkSize = fin - offset;
     let frag = replicate (totalHdrLen + chunkSize) 0;
     hdr \<leftarrow> go_slice packet 0 totalHdrLen;
     frag \<leftarrow> go_copy frag 0 totalHdrLen hdr;
     chunk \<leftarrow> go_slice payload offset fin;
     frag \<leftarrow> go_copy frag totalHdrLen (length frag) chunk;
     frag \<leftarrow> PutUint16 frag 4 6 (of_nat (tcpHdrLen + chunkSize));
     frag \<leftarrow> PutUint32 frag (tcpOffset + 4) (tcpOffset + 8) (baseSeq + of_nat offset);
     frag \<leftarrow> (if fin < length payload
             then go_set frag (tcpOffset + 13) (origFlags AND NOT (TCP_PSH OR TCP_FIN))
             else Some frag);
     frag \<leftarrow> go_set frag (tcpOffset + 16) 0;
     frag \<leftarrow> go_set frag (tcpOffset + 17) 0;
     src \<leftarrow> go_slice frag 8 24;
     dst \<leftarrow> go_slice frag 24 40;
     seg \<leftarrow> go_from frag tcpOffset;
     PutUint16 frag (tcpOffset + 16) (tcpOffset + 18) (CalculateTCPChecksumIPv6 src dst seg)
   }"

function frag6_loop ::
  "byte list \<Rightarrow> nat \<Rightarrow> byte list \<Rightarrow> uint32 \<Rightarrow> byte \<Rightarrow> nat \<Rightarrow> nat \<Rightarrow> byte list list option" where
  "frag6_loop packet tcpHdrLen payload baseSeq origFlags maxPayload offset =
     (if offset < length payload \<and> 0 < maxPayload then do {
        let fin = min (offset + maxPayload) (length payload);
        frag \<leftarrow> frag6_piece packet tcpHdrLen payload baseSeq origFlags offset fin;
        fragments \<leftarrow> frag6_loop packet tcpHdrLen payload baseSeq origFlags maxPayload (offset + maxPayload);
        Some (frag # fragments)
      } else Some [])"
  by pat_completeness auto
termination
  by (relation "measure (\<lambda>(_, _, payload, _, _, _, offset). length payload - offset)") auto

declare frag6_loop.simps [simp del]

definition FragmentIPv6TCP :: "byte list \<Rightarrow> int \<Rightarrow> byte list list option" where
  "FragmentIPv6TCP packet mtu =
     (if length packet < 60 then Some [packet]
      else do {
        b0 \<leftarrow> go_index packet 0;
        let version = drop_bit 4 b0;
        b6 \<leftarrow> go_index packet 6;
        if version \<noteq> 6 \<or> b6 \<noteq> IPPROTO_TCP then Some [packet]
        else do {
          let tcpOffset = 40;
          b12 \<leftarrow> go_index packet (tcpOffset + 12);
          let dataOffset = unat (drop_bit 4 b12 * 4);
          let tcpHdrLen = dataOffset;
          let totalHdrLen = 40 + tcpHdrLen;
          if int (length packet) \<le> mtu \<or> length packet \<le> totalHdrLen \<or> tcpHdrLen < 20 then Some [packet]
          else do {
            payload \<leftarrow> go_from packet totalHdrLen;
            let maxPayload = mtu - int totalHdrLen;
            if maxPayload \<le> 0 then Some [packet]
            else do {
              baseSeq \<leftarrow> u32_at packet (tcpOffset + 4) (tcpOffset + 8);
              origFlags \<leftarrow> go_index packet (tcpOffset + 13);
              frag6_loop packet tcpHdrLen payload baseSeq origFlags (nat maxPayload) 0
            }
          }
        }
      })"

section \<open>The loop over the payload\<close>

locale segmenter =
  fixes valid :: "'c \<Rightarrow> nat \<Rightarrow> bool" and payload_of :: "'c \<Rightarrow> byte list" and hlen :: "'c \<Rightarrow> nat"
    and piece :: "'c \<Rightarrow> nat \<Rightarrow> nat \<Rightarrow> byte list option"
    and loop :: "'c \<Rightarrow> nat \<Rightarrow> nat \<Rightarrow> byte list list option"
    and good :: "'c \<Rightarrow> nat \<Rightarrow> nat \<Rightarrow> byte list \<Rightarrow> bool"
  assumes loop_eq: "loop c m off =
      (if off < length (payload_of c) \<and> 0 < m then do {
         frag \<leftarrow> piece c off (min (off + m) (length (payload_of c)));
         fragments \<leftarrow> loop c m (off + m);
         Some (frag # fragments)
       } else Some [])"
    and piece_ok: "valid c m \<Longrightarrow> m dvd off \<Longrightarrow> off < fin \<Longrightarrow> fin \<le> off + m \<Longrightarrow>
      fin \<le> length (payload_of c) \<Longrightarrow>
      \<exists>f. piece c off fin = Some f \<and> drop (hlen c) f = field (payload_of c) off (fin - off) \<and> good c off fin f"
begin

lemma loop_pieces:
  assumes "valid c m" "0 < m" "m dvd off"
  shows "\<exists>fs. loop c m off = Some fs \<and> concat (map (drop (hlen c)) fs) = drop off (payload_of c)
     \<and> (\<forall>f \<in> set fs. \<exists>a b. m dvd a \<and> a < b \<and> b \<le> a + m \<and> b \<le> length (payload_of c)
           \<and> drop (hlen c) f = field (payload_of c) a (b - a) \<and> good c a b f)"
  using assms(3)
proof (induction "length (payload_of c) - off" arbitrary: off rule: less_induct)
  case less
  let ?l = "length (payload_of c)"
  show ?case
  proof (cases "off < ?l")
    case False
    then show ?thesis
      by (intro exI [of _ "[]"]) (simp add: loop_eq [of c m off])
  next
    case True
    let ?fin = "min (off + m) ?l"
    have fin: "off < ?fin" "?fin \<le> off + m" "?fin \<le> ?l"
      using True assms(2) by auto
    obtain f where f: "piece c off ?fin = Some f"
      "drop (hlen c) f = field (payload_of c) off (?fin - off)" "good c off ?fin f"
      using piece_ok [OF assms(1) less.prems fin] by blast
    have "?l - (off + m) < ?l - off" "m dvd off + m"
      using True assms(2) less.prems by auto
    then obtain fs where fs: "loop c m (off + m) = Some fs"
      "concat (map (drop (hlen c)) fs) = drop (off + m) (payload_of c)"
      "\<forall>f \<in> set fs. \<exists>a b. m dvd a \<and> a < b \<and> b \<le> a + m \<and> b \<le> ?l
           \<and> drop (hlen c) f = field (payload_of c) a (b - a) \<and> good c a b f"
      using less.hyps [of "off + m"] by blast
    have "field (payload_of c) off (?fin - off) @ drop (off + m) (payload_of c) = drop off (payload_of c)"
    proof (cases "off + m \<le> ?l")
      case True
      then show ?thesis
        using append_take_drop_id [of m "drop off (payload_of c)"] by (simp add: field_def add.commute)
    qed (simp add: field_def)
    moreover have "loop c m off = Some (f # fs)"
      using True assms(2) f(1) fs(1) by (subst loop_eq) simp
    moreover have "\<exists>a b. m dvd a \<and> a < b \<and> b \<le> a + m \<and> b \<le> ?l
        \<and> drop (hlen c) f = field (payload_of c) a (b - a) \<and> good c a b f"
      using f fin less.prems by blast
    ultimately show ?thesis
      using f(2) fs(2,3) by (intro exI [of _ "f # fs"]) (simp del: min_less_iff_conj)
  qed
qed

end

section \<open>Fragments\<close>

lemma hdr_loop_eq:
  assumes "even i" "even n" "i \<le> n" "n \<le> length frag"
  shows "hdr_loop i n frag c = c + of_nat (wsum (drop i (take n frag)))"
  using assms
proof (induction i n frag c rule: hdr_loop.induct)
  case (1 i n frag c)
  show ?case
  proof (cases "i < n")
    case True
    then have i: "i + 1 < n" "i + 2 \<le> n" "even (i + 2)"
      using 1 by presburger+
    have "drop i (take n frag) = frag ! i # frag ! (i + 1) # drop (i + 2) (take n frag)"
      using drop_two [of i "take n frag"] i 1(5) by simp
    then have "wsum (drop i (take n frag))
        = unat (be16 (frag ! i) (frag ! (i + 1))) + wsum (drop (i + 2) (take n frag))"
      by simp
    then show ?thesis
      using 1 True i by (simp add: hdr_loop.simps [of i] word_at_eq del: add_2_eq_Suc')
  next
    case False
    then have "hdr_loop i n frag c = c"
      by (subst hdr_loop.simps) simp
    with False 1 show ?thesis
      by simp
  qed
qed

lemma blit_replicate:
  "length xs = h \<Longrightarrow> length ys = k \<Longrightarrow> blit (blit (replicate (h + k) (0 :: byte)) 0 xs) h ys = xs @ ys"
  by (simp add: blit_def)

lemma drop_blit:
  "i + length ys \<le> n \<Longrightarrow> i + length ys \<le> length q \<Longrightarrow> drop n (blit q i ys) = drop n q"
  by (rule nth_equalityI) (auto simp: nth_blit)

lemma blit_two: "i + 2 \<le> length q \<Longrightarrow> blit (blit q i [a]) (Suc i) [b] = blit q i [a, b]"
  by (rule nth_equalityI) (auto simp: nth_blit nth_Cons split: nat.splits)

text \<open>The two copies that start every piece: the header, then the chunk of the payload.\<close>

lemma copy_header_chunk:
  assumes "h \<le> length p" "off \<le> fin" "fin \<le> length payload"
  defines "fr \<equiv> blit (replicate (h + (fin - off)) (0 :: byte)) 0 (take h p)"
  shows "go_slice p 0 h = Some (take h p)"
    "go_copy (replicate (h + (fin - off)) 0) 0 h (take h p) = Some fr"
    "go_slice payload off fin = Some (field payload off (fin - off))"
    "go_copy fr h (length fr) (field payload off (fin - off))
       = Some (take h p @ field payload off (fin - off))"
  using assms(1-3) by (simp_all add: fr_def go_simps blit_replicate) (simp_all add: field_def blit_def)

text \<open>What an IPv4 fragment is to be, for the payload bytes from \<open>off\<close> to \<open>fin\<close>.\<close>

definition frag4_good :: "byte list \<times> nat \<times> byte list \<Rightarrow> nat \<Rightarrow> nat \<Rightarrow> byte list \<Rightarrow> bool" where
  "frag4_good c off fin f =
     (case c of (p, h, payload) \<Rightarrow>
        length f = h + (fin - off) \<and> hdr_len f = h
        \<and> be16 (f ! 2) (f ! 3) = of_nat (length f)
        \<and> be16 (f ! 6) (f ! 7) = of_nat (off div 8) OR (if fin < length payload then 0x2000 else 0)
        \<and> fold16 (ip4_total f) = 65535
        \<and> (\<forall>i < h. i \<notin> {2, 3, 6, 7, 10, 11} \<longrightarrow> f ! i = p ! i))"

definition frag4_valid :: "byte list \<times> nat \<times> byte list \<Rightarrow> nat \<Rightarrow> bool" where
  "frag4_valid c m = (case c of (p, h, payload) \<Rightarrow>
     h = hdr_len p \<and> 20 \<le> h \<and> h < length p \<and> payload = drop h p)"

lemma hdr_len_le: "hdr_len q \<le> 60"
  using and_0F_less [of "q ! 0"] by (simp add: hdr_len_def)

lemma frag4_piece_ok:
  assumes h: "h = hdr_len p" "20 \<le> h" "h < length p" and payload: "payload = drop h p"
    and fin: "off < fin" "fin \<le> length payload"
  shows "\<exists>f. frag4_piece p h payload off fin = Some f
     \<and> drop h f = field payload off (fin - off) \<and> frag4_good (p, h, payload) off fin f"
proof -
  let ?chunk = "field payload off (fin - off)"
  define fo :: uint16 where
    "fo = of_nat (off div 8) OR (if fin < length payload then 0x2000 else 0)"
  define f0 where "f0 = take h p @ ?chunk"
  define f2 where "f2 = blit (blit f0 2 (port_bytes (of_nat (length f0)))) 6 (port_bytes fo)"
  have l0: "length f0 = h + (fin - off)"
    using h fin by (simp add: f0_def)
  have "20 \<le> length f0"
    using h l0 by simp
  have l2: "length f2 = length f0"
    using h l0 by (simp add: f2_def)
  have "hdr_len f2 = hdr_len f0"
    using h l0 by (simp add: f2_def hdr_len_blit)
  also have "\<dots> = h"
    using h by (simp add: f0_def hdr_len_def nth_append)
  finally have h2: "hdr_len f2 = h" .
  then have v2: "ip4_valid f2"
    using h l0 l2 by (simp add: ip4_valid_def)
  define c where "c = inet_csum (csum_rest ip4_total (\<lambda>_. 10) f2)"
  define f where "f = blit f2 10 (port_bytes c)"
  have lf: "length f = length f0" "hdr_len f = h"
    using h l0 l2 h2 by (simp_all add: f_def hdr_len_blit)
  have csum: "NOT (ucast (csum_fold (hdr_loop 0 h (blit f2 10 [0, 0]) 0))) = c"
  proof -
    have "hdr_loop 0 h (blit f2 10 [0, 0]) 0 = of_nat (csum_rest ip4_total (\<lambda>_. 10) f2)"
      using h l0 l2 h2 by (simp add: hdr_loop_eq csum_rest_def ip4_total_def hdr_len_blit)
    moreover have "csum_rest ip4_total (\<lambda>_. 10) f2 < 4294967296"
    proof -
      let ?z = "blit f2 10 [0, 0]"
      have "length (take (hdr_len ?z) ?z) \<le> 65535"
        using hdr_len_le [of ?z] by simp
      from wsum_seg_le [OF this] show ?thesis
        by (simp add: csum_rest_def ip4_total_def)
    qed
    ultimately show ?thesis
      by (simp only: not_fold c_def unat_of_nat32)
  qed
  have "frag4_piece p h payload off fin = Some f"
  proof -
    have "PutUint16 f0 2 4 (of_nat (length f0)) = Some (blit f0 2 (port_bytes (of_nat (length f0))))"
      "PutUint16 (blit f0 2 (port_bytes (of_nat (length f0)))) 6 8 fo = Some f2"
      "go_set f2 10 0 = Some (blit f2 10 [0])"
      "go_set (blit f2 10 [0]) 11 0 = Some (blit f2 10 [0, 0])"
      "PutUint16 (blit f2 10 [0, 0]) 10 12 c = Some f"
      using \<open>20 \<le> length f0\<close> l2 blit_two [of 10 f2 0 0]
      by (simp_all add: go_simps f2_def [symmetric] f_def blit_blit_same)
    moreover have "(if fin < length payload then of_nat (off div 8) OR 0x2000 else of_nat (off div 8)) = fo"
      by (simp add: fo_def)
    moreover have "h + fin - off = h + (fin - off)"
      using fin by simp
    ultimately show ?thesis
      by (simp only: frag4_piece_def Let_def
          copy_header_chunk [OF less_imp_le [OF h(3)] less_imp_le [OF fin(1)] fin(2)]
          f0_def [symmetric] csum Option.bind.simps)
  qed
  moreover have "drop h f = drop h f0"
    using h(2) \<open>20 \<le> length f0\<close> by (simp add: f_def f2_def drop_blit)
  then have "drop h f = ?chunk"
    using h(3) by (simp add: f0_def)
  moreover have "fold16 (ip4_total f) = 65535"
    using ip4.store [OF v2] csum_ok_inet_csum [OF ip4.positive [OF v2]] by (simp add: f_def c_def)
  moreover have "be16 (f ! 2) (f ! 3) = of_nat (length f0)" "be16 (f ! 6) (f ! 7) = fo"
    using h l0 l2 by (simp_all add: f_def f2_def nth_blit)
  moreover have "f ! i = p ! i" if "i < h" "i \<notin> {2, 3, 6, 7, 10, 11}" for i
    using that h l0 l2 by (auto simp: f_def f2_def nth_blit f0_def nth_append)
  ultimately show ?thesis
    using lf l0 by (auto simp: frag4_good_def fo_def)
qed

interpretation frag4: segmenter
  "\<lambda>c m. frag4_valid c m" "\<lambda>(_, _, payload). payload" "\<lambda>(_, h, _). h"
  "\<lambda>(p, h, payload). frag4_piece p h payload" "\<lambda>(p, h, payload). frag4_loop p h payload" frag4_good
proof
  fix c :: "byte list \<times> nat \<times> byte list" and m off fin :: nat
  obtain p h payload where c: "c = (p, h, payload)"
    by (cases c) auto
  show "(case c of (p, h, payload) \<Rightarrow> frag4_loop p h payload) m off =
      (if off < length (case c of (_, _, payload) \<Rightarrow> payload) \<and> 0 < m then do {
         frag \<leftarrow> (case c of (p, h, payload) \<Rightarrow> frag4_piece p h payload) off
           (min (off + m) (length (case c of (_, _, payload) \<Rightarrow> payload)));
         fragments \<leftarrow> (case c of (p, h, payload) \<Rightarrow> frag4_loop p h payload) m (off + m);
         Some (frag # fragments)
       } else Some [])"
    by (subst c, simp only: prod.case, subst frag4_loop.simps) (simp add: c Let_def)
  assume "frag4_valid c m" "off < fin" "fin \<le> length (case c of (_, _, payload) \<Rightarrow> payload)"
  then show "\<exists>f. (case c of (p, h, payload) \<Rightarrow> frag4_piece p h payload) off fin = Some f
      \<and> drop (case c of (_, h, _) \<Rightarrow> h) f = field (case c of (_, _, payload) \<Rightarrow> payload) off (fin - off)
      \<and> frag4_good c off fin f"
    using frag4_piece_ok [of h p payload off fin] by (simp add: c frag4_valid_def)
qed

lemma and_not_7: "x AND NOT 7 = x - x mod 8" for x :: int
proof -
  have "x AND 7 = x mod 8"
    using take_bit_eq_mask [of 3 x] by (simp add: mask_eq_exp_minus_1 take_bit_eq_mod)
  moreover have "x - (x AND 7) = x AND NOT (x AND 7)"
    by (rule disjunctive_diff) (simp add: bit_simps)
  moreover have "x AND NOT (x AND 7) = x AND NOT 7"
    by (rule bit_eqI) (auto simp: bit_simps)
  ultimately show ?thesis by simp
qed

text \<open>The flags and offset word: 13 bits of offset, the MF flag above them.\<close>

lemma frag_word:
  fixes more :: bool
  assumes "k < 8192"
  defines "w \<equiv> (of_nat k :: uint16) OR (if more then 0x2000 else 0)"
  shows "unat (w AND 0x1fff) = k" "bit w 13 = more" "bit w 14 = False" "bit w 15 = False"
proof -
  have k: "(of_nat k :: uint16) = take_bit 13 (of_nat k)"
    using assms(1) by (simp add: take_bit_of_nat take_bit_nat_eq_self)
  have m: "(0x1fff :: uint16) = mask 13"
    by (simp add: mask_eq_exp_minus_1)
  have mf: "bit (0x2000 :: uint16) n \<longleftrightarrow> n = 13" for n
  proof -
    have "(0x2000 :: uint16) = push_bit 13 1"
      by simp
    then show ?thesis
      by (simp only: bit_push_bit_iff bit_1_iff) auto
  qed
  have "w AND 0x1fff = take_bit 13 (of_nat k)"
    unfolding w_def m by (rule bit_word_eqI) (auto simp only: bit_or_iff bit_and_iff bit_take_bit_iff bit_mask_iff possible_bit_word mf bit_0_eq bot_apply bot_bool_def split: if_splits)
  also have "unat \<dots> = k"
    using assms(1) by (simp add: k [symmetric] unat_of_nat take_bit_nat_eq_self)
  finally show "unat (w AND 0x1fff) = k" .
  show "bit w 13 = more" "bit w 14 = False" "bit w 15 = False"
    unfolding w_def by (subst k, cases more, simp_all only: if_True if_False bit_or_iff bit_take_bit_iff mf or.right_neutral, simp_all)+
qed

lemma max_payload:
  assumes "8 \<le> x"
  shows "0 < nat (x AND NOT 7)" "8 dvd nat (x AND NOT 7)" "int (nat (x AND NOT 7)) \<le> x"
proof -
  have x: "x = 8 * (x div 8) + x mod 8"
    by simp
  have eq: "x AND NOT 7 = 8 * (x div 8)"
    unfolding and_not_7 using x by linarith
  then show "0 < nat (x AND NOT 7)" "int (nat (x AND NOT 7)) \<le> x"
    using assms x pos_mod_bound [of 8 x] pos_mod_sign [of 8 x] by linarith+
  show "8 dvd nat (x AND NOT 7)"
    unfolding eq by (simp add: nat_mult_distrib)
qed

lemma FragmentIPv4_pieces:
  assumes "drop_bit 4 (p ! 0) = 4" "20 \<le> hdr_len p" "hdr_len p < length p"
    and "mtu < int (length p)" "8 \<le> mtu - int (hdr_len p)"
  defines "m \<equiv> nat ((mtu - int (hdr_len p)) AND NOT 7)"
  shows "FragmentIPv4 p mtu = frag4_loop p (hdr_len p) (drop (hdr_len p) p) m 0"
proof -
  have "p \<noteq> []"
    using assms by auto
  with assms max_payload(1) [OF assms(5)] show ?thesis
    by (simp add: FragmentIPv4_def go_simps Let_def hdr_len_def [symmetric])
qed

text \<open>What the receiver needs of a fragment \<open>f\<close> of \<open>p\<close>.\<close>

definition frag4_fits :: "byte list \<Rightarrow> int \<Rightarrow> byte list \<Rightarrow> bool" where
  "frag4_fits p mtu f =
     (let h = hdr_len p; w = be16 (f ! 6) (f ! 7); off = 8 * unat (w AND 0x1fff)
      in int (length f) \<le> mtu \<and> hdr_len f = h \<and> unat (be16 (f ! 2) (f ! 3)) = length f
         \<and> drop h f = field (drop h p) off (length f - h)
         \<and> (bit w 13 \<longleftrightarrow> off + (length f - h) < length p - h)
         \<and> fold16 (ip4_total f) = 65535
         \<and> (\<forall>i < h. i \<notin> {2, 3, 6, 7, 10, 11} \<longrightarrow> f ! i = p ! i))"

text \<open>
  C32: an IPv4 packet longer than the MTU is cut into fragments none of which is longer than
  the MTU; their payloads put one after the other are the payload of the packet, and each sits
  at the offset its header gives; the more-fragments flag is set on all but the last; the
  length field and the header checksum of each fragment are right, and the header is otherwise
  the original one.
\<close>

theorem FragmentIPv4_correct:
  assumes "drop_bit 4 (p ! 0) = 4" "20 \<le> hdr_len p" "hdr_len p < length p" "length p \<le> 65535"
    and "mtu < int (length p)" "8 \<le> mtu - int (hdr_len p)"
  defines "h \<equiv> hdr_len p"
  shows "\<exists>fs. FragmentIPv4 p mtu = Some fs \<and> concat (map (drop h) fs) = drop h p
     \<and> (\<forall>f \<in> set fs. frag4_fits p mtu f)"
proof -
  let ?c = "(p, h, drop h p)" and ?m = "nat ((mtu - int h) AND NOT 7)"
  have m: "0 < ?m" "8 dvd ?m" "int ?m \<le> mtu - int h"
    using max_payload [OF assms(6)] by (auto simp: h_def)
  have "frag4_valid ?c ?m"
    using assms by (simp add: frag4_valid_def)
  from frag4.loop_pieces [OF this m(1), of 0] obtain fs where
    fs: "frag4_loop p h (drop h p) ?m 0 = Some fs" "concat (map (drop h) fs) = drop h p"
    and pieces: "\<forall>f \<in> set fs. \<exists>a b. ?m dvd a \<and> a < b \<and> b \<le> a + ?m \<and> b \<le> length (drop h p)
       \<and> drop h f = field (drop h p) a (b - a) \<and> frag4_good ?c a b f"
    by auto
  have "frag4_fits p mtu f" if f: "f \<in> set fs" for f
  proof -
    obtain a b where ab: "?m dvd a" "a < b" "b \<le> a + ?m" "b \<le> length p - h"
      and d: "drop h f = field (drop h p) a (b - a)" and g: "frag4_good ?c a b f"
      using pieces f by auto
    have a: "8 * (a div 8) = a" "a div 8 < 8192"
      using m(2) ab assms(4) by (auto simp: dvd_trans)
    have lf: "length f = h + (b - a)" "length f \<le> 65535"
      using g ab assms(3,4) by (auto simp: frag4_good_def h_def)
    note w = frag_word [OF a(2), where more = "b < length p - h"]
    have "unat (be16 (f ! 6) (f ! 7) AND 0x1fff) = a div 8" "bit (be16 (f ! 6) (f ! 7)) 13 = (b < length p - h)"
      using g w by (auto simp: frag4_good_def)
    moreover have "int (length f) \<le> mtu"
      using lf(1) ab m(3) by linarith
    moreover have "unat (of_nat (length f) :: uint16) = length f"
      using lf(2) by (simp add: unat_of_nat take_bit_nat_eq_self)
    ultimately show ?thesis
      using g a(1) d lf(1) ab(2) by (auto simp: frag4_fits_def frag4_good_def h_def Let_def)
  qed
  then show ?thesis
    using fs FragmentIPv4_pieces [OF assms(1-3,5,6)] by (auto simp: h_def)
qed

theorem FragmentIPv4_correct_witness:
  "\<exists>fs. FragmentIPv4 (syn_sample @ replicate 20 7) 44 = Some fs
     \<and> concat (map (drop 20) fs) = drop 20 (syn_sample @ replicate 20 7)
     \<and> list_all (frag4_fits (syn_sample @ replicate 20 7) 44) fs"
proof -
  let ?p = "syn_sample @ replicate 20 7"
  have h: "hdr_len ?p = 20"
    by code_simp
  have "drop_bit 4 (?p ! 0) = 4" "length ?p = 60"
    by (simp_all add: syn_sample_def)
  then show ?thesis
    using FragmentIPv4_correct [of ?p 44] h by (simp add: list_all_iff)
qed

section \<open>Segments\<close>

type_synonym seg6_ctx = "byte list \<times> nat \<times> byte list \<times> uint32 \<times> byte"

definition frag6_good :: "seg6_ctx \<Rightarrow> nat \<Rightarrow> nat \<Rightarrow> byte list \<Rightarrow> bool" where
  "frag6_good c off fin f =
     (case c of (p, t, payload, baseSeq, flags) \<Rightarrow>
        length f = 40 + t + (fin - off)
        \<and> be16 (f ! 4) (f ! 5) = of_nat (length f - 40)
        \<and> be32 (f ! 44) (f ! 45) (f ! 46) (f ! 47) = baseSeq + of_nat off
        \<and> f ! 53 = (if fin < length payload then flags AND NOT (TCP_PSH OR TCP_FIN) else flags)
        \<and> fold16 (tcp6_total (length f - 40) f) = 65535
        \<and> (\<forall>i < 40 + t. i \<notin> {4, 5, 44, 45, 46, 47, 53, 56, 57} \<longrightarrow> f ! i = p ! i))"

definition frag6_valid :: "seg6_ctx \<Rightarrow> nat \<Rightarrow> bool" where
  "frag6_valid c m = (case c of (p, t, payload, baseSeq, flags) \<Rightarrow>
     20 \<le> t \<and> t + m \<le> 65535 \<and> 40 + t < length p \<and> payload = drop (40 + t) p \<and> flags = p ! 53)"

lemma be32_put:
  assumes "i + 4 \<le> length q"
  shows "be32 (blit q i (bytes32 w) ! i) (blit q i (bytes32 w) ! (i + 1))
    (blit q i (bytes32 w) ! (i + 2)) (blit q i (bytes32 w) ! (i + 3)) = w"
proof -
  have "blit q i (bytes32 w) ! (i + k) = bytes32 w ! k" if "k < 4" for k
    using assms that by (simp add: nth_blit)
  from this [of 0] this [of 1] this [of 2] this [of 3] show ?thesis
    using be32_bytes32 [of w] by (simp add: bytes32_def)
qed

text \<open>The bytes of a segment before its checksum is stored.\<close>

definition seg6_body :: "byte list \<Rightarrow> nat \<Rightarrow> byte list \<Rightarrow> uint32 \<Rightarrow> nat \<Rightarrow> nat \<Rightarrow> byte list" where
  "seg6_body p t payload seq off fin =
     (let f0 = take (40 + t) p @ field payload off (fin - off);
          f1 = blit f0 4 (port_bytes (of_nat (t + (fin - off))));
          f2 = blit f1 44 (bytes32 (seq + of_nat off))
      in if fin < length payload then blit f2 53 [p ! 53 AND NOT (TCP_PSH OR TCP_FIN)] else f2)"

lemma seg6_body_facts:
  fixes seq :: uint32
  assumes t: "20 \<le> t" "40 + t < length p" and fin: "off < fin" "fin \<le> length payload"
  defines "q \<equiv> seg6_body p t payload seq off fin"
  shows "length q = 40 + t + (fin - off)" "drop (40 + t) q = field payload off (fin - off)"
    "be16 (q ! 4) (q ! 5) = of_nat (t + (fin - off))"
    "be32 (q ! 44) (q ! 45) (q ! 46) (q ! 47) = seq + of_nat off"
    "q ! 53 = (if fin < length payload then p ! 53 AND NOT (TCP_PSH OR TCP_FIN) else p ! 53)"
    "i < 40 + t \<Longrightarrow> i \<notin> {4, 5, 44, 45, 46, 47, 53, 56, 57} \<Longrightarrow> q ! i = p ! i"
proof -
  define f0 where "f0 = take (40 + t) p @ field payload off (fin - off)"
  define f1 where "f1 = blit f0 4 (port_bytes (of_nat (t + (fin - off))))"
  define f2 where "f2 = blit f1 44 (bytes32 (seq + of_nat off))"
  have q: "q = (if fin < length payload then blit f2 53 [p ! 53 AND NOT (TCP_PSH OR TCP_FIN)] else f2)"
    by (simp add: q_def seg6_body_def f0_def f1_def f2_def)
  have l: "length f0 = 40 + t + (fin - off)" "length f1 = length f0" "length f2 = length f0" "60 \<le> length f0"
    using t fin by (simp_all add: f0_def f1_def f2_def)
  show "length q = 40 + t + (fin - off)"
    using l by (simp add: q)
  have "drop (40 + t) q = drop (40 + t) f0"
    using t(1) l by (simp add: q f1_def f2_def drop_blit)
  then show "drop (40 + t) q = field payload off (fin - off)"
    using t(2) by (simp add: f0_def)
  show "be16 (q ! 4) (q ! 5) = of_nat (t + (fin - off))"
    using l(2-4) by (simp add: q f2_def f1_def nth_blit)
  have "be32 (f2 ! 44) (f2 ! 45) (f2 ! 46) (f2 ! 47) = seq + of_nat off"
    using be32_put [of 44 f1 "seq + of_nat off"] l(2-4) by (simp add: f2_def)
  then show "be32 (q ! 44) (q ! 45) (q ! 46) (q ! 47) = seq + of_nat off"
    using l(3,4) by (simp add: q nth_blit)
  have f0: "f0 ! i = p ! i" if "i < 40 + t" for i
    using that t(2) by (simp add: f0_def nth_append)
  have f2: "f2 ! i = f0 ! i" if "i < length f0" "i \<notin> {4, 5, 44, 45, 46, 47}" for i
    using that l(2-4) by (auto simp: f2_def f1_def nth_blit)
  show "q ! 53 = (if fin < length payload then p ! 53 AND NOT (TCP_PSH OR TCP_FIN) else p ! 53)"
    using f2 [of 53] f0 [of 53] l(3,4) t(1) by (simp add: q nth_blit)
  show "q ! i = p ! i" if i: "i < 40 + t" "i \<notin> {4, 5, 44, 45, 46, 47, 53, 56, 57}"
  proof -
    have "q ! i = f2 ! i"
      using i l by (auto simp: q nth_blit)
    then show ?thesis
      using f2 [of i] f0 [of i] i l(1) by simp
  qed
qed

lemma seg6_csum:
  assumes "60 \<le> length q" "length q - 40 \<le> 65535"
  shows "CalculateTCPChecksumIPv6 (field (blit q 56 [0, 0]) 8 16) (field (blit q 56 [0, 0]) 24 16)
      (drop 40 (blit q 56 [0, 0]))
    = inet_csum (csum_rest (tcp6_total (length q - 40)) (\<lambda>_. 56) q)"
proof -
  have "field (blit q 56 [0, 0]) 40 (length q - 40) = drop 40 (blit q 56 [0, 0])"
    using assms(1) by (simp add: field_def)
  with assms show ?thesis
    by (simp add: CalculateTCPChecksumIPv6_eq csum_rest_def tcp6_total_def)
qed

lemma frag6_piece_run:
  fixes seq :: uint32
  assumes t: "20 \<le> t" "t + m \<le> 65535" "40 + t < length p"
    and fin: "off < fin" "fin \<le> off + m" "fin \<le> length payload"
  defines "q \<equiv> seg6_body p t payload seq off fin"
  shows "frag6_piece p t payload seq (p ! 53) off fin
    = Some (blit q 56 (port_bytes (inet_csum (csum_rest (tcp6_total (length q - 40)) (\<lambda>_. 56) q))))"
proof -
  define f0 where "f0 = take (40 + t) p @ field payload off (fin - off)"
  define f1 where "f1 = blit f0 4 (port_bytes (of_nat (t + (fin - off))))"
  define f2 where "f2 = blit f1 44 (bytes32 (seq + of_nat off))"
  have q: "q = (if fin < length payload then blit f2 53 [p ! 53 AND NOT (TCP_PSH OR TCP_FIN)] else f2)"
    by (simp add: q_def seg6_body_def f0_def f1_def f2_def)
  have l0: "60 \<le> length f0" "length f0 \<le> 65575"
    using t fin by (simp_all add: f0_def)
  have l: "length f1 = length f0" "length f2 = length f0" "length q = length f0"
    using l0 by (simp_all add: f1_def f2_def q)
  have steps: "PutUint16 f0 4 6 (of_nat (t + (fin - off))) = Some f1"
    "PutUint32 f1 (40 + 4) (40 + 8) (seq + of_nat off) = Some f2"
    "(if fin < length payload then go_set f2 (40 + 13) (p ! 53 AND NOT (TCP_PSH OR TCP_FIN)) else Some f2) = Some q"
    "go_set q (40 + 16) 0 = Some (blit q 56 [0])"
    "go_set (blit q 56 [0]) (40 + 17) 0 = Some (blit q 56 [0, 0])"
    "go_slice (blit q 56 [0, 0]) 8 24 = Some (field (blit q 56 [0, 0]) 8 16)"
    "go_slice (blit q 56 [0, 0]) 24 40 = Some (field (blit q 56 [0, 0]) 24 16)"
    "go_from (blit q 56 [0, 0]) 40 = Some (drop 40 (blit q 56 [0, 0]))"
    "\<And>c. PutUint16 (blit q 56 [0, 0]) (40 + 16) (40 + 18) c = Some (blit q 56 (port_bytes c))"
    using l0 l blit_two [of 56 q 0 0] by (simp_all add: go_simps f1_def f2_def q blit_blit_same)
  have len: "60 \<le> length q" "length q - 40 \<le> 65535"
    using l0 l by simp_all
  show ?thesis
    by (simp only: frag6_piece_def Let_def copy_header_chunk [OF less_imp_le [OF t(3)] less_imp_le [OF fin(1)] fin(3)]
        f0_def [symmetric] steps seg6_csum [OF len] Option.bind.simps)
qed

lemma frag6_piece_ok:
  assumes t: "20 \<le> t" "t + m \<le> 65535" "40 + t < length p" and payload: "payload = drop (40 + t) p"
    and fin: "off < fin" "fin \<le> off + m" "fin \<le> length payload"
  shows "\<exists>f. frag6_piece p t payload seq (p ! 53) off fin = Some f
     \<and> drop (40 + t) f = field payload off (fin - off)
     \<and> frag6_good (p, t, payload, seq, p ! 53) off fin f"
proof -
  define q where "q = seg6_body p t payload seq off fin"
  note qf = seg6_body_facts [OF t(1,3) fin(1,3), where seq = seq, folded q_def]
  let ?n = "length q - 40"
  have v: "tcp6_valid ?n q" and l60: "60 \<le> length q"
    using qf(1) t(1) by (auto simp: tcp6_valid_def)
  define c where "c = inet_csum (csum_rest (tcp6_total ?n) (\<lambda>_. 56) q)"
  define f where "f = blit q 56 (port_bytes c)"
  have piece: "frag6_piece p t payload seq (p ! 53) off fin = Some f"
    using frag6_piece_run [OF t fin, of seq] by (simp add: q_def f_def c_def)
  have "fold16 (tcp6_total ?n f) = 65535"
    using tcp6.store [OF v] csum_ok_inet_csum [OF tcp6.positive [OF v]] by (simp add: f_def c_def)
  moreover have "length f = length q" "drop (40 + t) f = drop (40 + t) q"
    "\<And>i. i < length q \<Longrightarrow> i \<notin> {56, 57} \<Longrightarrow> f ! i = q ! i"
    using l60 t(1) by (auto simp: f_def drop_blit nth_blit)
  ultimately show ?thesis
    using piece qf t(1) by (auto simp: frag6_good_def)
qed

interpretation frag6: segmenter
  frag6_valid "\<lambda>(_, _, payload, _, _). payload" "\<lambda>(_, t, _, _, _). 40 + t"
  "\<lambda>(p, t, payload, seq, flags). frag6_piece p t payload seq flags"
  "\<lambda>(p, t, payload, seq, flags). frag6_loop p t payload seq flags" frag6_good
proof
  fix c :: seg6_ctx and m off fin :: nat
  obtain p t payload seq flags where c: "c = (p, t, payload, seq, flags)"
    by (cases c) auto
  show "(case c of (p, t, payload, seq, flags) \<Rightarrow> frag6_loop p t payload seq flags) m off =
      (if off < length (case c of (_, _, payload, _, _) \<Rightarrow> payload) \<and> 0 < m then do {
         frag \<leftarrow> (case c of (p, t, payload, seq, flags) \<Rightarrow> frag6_piece p t payload seq flags) off
           (min (off + m) (length (case c of (_, _, payload, _, _) \<Rightarrow> payload)));
         fragments \<leftarrow> (case c of (p, t, payload, seq, flags) \<Rightarrow> frag6_loop p t payload seq flags) m (off + m);
         Some (frag # fragments)
       } else Some [])"
    by (subst c, simp only: prod.case, subst frag6_loop.simps) (simp add: c Let_def)
  assume "frag6_valid c m" "off < fin" "fin \<le> off + m"
    "fin \<le> length (case c of (_, _, payload, _, _) \<Rightarrow> payload)"
  then show "\<exists>f. (case c of (p, t, payload, seq, flags) \<Rightarrow> frag6_piece p t payload seq flags) off fin = Some f
      \<and> drop (case c of (_, t, _, _, _) \<Rightarrow> 40 + t) f
        = field (case c of (_, _, payload, _, _) \<Rightarrow> payload) off (fin - off)
      \<and> frag6_good c off fin f"
    using frag6_piece_ok [of t m p payload off fin seq] by (simp add: c frag6_valid_def)
qed

definition tcp6_hdr_len :: "byte list \<Rightarrow> nat" where
  "tcp6_hdr_len p = unat (drop_bit 4 (p ! 52) * 4)"

text \<open>What the receiver needs of a segment \<open>f\<close> of \<open>p\<close> that carries the payload from \<open>off\<close>.\<close>

definition seg6_fits :: "byte list \<Rightarrow> int \<Rightarrow> nat \<Rightarrow> byte list \<Rightarrow> bool" where
  "seg6_fits p mtu off f =
     (let h = 40 + tcp6_hdr_len p
      in int (length f) \<le> mtu \<and> drop h f = field (drop h p) off (length f - h)
         \<and> unat (be16 (f ! 4) (f ! 5)) = length f - 40
         \<and> be32 (f ! 44) (f ! 45) (f ! 46) (f ! 47)
             = be32 (p ! 44) (p ! 45) (p ! 46) (p ! 47) + of_nat off
         \<and> f ! 53 = (if off + (length f - h) < length p - h then p ! 53 AND NOT (TCP_PSH OR TCP_FIN)
                     else p ! 53)
         \<and> fold16 (tcp6_total (length f - 40) f) = 65535
         \<and> (\<forall>i < h. i \<notin> {4, 5, 44, 45, 46, 47, 53, 56, 57} \<longrightarrow> f ! i = p ! i))"

text \<open>
  C33: an IPv6 TCP packet longer than the MTU is cut into TCP segments none of which is
  longer than the MTU; their payloads put one after the other are the payload of the packet;
  each segment has the sequence number of its first byte, its own length and a checksum the
  receiver accepts; PSH and FIN stay on the last segment only.
\<close>

theorem FragmentIPv6TCP_correct:
  assumes "drop_bit 4 (p ! 0) = 6" "p ! 6 = IPPROTO_TCP" "20 \<le> tcp6_hdr_len p"
    and "40 + tcp6_hdr_len p < length p" "mtu < int (length p)" "int (40 + tcp6_hdr_len p) < mtu"
    and "mtu \<le> 65575"
  defines "h \<equiv> 40 + tcp6_hdr_len p"
  shows "\<exists>fs. FragmentIPv6TCP p mtu = Some fs \<and> concat (map (drop h) fs) = drop h p
     \<and> (\<forall>f \<in> set fs. \<exists>off. seg6_fits p mtu off f)"
proof -
  let ?t = "tcp6_hdr_len p" and ?m = "nat (mtu - int h)"
  let ?c = "(p, ?t, drop h p, be32 (p ! 44) (p ! 45) (p ! 46) (p ! 47), p ! 53)"
  have "p \<noteq> []" "\<not> length p < 60"
    using assms by auto
  then have run: "FragmentIPv6TCP p mtu
      = frag6_loop p ?t (drop h p) (be32 (p ! 44) (p ! 45) (p ! 46) (p ! 47)) (p ! 53) ?m 0"
    using assms by (simp add: FragmentIPv6TCP_def go_simps Let_def tcp6_hdr_len_def [symmetric])
  have m: "0 < ?m" "int ?m = mtu - int h"
    using assms by simp_all
  have "frag6_valid ?c ?m"
    using assms by (simp add: frag6_valid_def)
  from frag6.loop_pieces [OF this m(1), of 0] obtain fs where
    fs: "FragmentIPv6TCP p mtu = Some fs" "concat (map (drop h) fs) = drop h p"
    and pieces: "\<forall>f \<in> set fs. \<exists>a b. ?m dvd a \<and> a < b \<and> b \<le> a + ?m \<and> b \<le> length (drop h p)
       \<and> drop h f = field (drop h p) a (b - a) \<and> frag6_good ?c a b f"
    unfolding run by (auto simp: h_def)
  have "\<exists>off. seg6_fits p mtu off f" if f: "f \<in> set fs" for f
  proof -
    obtain a b where ab: "a < b" "b \<le> a + ?m" "b \<le> length p - h"
      and d: "drop h f = field (drop h p) a (b - a)" and g: "frag6_good ?c a b f"
      using pieces f by auto
    have lf: "length f = h + (b - a)" "length f - 40 \<le> 65535"
      using g ab m(2) assms(7) by (auto simp: frag6_good_def h_def)
    have "int (length f) \<le> mtu" "unat (of_nat (length f - 40) :: uint16) = length f - 40"
      using lf ab m(2) by (simp_all add: unat_of_nat take_bit_nat_eq_self)
    then have "seg6_fits p mtu a f"
      using g d lf(1) ab(1) by (auto simp: seg6_fits_def frag6_good_def h_def Let_def)
    then show ?thesis ..
  qed
  with fs show ?thesis
    by blast
qed

theorem FragmentIPv6TCP_correct_witness:
  "\<exists>fs. FragmentIPv6TCP (syn6_sample @ replicate 20 7) 68 = Some fs
     \<and> concat (map (drop 60) fs) = drop 60 (syn6_sample @ replicate 20 7)
     \<and> list_all (\<lambda>f. \<exists>off. seg6_fits (syn6_sample @ replicate 20 7) 68 off f) fs"
proof -
  let ?p = "syn6_sample @ replicate 20 7"
  have h: "tcp6_hdr_len ?p = 20"
    by code_simp
  have "drop_bit 4 (?p ! 0) = 6" "?p ! 6 = IPPROTO_TCP" "length ?p = 80"
    by (simp_all add: syn6_sample_def IPPROTO_TCP_def)
  then show ?thesis
    using FragmentIPv6TCP_correct [of ?p 68] h by (simp add: list_all_iff)
qed

section \<open>No panics\<close>

lemma FragmentIPv4_returns: "\<exists>fs. FragmentIPv4 p mtu = Some fs"
proof (cases "p = [] \<or> drop_bit 4 (p ! 0) \<noteq> 4 \<or> int (length p) \<le> mtu \<or> length p \<le> hdr_len p \<or> hdr_len p < 20
    \<or> (mtu - int (hdr_len p)) AND NOT 7 \<le> 0")
  case True
  then show ?thesis
    by (cases "p = []") (auto simp: FragmentIPv4_def go_simps Let_def hdr_len_def)
next
  case False
  let ?h = "hdr_len p" and ?m = "nat ((mtu - int (hdr_len p)) AND NOT 7)"
  have "FragmentIPv4 p mtu = frag4_loop p ?h (drop ?h p) ?m 0"
    using False by (simp add: FragmentIPv4_def go_simps Let_def hdr_len_def [symmetric])
  moreover have "frag4_valid (p, ?h, drop ?h p) ?m" "0 < ?m"
    using False by (auto simp: frag4_valid_def)
  ultimately show ?thesis
    using frag4.loop_pieces [of "(p, ?h, drop ?h p)" ?m 0] by auto
qed

lemma FragmentIPv6TCP_returns: "mtu \<le> 65575 \<Longrightarrow> \<exists>fs. FragmentIPv6TCP p mtu = Some fs"
proof (cases "length p < 60 \<or> drop_bit 4 (p ! 0) \<noteq> 6 \<or> p ! 6 \<noteq> IPPROTO_TCP \<or> int (length p) \<le> mtu
    \<or> length p \<le> 40 + tcp6_hdr_len p \<or> tcp6_hdr_len p < 20 \<or> mtu - int (40 + tcp6_hdr_len p) \<le> 0")
  case True
  then show ?thesis
    by (cases "p = []") (auto simp: FragmentIPv6TCP_def go_simps Let_def tcp6_hdr_len_def)
next
  case False
  assume mtu: "mtu \<le> 65575"
  let ?t = "tcp6_hdr_len p" and ?m = "nat (mtu - int (40 + tcp6_hdr_len p))"
  let ?c = "(p, ?t, drop (40 + ?t) p, be32 (p ! 44) (p ! 45) (p ! 46) (p ! 47), p ! 53)"
  have "p \<noteq> []"
    using False by auto
  then have "FragmentIPv6TCP p mtu
      = frag6_loop p ?t (drop (40 + ?t) p) (be32 (p ! 44) (p ! 45) (p ! 46) (p ! 47)) (p ! 53) ?m 0"
    using False by (simp add: FragmentIPv6TCP_def go_simps Let_def tcp6_hdr_len_def [symmetric])
  moreover have "frag6_valid ?c ?m" "0 < ?m"
    using False mtu by (auto simp: frag6_valid_def)
  ultimately show ?thesis
    using frag6.loop_pieces [of ?c ?m 0] by auto
qed

end
