(* ===== verification/Inspect.thy ===== *)
theory Inspect
  imports PacketParser
begin

text \<open>
  Recognition of the first bytes of a connection, \<open>internal/interceptor/packet_parser.go\<close>:
  \<open>IsHTTPOrHTTPS\<close>, \<open>ExtractTLS_SNI\<close> with its fallback scan, \<open>ExtractHTTPHost\<close> and
  \<open>cleanHostBytes\<close>.  The data come from the network, so every index is checked: \<open>None\<close> is a
  panic, and the lemmas show that no input causes one, that the server name of a well-formed
  ClientHello is found, and that the host of a well-formed HTTP request is.  Go's \<open>string(b)\<close> is \<open>str b\<close>.
\<close>

section \<open>Server name indication\<close>

text \<open>\<open>for sniPos+3 <= 2+listLen\<close>; the result is the name, if the loop returns one.\<close>

function sni_loop :: "byte list \<Rightarrow> nat \<Rightarrow> nat \<Rightarrow> string option option" where
  "sni_loop sniData listLen sniPos =
     (if sniPos + 3 \<le> 2 + listLen then do {
        nameType \<leftarrow> go_index sniData sniPos;
        w \<leftarrow> u16_at sniData (sniPos + 1) (sniPos + 3);
        let nameLen = unat w;
        let sniPos' = sniPos + 3;
        if sniPos' + nameLen > length sniData then Some None
        else if nameType = 0 then do {
          name \<leftarrow> go_slice sniData sniPos' (sniPos' + nameLen);
          Some (Some (str name))
        }
        else sni_loop sniData listLen (sniPos' + nameLen)
      } else Some None)"
  by pat_completeness auto
termination
  by (relation "measure (\<lambda>(_, listLen, sniPos). listLen + 2 - sniPos)") auto

declare sni_loop.simps [simp del]

text \<open>
  The body of \<open>if extType == 0\<close>: \<open>Inl ()\<close> is the \<open>break\<close> on a short extension, \<open>Inr\<close> the outcome
  of the loop over the names.
\<close>

definition sni_ext :: "byte list \<Rightarrow> (unit + string option) option" where
  "sni_ext sniData =
     (if length sniData < 2 then Some (Inl ())
      else do {
        l \<leftarrow> u16_at sniData 0 2;
        let listLen = (if length sniData < 2 + unat l then length sniData - 2 else unat l);
        r \<leftarrow> sni_loop sniData listLen 2;
        Some (Inr r)
      })"

text \<open>
  The loop over the extensions.  Its two \<open>break\<close>s leave it without a name, which is \<open>None\<close>;
  the caller then scans for the pattern.
\<close>

function ext_loop :: "byte list \<Rightarrow> nat \<Rightarrow> string option option" where
  "ext_loop extensions extPos =
     (if extPos + 4 \<le> length extensions then do {
        extType \<leftarrow> u16_at extensions extPos (extPos + 2);
        w \<leftarrow> u16_at extensions (extPos + 2) (extPos + 4);
        let extLen = unat w;
        let extPos' = extPos + 4;
        if extPos' + extLen > length extensions then Some None
        else if extType = 0 then do {
          sniData \<leftarrow> go_slice extensions extPos' (extPos' + extLen);
          r \<leftarrow> sni_ext sniData;
          case r of
            Inl _ \<Rightarrow> Some None
          | Inr (Some name) \<Rightarrow> Some (Some name)
          | Inr None \<Rightarrow> ext_loop extensions (extPos' + extLen)
        }
        else ext_loop extensions (extPos' + extLen)
      } else Some None)"
  by pat_completeness auto
termination
  by (relation "measure (\<lambda>(extensions, extPos). length extensions - extPos)") auto

declare ext_loop.simps [simp del]

definition hostname_char :: "char \<Rightarrow> bool" where
  "hostname_char c =
     (let n = of_char c :: nat
      in (97 \<le> n \<and> n \<le> 122) \<or> (65 \<le> n \<and> n \<le> 90) \<or> (48 \<le> n \<and> n \<le> 57)
         \<or> c = CHR ''.'' \<or> c = CHR ''-'')"

text \<open>
  Go's \<open>range\<close> over a string decodes UTF-8; a byte above 127 yields a rune outside the
  accepted set either way, so checking bytes is the same.
\<close>

definition isValidHostname :: "string \<Rightarrow> bool" where
  "isValidHostname h =
     (if length h < 3 \<or> length h > 253 \<or> \<not> Contains h ''.'' then False
      else list_all hostname_char h)"

text \<open>One position of the scan: the name, or \<open>None\<close> for \<open>continue\<close> (and for no match).\<close>

definition scan_at :: "byte list \<Rightarrow> nat \<Rightarrow> string option option" where
  "scan_at data i = do {
     b0 \<leftarrow> go_index data i;
     b1 \<leftarrow> go_index data (i + 1);
     if b0 = 0x00 \<and> b1 = 0x00 then do {
       w \<leftarrow> u16_at data (i + 2) (i + 4);
       let extLen = unat w;
       if extLen < 5 \<or> extLen > 512 \<or> i + 4 + extLen > length data then Some None
       else do {
         w \<leftarrow> u16_at data (i + 4) (i + 6);
         let listLen = unat w;
         if listLen + 2 > extLen \<or> i + 6 + listLen > length data then Some None
         else do {
           nameType \<leftarrow> go_index data (i + 6);
           if nameType \<noteq> 0 then Some None
           else do {
             w \<leftarrow> u16_at data (i + 7) (i + 9);
             let nameLen = unat w;
             if nameLen \<le> 0 \<or> nameLen > 253 \<or> i + 9 + nameLen > length data then Some None
             else do {
               name \<leftarrow> go_slice data (i + 9) (i + 9 + nameLen);
               let sni = str name;
               Some (if isValidHostname sni then Some sni else None)
             }
           }
         }
       }
     } else Some None
   }"

function scan_loop :: "byte list \<Rightarrow> nat \<Rightarrow> string option" where
  "scan_loop data i =
     (if i + 9 \<le> length data then do {
        r \<leftarrow> scan_at data i;
        case r of Some sni \<Rightarrow> Some sni | None \<Rightarrow> scan_loop data (i + 1)
      } else Some '''')"
  by pat_completeness auto
termination
  by (relation "measure (\<lambda>(data, i). length data - i)") auto

declare scan_loop.simps [simp del]

definition fallbackScanSNI :: "byte list \<Rightarrow> string option" where
  "fallbackScanSNI data = scan_loop data 0"

text \<open>\<open>int(payload[1])<<16 | int(payload[2])<<8 | int(payload[3])\<close>\<close>

definition uint24 :: "byte \<Rightarrow> byte \<Rightarrow> byte \<Rightarrow> nat" where
  "uint24 a b c = push_bit 16 (unat a) OR push_bit 8 (unat b) OR unat c"

text \<open>
  \<open>ExtractTLS_SNI\<close> up to \<open>ch\<close>, the ClientHello inside the handshake inside the record, each cut to
  the bytes that are there; \<open>Some None\<close> is an early \<open>return ""\<close>.
\<close>

definition client_hello :: "byte list \<Rightarrow> byte list option option" where
  "client_hello data =
     (if length data < 9 then Some None
      else do {
        b0 \<leftarrow> go_index data 0;
        if b0 \<noteq> 0x16 then Some None
        else do {
          w \<leftarrow> u16_at data 3 5;
          let recordLen = (if length data < 5 + unat w then length data - 5 else unat w);
          payload \<leftarrow> go_slice data 5 (5 + recordLen);
          if length payload < 4 then Some None
          else do {
            p0 \<leftarrow> go_index payload 0;
            if p0 \<noteq> 0x01 then Some None
            else do {
              p1 \<leftarrow> go_index payload 1;
              p2 \<leftarrow> go_index payload 2;
              p3 \<leftarrow> go_index payload 3;
              let n = uint24 p1 p2 p3;
              let handshakeLen = (if length payload < 4 + n then length payload - 4 else n);
              ch \<leftarrow> go_slice payload 4 (4 + handshakeLen);
              Some (Some ch)
            }
          }
        }
      })"

text \<open>
  From \<open>ch\<close> to its extensions: version and random, session id, cipher suites, compression
  methods, extensions; \<open>Some None\<close> is an early \<open>return ""\<close>.
\<close>

definition hello_extensions :: "byte list \<Rightarrow> byte list option option" where
  "hello_extensions ch =
     (if length ch < 35 then Some None
      else do {
        let pos = 34;
        b \<leftarrow> go_index ch pos;
        let pos = pos + 1 + unat b;
        if length ch < pos + 2 then Some None
        else do {
          w \<leftarrow> u16_at ch pos (pos + 2);
          let pos = pos + 2 + unat w;
          if length ch < pos + 1 then Some None
          else do {
            b \<leftarrow> go_index ch pos;
            let pos = pos + 1 + unat b;
            if length ch < pos + 2 then Some None
            else do {
              w \<leftarrow> u16_at ch pos (pos + 2);
              let pos = pos + 2;
              let extensionsLen = (if length ch < pos + unat w then length ch - pos else unat w);
              extensions \<leftarrow> go_slice ch pos (pos + extensionsLen);
              Some (Some extensions)
            }
          }
        }
      })"

definition ExtractTLS_SNI :: "byte list \<Rightarrow> string option" where
  "ExtractTLS_SNI data = do {
     r \<leftarrow> client_hello data;
     case r of
       None \<Rightarrow> Some ''''
     | Some ch \<Rightarrow> do {
         r \<leftarrow> hello_extensions ch;
         case r of
           None \<Rightarrow> Some ''''
         | Some extensions \<Rightarrow> do {
             r \<leftarrow> ext_loop extensions 0;
             case r of Some name \<Rightarrow> Some name | None \<Rightarrow> fallbackScanSNI data
           }
       }
   }"

section \<open>Host of an HTTP request\<close>

definition cleanHostBytes :: "unicode \<Rightarrow> string \<Rightarrow> string option" where
  "cleanHostBytes U h = do {
     let h = TrimSpace U h;
     let tail = (case LastIndexByte h CHR '':'' of
                   Some colonIdx \<Rightarrow> go_slice h 0 colonIdx
                 | None \<Rightarrow> Some h);
     if length h > 0 \<and> h ! 0 = CHR ''['' then
       (case IndexByte h CHR '']'' of
          Some closeIdx \<Rightarrow> go_slice h 1 closeIdx
        | None \<Rightarrow> tail)
     else tail
   }"

definition is_host_line :: "string \<Rightarrow> bool" where
  "is_host_line line =
     (length line \<ge> 5
      \<and> (line ! 0 = CHR ''h'' \<or> line ! 0 = CHR ''H'')
      \<and> (line ! 1 = CHR ''o'' \<or> line ! 1 = CHR ''O'')
      \<and> (line ! 2 = CHR ''s'' \<or> line ! 2 = CHR ''S'')
      \<and> (line ! 3 = CHR ''t'' \<or> line ! 3 = CHR ''T'')
      \<and> line ! 4 = CHR '':'')"

text \<open>
  The loop over the header lines: \<open>Some (Some host)\<close> returns from the function,
  \<open>Some None\<close> leaves the loop.
\<close>

function header_loop :: "unicode \<Rightarrow> string \<Rightarrow> string option option" where
  "header_loop U lines =
     (if lines = [] then Some None
      else if lines ! 0 = CHR 0x0A then header_loop U (drop 1 lines)
      else if length lines \<ge> 2 \<and> lines ! 0 = CHR 0x0D \<and> lines ! 1 = CHR 0x0A
      then header_loop U (drop 2 lines)
      else
        (let (line, rest) =
           (case IndexByte lines CHR 0x0A of
              None \<Rightarrow> (lines, [])
            | Some lineEnd \<Rightarrow> (take lineEnd lines, drop (lineEnd + 1) lines));
           line = TrimSpace U line
         in if length line = 0 then Some None
            else if is_host_line line then
              (case go_from line 5 of
                 None \<Rightarrow> None
               | Some v \<Rightarrow> map_option Some (cleanHostBytes U (TrimSpace U v)))
            else header_loop U rest))"
  by pat_completeness auto
termination
  by (relation "measure (\<lambda>(_, lines). length lines)") (auto split: option.splits)

declare header_loop.simps [simp del]

definition drop_cr :: "string \<Rightarrow> string" where
  "drop_cr s = (if length s > 0 \<and> s ! (length s - 1) = CHR 0x0D then take (length s - 1) s else s)"

definition ExtractHTTPHost :: "unicode \<Rightarrow> string \<Rightarrow> string option" where
  "ExtractHTTPHost U data =
     (if length data = 0 then Some ''''
      else do {
        let firstLineEnd = (case IndexByte data CHR 0x0A of None \<Rightarrow> length data | Some i \<Rightarrow> i);
        reqLine \<leftarrow> go_slice data 0 firstLineEnd;
        let reqLine = drop_cr reqLine;
        let parts = Fields U reqLine;
        if length parts < 2 then Some ''''
        else do {
          uri \<leftarrow> go_index parts 1;
          if HasPrefix uri ''http://'' \<or> HasPrefix uri ''https://'' then do {
            let idx = (case Index uri ''://'' of Some i \<Rightarrow> i + 3 | None \<Rightarrow> 2);
            afterProto \<leftarrow> go_from uri idx;
            let afterProto = (case IndexByte afterProto CHR ''/'' of
                                Some slashIdx \<Rightarrow> take slashIdx afterProto
                              | None \<Rightarrow> afterProto);
            cleanHostBytes U afterProto
          }
          else do {
            rest \<leftarrow> go_from data firstLineEnd;
            r \<leftarrow> header_loop U rest;
            case r of
              Some host \<Rightarrow> Some host
            | None \<Rightarrow> do {
                meth \<leftarrow> go_index parts 0;
                if length meth = 7 \<and> EqualFold U meth ''CONNECT'' \<and> length uri > 0
                then cleanHostBytes U uri else Some ''''
              }
          }
        }
      })"

section \<open>Protocol detection\<close>

definition http_methods :: "string list" where
  "http_methods = [''GET '', ''POST '', ''HEAD '', ''PUT '', ''DELETE '', ''CONNECT '',
     ''OPTIONS '', ''PATCH '', ''TRACE '', ''PRI * HTTP/2.0'']"

definition IsHTTPOrHTTPS :: "unicode \<Rightarrow> byte list \<Rightarrow> (bool \<times> string \<times> string) option" where
  "IsHTTPOrHTTPS U data =
     (if length data = 0 then Some (False, ''RAW_TCP'', '''')
      else if length data \<ge> 5 \<and> data ! 0 = 0x16 \<and> data ! 1 = 0x03 then do {
        sni \<leftarrow> ExtractTLS_SNI data;
        Some (True, ''HTTPS'', sni)
      }
      else if list_ex (HasPrefix (str data)) http_methods then do {
        host \<leftarrow> ExtractHTTPHost U (str data);
        Some (True, ''HTTP'', host)
      }
      else if length data \<ge> 6 \<and> data ! 0 = 0x03 \<and> data ! 1 = 0x00 \<and> (data ! 5 = 0xe0 \<or> data ! 5 = 0xd0)
      then Some (False, ''RDP'', '''')
      else if HasPrefix (str data) ''SSH-'' then Some (False, ''SSH'', '''')
      else if HasPrefix (str data) ''RFB '' then Some (False, ''VNC'', '''')
      else Some (False, ''RAW_TCP'', ''''))"

section \<open>No panics\<close>

lemma sni_loop_returns [returns_intros]:
  "listLen + 2 \<le> length sniData \<Longrightarrow> returns (sni_loop sniData listLen sniPos)"
proof (induction sniData listLen sniPos rule: sni_loop.induct)
  case (1 sniData listLen sniPos)
  then show ?case
    by (subst sni_loop.simps) (auto simp: Let_def intro!: returns_intros)
qed

lemma sni_ext_returns [returns_intros]: "returns (sni_ext sniData)"
  by (auto simp: sni_ext_def Let_def intro!: returns_intros)

lemma ext_loop_returns [returns_intros]: "returns (ext_loop extensions extPos)"
proof (induction extensions extPos rule: ext_loop.induct)
  case (1 extensions extPos)
  then show ?case
    by (subst ext_loop.simps) (auto simp: Let_def intro!: returns_intros split: sum.split option.split)
qed

lemma scan_at_returns [returns_intros]: "i + 9 \<le> length data \<Longrightarrow> returns (scan_at data i)"
  by (auto simp: scan_at_def Let_def intro!: returns_intros)

lemma scan_loop_returns [returns_intros]: "returns (scan_loop data i)"
proof (induction data i rule: scan_loop.induct)
  case (1 data i)
  then show ?case
    by (subst scan_loop.simps) (auto intro!: returns_intros split: option.split)
qed

lemma hello_extensions_returns [returns_intros]: "returns (hello_extensions ch)"
  by (auto simp: hello_extensions_def Let_def intro!: returns_intros)

lemma client_hello_returns [returns_intros]: "returns (client_hello data)"
  by (auto simp: client_hello_def Let_def intro!: returns_intros dest!: go_slice_length)

lemma ExtractTLS_SNI_returns [returns_intros]: "returns (ExtractTLS_SNI data)"
  by (auto simp: ExtractTLS_SNI_def fallbackScanSNI_def intro!: returns_intros split: option.split)

lemma cleanHostBytes_returns [returns_intros]: "returns (cleanHostBytes U h)"
proof -
  have "Suc 0 \<le> i" if "IndexByte (TrimSpace U h) CHR '']'' = Some i" "TrimSpace U h ! 0 = CHR ''[''" for i
    using that IndexByte_hd [of "TrimSpace U h"] by (cases i) auto
  then show ?thesis
    by (auto simp: cleanHostBytes_def Let_def intro!: returns_intros
        dest: LastIndexByte_Some_less IndexByte_Some_less split: option.split)
qed

lemma header_loop_returns [returns_intros]: "returns (header_loop U ls)"
proof (induction U ls rule: header_loop.induct)
  case (1 U ls)
  then show ?case
    by (subst header_loop.simps)
      (auto simp: Let_def is_host_line_def go_simps intro!: returns_intros split: option.split prod.split)
qed

lemma ExtractHTTPHost_returns [returns_intros]: "returns (ExtractHTTPHost U data)"
proof -
  define n where "n = (case IndexByte data CHR 0x0A of None \<Rightarrow> length data | Some i \<Rightarrow> i)"
  have "n \<le> length data"
    by (auto simp: n_def dest: IndexByte_Some_less split: option.splits)
  moreover have "2 \<le> length u" if "HasPrefix u ''http://''" for u
    using HasPrefix_length [OF that] by simp
  moreover have "2 \<le> length u" if "HasPrefix u ''https://''" for u
    using HasPrefix_length [OF that] by simp
  moreover have "i + 3 \<le> length u" if "Index u ''://'' = Some i" for u i
    using Index_Some [OF that] by simp
  ultimately show ?thesis
    unfolding ExtractHTTPHost_def Let_def n_def [symmetric]
    by (auto intro!: returns_intros simp: go_index_def split: option.split)
qed

lemma IsHTTPOrHTTPS_returns [returns_intros]: "returns (IsHTTPOrHTTPS U data)"
  by (auto simp: IsHTTPOrHTTPS_def intro!: returns_intros)

text \<open>
  No sequence of bytes makes the protocol detection panic: \<open>IsHTTPOrHTTPS\<close> returns for
  every input, through the TLS and the HTTP path alike.
\<close>

theorem IsHTTPOrHTTPS_total: "\<exists>r. IsHTTPOrHTTPS U data = Some r"
  by (rule returnsD) (rule IsHTTPOrHTTPS_returns)

section \<open>A well-formed ClientHello\<close>

definition u24b :: "nat \<Rightarrow> byte list" where
  "u24b n = of_nat (n div 65536) # u16b (n mod 65536)"

definition tls_ext :: "nat \<Rightarrow> byte list \<Rightarrow> byte list" where
  "tls_ext t d = u16b t @ u16b (length d) @ d"

definition sni_body :: "byte list \<Rightarrow> byte list" where
  "sni_body name = u16b (length name + 3) @ [0] @ u16b (length name) @ name"

definition hello_bytes :: "byte list \<Rightarrow> byte list \<Rightarrow> byte list \<Rightarrow> byte list \<Rightarrow> byte list \<Rightarrow> byte list" where
  "hello_bytes random sid suites comps exts =
     [3, 3] @ random @ [of_nat (length sid)] @ sid @ u16b (length suites) @ suites
     @ [of_nat (length comps)] @ comps @ u16b (length exts) @ exts"

definition hello_record :: "byte list \<Rightarrow> byte list" where
  "hello_record ch = [0x16, 3, 1] @ u16b (length ch + 4) @ [1] @ u24b (length ch) @ ch"

lemma length_u24b [simp]: "length (u24b n) = 3"
  by (simp add: u24b_def)

lemma sni_ext_body:
  assumes "length name < 65533"
  shows "sni_ext (sni_body name) = Some (Inr (Some (str name)))"
proof -
  have "u16_at (sni_body name) 0 2 = Some (of_nat (length name + 3))"
    "u16_at (sni_body name) 3 5 = Some (of_nat (length name))"
    "go_slice (sni_body name) 5 (5 + length name) = Some name"
    "go_index (sni_body name) 2 = Some 0"
    using u16_at_append [of 0 "[]" 2 "length name + 3" "[0] @ u16b (length name) @ name"]
      u16_at_append [of 3 "u16b (length name + 3) @ [0]" 5 "length name" name]
      go_slice_append [of 5 "u16b (length name + 3) @ [0] @ u16b (length name)" "5 + length name" name "[]"]
    by (simp_all add: sni_body_def go_index_def nth_append)
  moreover have "length (sni_body name) = 5 + length name"
    by (simp add: sni_body_def)
  ultimately have "sni_loop (sni_body name) (length name + 3) 2 = Some (Some (str name))"
    using assms by (subst sni_loop.simps) (simp add: unat_of_nat16)
  with \<open>u16_at (sni_body name) 0 2 = _\<close> \<open>length (sni_body name) = _\<close> assms show ?thesis
    by (simp add: sni_ext_def unat_of_nat16 del: of_nat_add)
qed

lemma ext_loop_skip:
  assumes "0 < t" "t < 65536" "length d < 65536"
  shows "ext_loop (pref @ tls_ext t d @ rest) (length pref)
    = ext_loop (pref @ tls_ext t d @ rest) (length (pref @ tls_ext t d))"
proof -
  have "(of_nat t :: uint16) \<noteq> 0"
    using assms unat_of_nat16 [of t] by (metis less_numeral_extra(3) unat_0)
  moreover have "length (pref @ tls_ext t d) = length pref + 4 + length d"
    by (simp add: tls_ext_def)
  ultimately show ?thesis
    using u16_at_append [of "length pref" pref "length pref + 2" t "u16b (length d) @ d @ rest"]
      u16_at_append [of "length pref + 2" "pref @ u16b t" "length pref + 4" "length d" "d @ rest"] assms
    by (simp only:, subst ext_loop.simps) (simp add: tls_ext_def unat_of_nat16)
qed

lemma ext_loop_name:
  assumes "length name < 65530" "\<forall>(t, d) \<in> set pre. 0 < t \<and> t < 65536 \<and> length d < 65536"
  shows "ext_loop (pref @ concat (map (\<lambda>(t, d). tls_ext t d) pre) @ tls_ext 0 (sni_body name) @ post) (length pref)
    = Some (Some (str name))"
  using assms(2)
proof (induction pre arbitrary: pref)
  case Nil
  have l: "length (sni_body name) < 65536" "length name < 65533"
    using assms(1) by (simp_all add: sni_body_def)
  show ?case
    using u16_at_append [of "length pref" pref "length pref + 2" 0 "u16b (length (sni_body name)) @ sni_body name @ post"]
      u16_at_append [of "length pref + 2" "pref @ u16b 0" "length pref + 4" "length (sni_body name)" "sni_body name @ post"]
      go_slice_append [of "length pref + 4" "pref @ u16b 0 @ u16b (length (sni_body name))"
         "length pref + 4 + length (sni_body name)" "sni_body name" post]
    by (subst ext_loop.simps) (simp add: tls_ext_def unat_of_nat16 l sni_ext_body)
next
  case (Cons e pre)
  obtain t d where e: "e = (t, d)" and t: "0 < t" "t < 65536" "length d < 65536"
    using Cons.prems by (cases e) auto
  let ?rest = "concat (map (\<lambda>(t, d). tls_ext t d) pre) @ tls_ext 0 (sni_body name) @ post"
  have "ext_loop ((pref @ tls_ext t d) @ ?rest) (length (pref @ tls_ext t d)) = Some (Some (str name))"
    using Cons.prems by (intro Cons.IH) simp
  then show ?case
    using ext_loop_skip [OF t, of pref ?rest] by (simp add: e)
qed

lemma hello_extensions_bytes:
  assumes "length random = 32" "length sid < 256" "length suites < 65536" "length comps < 256"
    and "length exts < 65536"
  shows "hello_extensions (hello_bytes random sid suites comps exts) = Some (Some exts)"
proof -
  define ch where "ch = hello_bytes random sid suites comps exts"
  define p1 where "p1 = 35 + length sid"
  define p2 where "p2 = p1 + 2 + length suites"
  define p3 where "p3 = p2 + 1 + length comps"
  have l: "length ch = p3 + 2 + length exts"
    using assms(1) by (simp add: ch_def hello_bytes_def p1_def p2_def p3_def)
  have r: "go_index ch 34 = Some (of_nat (length sid))" "u16_at ch p1 (p1 + 2) = Some (of_nat (length suites))"
    "go_index ch p2 = Some (of_nat (length comps))" "u16_at ch p3 (p3 + 2) = Some (of_nat (length exts))"
    "go_slice ch (p3 + 2) (p3 + 2 + length exts) = Some exts"
    using assms(1)
      go_index_append [of 34 "[3, 3] @ random"]
      u16_at_append [of p1 "[3, 3] @ random @ [of_nat (length sid)] @ sid" "p1 + 2"]
      go_index_append [of p2 "[3, 3] @ random @ [of_nat (length sid)] @ sid @ u16b (length suites) @ suites"]
      u16_at_append [of p3 "[3, 3] @ random @ [of_nat (length sid)] @ sid @ u16b (length suites) @ suites
         @ [of_nat (length comps)] @ comps" "p3 + 2"]
      go_slice_append [of "p3 + 2" "[3, 3] @ random @ [of_nat (length sid)] @ sid @ u16b (length suites) @ suites
         @ [of_nat (length comps)] @ comps @ u16b (length exts)" "p3 + 2 + length exts" exts "[]"]
    by (simp_all add: ch_def hello_bytes_def p1_def p2_def p3_def)
  have u: "unat (of_nat (length sid) :: byte) = length sid" "unat (of_nat (length comps) :: byte) = length comps"
    "unat (of_nat (length suites) :: uint16) = length suites" "unat (of_nat (length exts) :: uint16) = length exts"
    using assms by (simp_all add: unat_of_nat8 unat_of_nat16)
  have pos: "34 + 1 + length sid = p1" "p1 + 2 + length suites = p2" "p2 + 1 + length comps = p3"
    by (simp_all add: p1_def p2_def p3_def)
  have c: "\<not> length ch < 35" "\<not> length ch < p1 + 2" "\<not> length ch < p2 + 1" "\<not> length ch < p3 + 2"
    "\<not> length ch < p3 + 2 + length exts"
    by (simp_all add: l p1_def p2_def p3_def)
  have "hello_extensions ch = Some (Some exts)"
    by (simp only: hello_extensions_def Let_def r u pos c if_False Option.bind.simps)
  then show ?thesis
    by (simp only: ch_def)
qed

lemma uint24_sum: "uint24 a b c = unat a * 65536 + unat (be16 b c)"
proof -
  have "push_bit 8 (unat b) OR unat c = unat (be16 b c)"
    by (subst disjunctive_add [symmetric]) (auto simp: bit_simps, simp add: push_bit_eq_mult unat_be16)
  moreover have "push_bit 16 (unat a) OR unat (be16 b c) = unat a * 65536 + unat (be16 b c)"
    by (subst disjunctive_add [symmetric]) (auto simp: bit_simps, simp add: push_bit_eq_mult)
  ultimately show ?thesis
    by (simp add: uint24_def or.assoc)
qed

lemma client_hello_record:
  assumes "length ch < 65532"
  shows "client_hello (hello_record ch @ rest) = Some (Some ch)"
proof -
  define payload where "payload = [1] @ u24b (length ch) @ ch"
  have u: "unat (of_nat (length ch + 4) :: uint16) = length ch + 4"
    using assms by (intro unat_of_nat16) simp
  have "u16_at (hello_record ch @ rest) 3 5 = Some (of_nat (length ch + 4))"
    "go_slice (hello_record ch @ rest) 5 (5 + (length ch + 4)) = Some payload"
    using u16_at_append [of 3 "[0x16, 3, 1]" 5 "length ch + 4" "[1] @ u24b (length ch) @ ch @ rest"]
      go_slice_append [of 5 "[0x16, 3, 1] @ u16b (length ch + 4)" "5 + (length ch + 4)" payload rest]
    by (simp_all add: hello_record_def payload_def)
  moreover have "uint24 (payload ! 1) (payload ! 2) (payload ! 3) = length ch"
    using assms by (simp add: payload_def u24b_def uint24_sum unat_of_nat16 nth_append)
  moreover have "go_slice payload 4 (4 + length ch) = Some ch"
    using go_slice_append [of 4 "[1] @ u24b (length ch)" "4 + length ch" ch "[]"] by (simp add: payload_def)
  moreover have "length payload = length ch + 4" "payload ! 0 = 1"
    by (simp_all add: payload_def)
  moreover have "length (hello_record ch @ rest) = length ch + 9 + length rest"
    "go_index (hello_record ch @ rest) 0 = Some 0x16"
    by (simp_all add: hello_record_def go_index_def)
  ultimately show ?thesis
    using u by (simp add: client_hello_def go_index_def del: of_nat_add)
qed



section \<open>A well-formed HTTP request\<close>

definition crlf :: string where
  "crlf = [CHR 0x0D, CHR 0x0A]"

definition word_ok :: "string \<Rightarrow> bool" where
  "word_ok w \<longleftrightarrow> w \<noteq> [] \<and> ascii w \<and> list_all (\<lambda>c. \<not> is_space c) w"

text \<open>A header line other than \<open>Host\<close>, as it may stand before it.\<close>

definition header_ok :: "string \<Rightarrow> bool" where
  "header_ok l \<longleftrightarrow> l \<noteq> [] \<and> ascii l \<and> CHR 0x0A \<notin> set l \<and> \<not> is_space (hd l)
     \<and> \<not> is_host_line (trim_with is_space l)"

definition host_value :: "string \<Rightarrow> string \<Rightarrow> string" where
  "host_value name port = (if port = [] then name else name @ '':'' @ port)"

lemma not_space_LF: "list_all (\<lambda>c. \<not> is_space c) w \<Longrightarrow> CHR 0x0A \<notin> set w"
  by (auto simp: list_all_iff)

lemma Fields_request:
  assumes "word_ok a" "word_ok b" "word_ok c"
  shows "Fields U (a @ '' '' @ b @ '' '' @ c) = [a, b, c]"
  using assms fields_acc_word [of a "[]" "'' '' @ b @ '' '' @ c"] fields_acc_word [of b "[]" "'' '' @ c"]
    fields_acc_word [of c "[]" "[]"]
  by (simp add: Fields_def word_ok_def)

lemma header_loop_skip:
  assumes "header_ok l"
  shows "header_loop U (l @ crlf @ rest) = header_loop U rest"
proof -
  have l: "l \<noteq> []" "\<not> is_space (hd l)" "hd l \<noteq> CHR 0x0A" "hd l \<noteq> CHR 0x0D" "ascii l"
    using assms by (auto simp: header_ok_def)
  have i: "IndexByte (l @ crlf @ rest) CHR 0x0A = Some (length l + 1)"
    using IndexByte_append [of "CHR 0x0A" "l @ [CHR 0x0D]" rest] assms by (simp add: crlf_def header_ok_def)
  have t: "take (length l + 1) (l @ crlf @ rest) = l @ [CHR 0x0D]" "drop (length l + 1 + 1) (l @ crlf @ rest) = rest"
    by (simp_all add: crlf_def)
  have "TrimSpace U (l @ [CHR 0x0D]) = trim_with is_space l"
    using l by (simp add: TrimSpace_def trim_with_snoc)
  moreover have "trim_with is_space l \<noteq> []"
    using l by (simp add: trim_with_not_Nil)
  moreover have "(l @ crlf @ rest) ! 0 = hd l"
    using l by (simp add: hd_conv_nth nth_append)
  moreover have "\<not> is_host_line (trim_with is_space l)" "l @ crlf @ rest \<noteq> []"
    using assms by (simp_all add: header_ok_def)
  ultimately show ?thesis
    by (subst header_loop.simps)
      (simp only: i t l(3,4) option.case prod.case Let_def if_False simp_thms length_0_conv)
qed

lemma cleanHostBytes_value:
  assumes "word_ok name" "list_all (\<lambda>c. c \<noteq> CHR '':'' \<and> c \<noteq> CHR ''['') name"
    and "port = [] \<or> word_ok port" "CHR '':'' \<notin> set port"
  shows "cleanHostBytes U (host_value name port) = Some name"
proof -
  let ?v = "host_value name port"
  have n: "name \<noteq> []" "ascii name" "\<not> is_space (hd name)" "\<not> is_space (last name)"
    "hd name \<noteq> CHR ''[''" "CHR '':'' \<notin> set name"
    using assms(1,2) by (auto simp: word_ok_def list_all_iff)
  have p: "port = [] \<or> \<not> is_space (last port) \<and> ascii port"
    using assms(3) by (auto simp: word_ok_def list_all_iff)
  have v: "TrimSpace U ?v = ?v"
    using n p by (auto simp: host_value_def TrimSpace_def intro!: trim_with_id)
  have h: "?v ! 0 \<noteq> CHR ''[''"
    using n by (cases name) (auto simp: host_value_def)
  show ?thesis
    using v h n assms(4) LastIndexByte_append [of "CHR '':''" port name] LastIndexByte_None [of name "CHR '':''"]
    by (auto simp: cleanHostBytes_def Let_def host_value_def go_simps field_def)
qed

lemma header_loop_host:
  assumes "word_ok name" "list_all (\<lambda>c. c \<noteq> CHR '':'' \<and> c \<noteq> CHR ''['') name"
    and "port = [] \<or> word_ok port" "CHR '':'' \<notin> set port"
  shows "header_loop U (''Host: '' @ host_value name port @ crlf @ rest) = Some (Some name)"
proof -
  let ?v = "host_value name port" and ?l = "''Host: '' @ host_value name port"
  have v: "?v \<noteq> []" "ascii ?v" "\<not> is_space (hd ?v)" "\<not> is_space (last ?v)" "CHR 0x0A \<notin> set ?v"
    using assms(1,3) by (auto simp: word_ok_def list_all_iff host_value_def ascii_def)
  have i: "IndexByte (?l @ crlf @ rest) CHR 0x0A = Some (length ?l + 1)"
    using IndexByte_append [of "CHR 0x0A" "?l @ [CHR 0x0D]" rest] v by (simp add: crlf_def)
  have t: "take (length ?l + 1) (?l @ crlf @ rest) = ?l @ [CHR 0x0D]"
    by (simp add: crlf_def)
  have "ascii ''Host: ''"
    by code_simp
  then have l: "TrimSpace U (?l @ [CHR 0x0D]) = ?l"
    using v trim_with_snoc [of is_space "CHR 0x0D" ?l] trim_with_id [of ?l is_space]
    by (simp add: TrimSpace_def is_space_def)
  have s: "TrimSpace U ('' '' @ ?v) = ?v"
    using v trim_with_id [of ?v is_space] by (simp add: TrimSpace_def trim_with_def)
  have g: "go_from ?l 5 = Some ('' '' @ ?v)"
    by (simp add: go_from_def)
  have m: "is_host_line ?l" "(?l @ crlf @ rest) ! 0 = CHR ''H''" "?l @ crlf @ rest \<noteq> []" "length ?l \<noteq> 0"
    by (simp_all add: is_host_line_def)
  have "header_loop U (?l @ crlf @ rest) = map_option Some (cleanHostBytes U (TrimSpace U ('' '' @ ?v)))"
    by (subst header_loop.simps)
      (simp only: i t l m g option.case prod.case Let_def if_True if_False, simp)
  then show ?thesis
    using cleanHostBytes_value [OF assms] by (simp only: s append_assoc option.map)
qed

text \<open>
  From any well-formed HTTP request with an origin-form target the host is extracted from its \<open>Host\<close>
  header, with the port removed, whatever other header lines stand before it and whatever follows.
\<close>

theorem ExtractHTTPHost_request:
  assumes "word_ok meth" "word_ok target" "word_ok version"
    and "\<not> HasPrefix target ''http://''" "\<not> HasPrefix target ''https://''"
    and "list_all header_ok headers"
    and "word_ok name" "list_all (\<lambda>c. c \<noteq> CHR '':'' \<and> c \<noteq> CHR ''['') name"
    and "port = [] \<or> word_ok port" "CHR '':'' \<notin> set port"
  shows "ExtractHTTPHost U (meth @ '' '' @ target @ '' '' @ version @ crlf
      @ concat (map (\<lambda>l. l @ crlf) headers) @ ''Host: '' @ host_value name port @ crlf @ rest) = Some name"
proof -
  define req where "req = meth @ '' '' @ target @ '' '' @ version"
  let ?tail = "concat (map (\<lambda>l. l @ crlf) headers) @ ''Host: '' @ host_value name port @ crlf @ rest"
  let ?n = "length req + 1"
  have i: "IndexByte (req @ crlf @ ?tail) CHR 0x0A = Some ?n"
    using IndexByte_append [of "CHR 0x0A" "req @ [CHR 0x0D]" ?tail] assms(1-3)
    by (simp add: crlf_def word_ok_def not_space_LF req_def)
  have s: "go_slice (req @ crlf @ ?tail) 0 ?n = Some (req @ [CHR 0x0D])"
    "go_from (req @ crlf @ ?tail) ?n = Some (CHR 0x0A # ?tail)"
    by (simp_all add: go_slice_def go_from_def crlf_def)
  have d: "drop_cr (req @ [CHR 0x0D]) = req"
    by (simp add: drop_cr_def nth_append)
  have "header_loop U (CHR 0x0A # ?tail) = header_loop U ?tail"
    by (subst header_loop.simps) simp
  also have "\<dots> = header_loop U (''Host: '' @ host_value name port @ crlf @ rest)"
    using assms(6) by (induction headers) (simp_all add: header_loop_skip)
  also have "\<dots> = Some (Some name)"
    by (rule header_loop_host [OF assms(7-10)])
  finally have "header_loop U (CHR 0x0A # ?tail) = Some (Some name)" .
  moreover have "Fields U req = [meth, target, version]"
    unfolding req_def by (rule Fields_request [OF assms(1-3)])
  ultimately have "ExtractHTTPHost U (req @ crlf @ ?tail) = Some name"
    using assms(4,5)
    by (simp only: ExtractHTTPHost_def Let_def i s d option.case Option.bind.simps)
      (simp add: go_index_def crlf_def)
  then show ?thesis
    by (simp add: req_def)
qed

theorem ExtractHTTPHost_request_witness:
  "\<forall>U. ExtractHTTPHost U (''GET'' @ '' '' @ ''/index.html'' @ '' '' @ ''HTTP/1.1'' @ crlf
      @ concat (map (\<lambda>l. l @ crlf) [''Accept: */*'']) @ ''Host: '' @ host_value ''example.com'' ''8080'' @ crlf @ crlf)
    = Some ''example.com''"
  by (intro allI, rule ExtractHTTPHost_request) code_simp+

end
