(* ===== verification/Redirector.thy ===== *)
theory Redirector
  imports Sessions UdpFlow Rewrite Fragment Inspect
begin

text \<open>
  The Windows packet redirector, \<open>internal/interceptor/redirector.go\<close>, with the address structure of
  \<open>internal/interceptor/windivert_types.go\<close>.  The WinDivert driver is a parameter: \<open>dv_send\<close> tells whether
  \<open>Send\<close> succeeds for a packet, \<open>dv_calc\<close> is what \<open>CalcChecksums\<close> makes of a packet and its address.

  One packet is one step \<open>packet_step\<close>, the body of the loop in \<open>packetLoop\<close> after \<open>Recv\<close>: it gives the new state and
  the list of effects, in order.  A step is \<open>None\<close> where the Go code would panic.  A branch that ends with
  \<open>continue\<close> gives \<open>Some (Some ...)\<close>; \<open>Some None\<close> falls through to the reinjection at the end of the
  loop body.  The clock of the ticker goroutine is the field \<open>coarseNano\<close>; \<open>now\<close> is \<open>time.Now()\<close> in nanoseconds.
\<close>

section \<open>Driver interface\<close>

record WinDivertAddress =
  wa_Timestamp :: int
  wa_Layer :: uint8
  wa_Event :: uint8
  wa_Flags :: uint16
  wa_Reserved1 :: uint32
  wa_IfIdx :: uint32
  wa_SubIfIdx :: uint32
  wa_Data :: "byte list"

definition FLAG_OUTBOUND :: uint16 where "FLAG_OUTBOUND = 0x02"
definition FLAG_LOOPBACK :: uint16 where "FLAG_LOOPBACK = 0x04"
definition FLAG_IMPOSTOR :: uint16 where "FLAG_IMPOSTOR = 0x08"
definition FLAG_IPV6 :: uint16 where "FLAG_IPV6 = 0x10"
definition FLAG_IP_CHECKSUM :: uint16 where "FLAG_IP_CHECKSUM = 0x20"
definition FLAG_TCP_CHECKSUM :: uint16 where "FLAG_TCP_CHECKSUM = 0x40"
definition FLAG_UDP_CHECKSUM :: uint16 where "FLAG_UDP_CHECKSUM = 0x80"

definition set_flag :: "uint16 \<Rightarrow> WinDivertAddress \<Rightarrow> WinDivertAddress" where
  "set_flag f addr = addr\<lparr>wa_Flags := wa_Flags addr OR f\<rparr>"

definition clear_flag :: "uint16 \<Rightarrow> WinDivertAddress \<Rightarrow> WinDivertAddress" where
  "clear_flag f addr = addr\<lparr>wa_Flags := wa_Flags addr AND NOT f\<rparr>"

definition IsOutbound :: "WinDivertAddress \<Rightarrow> bool" where
  "IsOutbound addr = (wa_Flags addr AND FLAG_OUTBOUND \<noteq> 0)"

definition addr_IsLoopback :: "WinDivertAddress \<Rightarrow> bool" where
  "addr_IsLoopback addr = (wa_Flags addr AND FLAG_LOOPBACK \<noteq> 0)"

definition IsIPv6 :: "WinDivertAddress \<Rightarrow> bool" where
  "IsIPv6 addr = (wa_Flags addr AND FLAG_IPV6 \<noteq> 0)"

definition SetOutbound :: "bool \<Rightarrow> WinDivertAddress \<Rightarrow> WinDivertAddress" where
  "SetOutbound outbound addr = (if outbound then set_flag FLAG_OUTBOUND addr else clear_flag FLAG_OUTBOUND addr)"

record divert =
  dv_send :: "byte list \<Rightarrow> WinDivertAddress \<Rightarrow> bool"
  dv_calc :: "byte list \<Rightarrow> WinDivertAddress \<Rightarrow> byte list \<times> WinDivertAddress"

section \<open>State\<close>

record dryRunSessionInfo =
  dr_Domain :: string
  dr_LastSeen :: int

record dnsTask =
  dt_clientAddr :: net_addr
  dt_targetIP :: netIP
  dt_srcPort :: uint16
  dt_dstPort :: uint16
  dt_isIPv6 :: bool
  dt_payload :: "byte list"
  dt_rawPacket :: "byte list"
  dt_origAddr :: WinDivertAddress

type_synonym filter_evaluator = "string \<Rightarrow> bool"
type_synonym routing_evaluator = "string \<Rightarrow> uint16 \<Rightarrow> string + bool \<times> string"

text \<open>\<open>ProcessDNSQuery\<close> as the redirector sees it: response and \<open>passthrough\<close>, or a panic.\<close>

type_synonym dns_evaluator = "netIP \<Rightarrow> byte list \<Rightarrow> (byte list option \<times> bool) option"

record Redirector =
  rd_handle :: "nat option"
  rd_filterStr :: string
  rd_localProxyPort :: uint16
  rd_localProxyIP :: netIP
  rd_sessions :: sessions
  rd_dryRunSessions :: "SessionKey \<Rightarrow> dryRunSessionInfo option"
  rd_dryRun :: bool
  rd_sniffMode :: bool
  rd_filterEng :: "filter_evaluator option"
  rd_routingEng :: "routing_evaluator option"
  rd_dnsEng :: "dns_evaluator option"
  rd_savedDNSEng :: "dns_evaluator option"
  rd_coarseNano :: int
  rd_dnsQueue :: "dnsTask list"
  rd_filterUDP :: bool
  rd_udpFlowTable :: UDPFlowTable
  rd_closed :: bool

text \<open>Audit lines of the dry run: protocol, client, target, and \<open>None\<close> for a block or the upstream.\<close>

datatype effect =
  SendPacket "byte list" WinDivertAddress
| SpawnDNS dnsTask
| LogUDP bool string string
| LogDryRun string string string "string option"

section \<open>Construction and settings\<close>

text \<open>\<open>fmt.Sscanf(s, "%d", &port)\<close> into a \<open>uint16\<close>: blanks, then the longest run of digits, in range.\<close>

definition Sscanf_uint16 :: "string \<Rightarrow> uint16 option" where
  "Sscanf_uint16 s =
     (let digits = takeWhile is_digit (dropWhile (\<lambda>c. is_space c \<and> c \<noteq> CHR 0x0A) s)
      in if digits = [] \<or> dec_val 0 digits > 65535 then None else Some (of_nat (dec_val 0 digits)))"

definition NewRedirector :: "string option \<Rightarrow> int \<Rightarrow> string \<Rightarrow> string \<Rightarrow> string + Redirector" where
  "NewRedirector dllErr now localListenAddr customFilter =
     (case dllErr of
        Some err \<Rightarrow> Inl err
      | None \<Rightarrow>
          (case SplitHostPort localListenAddr of
             None \<Rightarrow> Inl (''invalid listen address '' @ localListenAddr)
           | Some (host, portStr) \<Rightarrow>
               (case Sscanf_uint16 portStr of
                  None \<Rightarrow> Inl (''invalid listen port in '' @ localListenAddr)
                | Some port \<Rightarrow>
                    if port = 0 then Inl (''invalid listen port in '' @ localListenAddr)
                    else
                      let ip = (if host \<noteq> '''' \<and> host \<noteq> ''0.0.0.0'' \<and> host \<noteq> ''::'' then
                                  (case ParseIP host of
                                     Some parsed \<Rightarrow> if \<not> IsLoopback parsed then parsed else []
                                   | None \<Rightarrow> [])
                                else []);
                          filterStr = (if customFilter \<noteq> '''' then customFilter
                            else ''((outbound and tcp and !loopback) or (outbound and tcp and tcp.SrcPort == ''
                              @ Itoa (unat port) @ '') or (outbound and udp and udp.DstPort == 443 and !loopback))'')
                      in Inr \<lparr>rd_handle = None, rd_filterStr = filterStr, rd_localProxyPort = port, rd_localProxyIP = ip,
                           rd_sessions = (\<lambda>_. None), rd_dryRunSessions = (\<lambda>_. None), rd_dryRun = False,
                           rd_sniffMode = False, rd_filterEng = None, rd_routingEng = None, rd_dnsEng = None,
                           rd_savedDNSEng = None, rd_coarseNano = now, rd_dnsQueue = [], rd_filterUDP = False,
                           rd_udpFlowTable = NewUDPFlowTable 60, rd_closed = False\<rparr>)))"

definition SetUDPFilter :: "bool \<Rightarrow> filter_evaluator option \<Rightarrow> Redirector \<Rightarrow> Redirector" where
  "SetUDPFilter filterUDP filterEng r =
     (let r = r\<lparr>rd_filterUDP := filterUDP\<rparr>
      in if filterEng \<noteq> None then r\<lparr>rd_filterEng := filterEng\<rparr> else r)"

definition SetDryRun ::
  "bool \<Rightarrow> string \<Rightarrow> filter_evaluator option \<Rightarrow> routing_evaluator option \<Rightarrow> Redirector \<Rightarrow> Redirector" where
  "SetDryRun dryRun forwardCond filterEng routingEng r =
     (let r = r\<lparr>rd_dryRun := dryRun, rd_filterEng := filterEng, rd_routingEng := routingEng\<rparr>
      in if dryRun then
           r\<lparr>rd_filterStr := (if forwardCond \<noteq> '''' then forwardCond else ''outbound and tcp and !loopback'')\<rparr>
         else r)"

definition SetDNSEngine :: "dns_evaluator option \<Rightarrow> Redirector \<Rightarrow> Redirector" where
  "SetDNSEngine dnsEng r = r\<lparr>rd_dnsEng := dnsEng, rd_savedDNSEng := dnsEng\<rparr>"

definition SetDNSServers :: "string list \<Rightarrow> Redirector \<Rightarrow> Redirector" where
  "SetDNSServers dnsServers r =
     (if length dnsServers > 0 then r\<lparr>rd_dnsEng := None\<rparr> else r\<lparr>rd_dnsEng := rd_savedDNSEng r\<rparr>)"

text \<open>\<open>Start\<close> up to the goroutines; \<open>dll_Open\<close> is \<open>r.dll.Open\<close> for a filter and flags.\<close>

definition rd_Start :: "(string \<Rightarrow> nat \<Rightarrow> string + nat) \<Rightarrow> int \<Rightarrow> Redirector \<Rightarrow> Redirector \<times> string option" where
  "rd_Start dll_Open now r =
     (if rd_closed r then (r, Some ''redirector already closed'')
      else
        let flags = (if rd_dryRun r then 0x0001 else 0);
            r = (if rd_dryRun r then r\<lparr>rd_sniffMode := True\<rparr> else r)
        in case dll_Open (rd_filterStr r) flags of
             Inl err \<Rightarrow> (r, Some (''failed to open WinDivert handle (Layer 0): '' @ err))
           | Inr handle \<Rightarrow> (r\<lparr>rd_handle := Some handle, rd_coarseNano := now\<rparr>, None))"

definition rd_Close :: "(nat \<Rightarrow> string option) \<Rightarrow> Redirector \<Rightarrow> Redirector \<times> string option" where
  "rd_Close dll_Close r =
     (if rd_closed r then (r, None)
      else
        let r = r\<lparr>rd_closed := True\<rparr>
        in case rd_handle r of
             None \<Rightarrow> (r, None)
           | Some handle \<Rightarrow> (r\<lparr>rd_handle := None\<rparr>, dll_Close handle))"

section \<open>Dry run\<close>

definition handleDryRunTCP ::
  "unicode \<Rightarrow> int \<Rightarrow> SessionKey \<Rightarrow> netIP \<Rightarrow> uint16 \<Rightarrow> byte list \<Rightarrow> Redirector \<Rightarrow> (Redirector \<times> effect list) option" where
  "handleDryRunTCP U now clientKey dstIP dstPort payload r = do {
     (isWeb, protoType, targetDomain) \<leftarrow> IsHTTPOrHTTPS U payload;
     let logged = rd_dryRunSessions r clientKey;
     let exists' = (logged \<noteq> None);
     let prevLoggedDomain = (case logged of Some info \<Rightarrow> dr_Domain info | None \<Rightarrow> '''');
     let r = (case logged of
                Some info \<Rightarrow> r\<lparr>rd_dryRunSessions := (rd_dryRunSessions r)(clientKey \<mapsto> info\<lparr>dr_LastSeen := now\<rparr>)\<rparr>
              | None \<Rightarrow> r);
     let shouldLog = (if targetDomain \<noteq> '''' then prevLoggedDomain \<noteq> targetDomain else \<not> exists');
     if \<not> shouldLog then Some (r, [])
     else do {
       let r = r\<lparr>rd_dryRunSessions :=
         (rd_dryRunSessions r)(clientKey \<mapsto> \<lparr>dr_Domain = targetDomain, dr_LastSeen = now\<rparr>)\<rparr>;
       let targetHostToCheck = (if targetDomain = '''' then IP_String dstIP else targetDomain);
       let shouldBlock = (case rd_filterEng r of Some blocks \<Rightarrow> blocks targetHostToCheck | None \<Rightarrow> False);
       let targetAddrStr = (if To4 dstIP \<noteq> None then IP_String dstIP @ '':'' @ Itoa (unat dstPort)
         else ''['' @ IP_String dstIP @ '']:'' @ Itoa (unat dstPort));
       let targetDisplay = (if targetDomain \<noteq> '''' then targetDomain @ '':'' @ Itoa (unat dstPort) else targetAddrStr);
       let clientDisplay = DisplayString clientKey;
       if shouldBlock then Some (r, [LogDryRun protoType clientDisplay targetDisplay None])
       else do {
         let upstreamInfo = (case rd_routingEng r of
             Some resolve \<Rightarrow>
               if isWeb then
                 (case resolve targetHostToCheck dstPort of
                    Inr (isDirect, proxyURL) \<Rightarrow>
                      if \<not> isDirect \<and> proxyURL \<noteq> '''' then ''PROXY ('' @ proxyURL @ '')'' else ''DIRECT''
                  | Inl _ \<Rightarrow> ''DIRECT'')
               else ''DIRECT''
           | None \<Rightarrow> ''DIRECT'');
         Some (r, [LogDryRun protoType clientDisplay targetDisplay (Some upstreamInfo)])
       }
     }
   }"

text \<open>The dry-run block of the packet loop.\<close>

definition dry_run_tcp ::
  "unicode \<Rightarrow> int \<Rightarrow> byte list \<Rightarrow> WinDivertAddress \<Rightarrow> SessionKey \<Rightarrow> netIP \<Rightarrow> uint16 \<Rightarrow> nat \<Rightarrow> Redirector
    \<Rightarrow> (Redirector \<times> effect list) option" where
  "dry_run_tcp U now raw addr clientKey dstIP dstPort payloadOffset r = do {
     payload \<leftarrow> (if length raw > payloadOffset then go_from raw payloadOffset else Some []);
     (r, logs) \<leftarrow> handleDryRunTCP U now clientKey dstIP dstPort payload r;
     Some (r, logs @ (if \<not> rd_sniffMode r then [SendPacket raw addr] else []))
   }"

section \<open>Network address translation\<close>

definition net_IPv4 :: "byte list \<Rightarrow> netIP" where
  "net_IPv4 b = IPv4 (b ! 0) (b ! 1) (b ! 2) (b ! 3)"

definition TCP_SYN :: byte where "TCP_SYN = 2"
definition TCP_ACK :: byte where "TCP_ACK = 16"

text \<open>The session of a forward packet: kept, renewed or new.\<close>

definition forward_session ::
  "int \<Rightarrow> int \<Rightarrow> WinDivertAddress \<Rightarrow> SessionKey \<Rightarrow> netIP \<Rightarrow> uint16 \<Rightarrow> uint8 \<Rightarrow> sessions \<Rightarrow> sessions" where
  "forward_session now nowNano addr clientKey dstNetIP dstPort tcpFlags t =
     (let fresh = \<lparr>OriginalDstIP = dstNetIP, OriginalDstPort = dstPort, IfIdx = wa_IfIdx addr,
            SubIfIdx = wa_SubIfIdx addr, CreatedAt = now, LastSeen = nowNano\<rparr>
      in case t clientKey of
           Some existing \<Rightarrow>
             if (tcpFlags AND TCP_SYN \<noteq> 0 \<and> tcpFlags AND TCP_ACK = 0) \<or> \<not> IP_Equal (OriginalDstIP existing) dstNetIP
                \<or> OriginalDstPort existing \<noteq> dstPort
             then t(clientKey \<mapsto> fresh)
             else
               let info = existing\<lparr>LastSeen := nowNano\<rparr>;
                   info = (if wa_IfIdx addr \<noteq> 0
                           then info\<lparr>IfIdx := wa_IfIdx addr, SubIfIdx := wa_SubIfIdx addr\<rparr> else info)
               in t(clientKey \<mapsto> info)
         | None \<Rightarrow> t(clientKey \<mapsto> fresh))"

text \<open>The address of a packet that is handed to the proxy, and of one that goes back to the client.\<close>

definition to_proxy :: "WinDivertAddress \<Rightarrow> WinDivertAddress" where
  "to_proxy addr = set_flag FLAG_IMPOSTOR (SetOutbound False addr)"

definition to_client :: "SessionInfo \<Rightarrow> WinDivertAddress \<Rightarrow> WinDivertAddress" where
  "to_client info addr =
     (let addr = clear_flag FLAG_LOOPBACK (SetOutbound False addr);
          addr = addr\<lparr>wa_IfIdx := IfIdx info, wa_SubIfIdx := SubIfIdx info\<rparr>
      in set_flag FLAG_IMPOSTOR addr)"

text \<open>\<open>_ = Rewrite...(rawPacket, ...)\<close>: an error leaves the packet as it is.\<close>

definition or_same :: "byte list \<Rightarrow> perr + byte list \<Rightarrow> byte list" where
  "or_same raw res = (case res of Inl _ \<Rightarrow> raw | Inr p \<Rightarrow> p)"

definition forward_nat4 ::
  "divert \<Rightarrow> int \<Rightarrow> byte list \<Rightarrow> WinDivertAddress \<Rightarrow> byte list \<Rightarrow> byte list \<Rightarrow> uint16 \<Rightarrow> uint16 \<Rightarrow> uint8 \<Rightarrow> Redirector
    \<Rightarrow> (Redirector \<times> effect list) option" where
  "forward_nat4 D now raw addr srcIP dstIP srcPort dstPort tcpFlags r = do {
     let clientKey = MakeSessionKeyIPv4 srcIP srcPort;
     let dstNetIP = net_IPv4 dstIP;
     let r = r\<lparr>rd_sessions :=
       forward_session now (rd_coarseNano r) addr clientKey dstNetIP dstPort tcpFlags (rd_sessions r)\<rparr>;
     let targetIP = (if rd_localProxyIP r = [] then net_IPv4 srcIP else rd_localProxyIP r);
     res \<leftarrow> RewriteIPv4TCP raw [] targetIP 0 (rd_localProxyPort r);
     let (raw, addr) = dv_calc D (or_same raw res) (to_proxy addr);
     Some (r, [SendPacket raw addr])
   }"

definition reverse_nat4 ::
  "divert \<Rightarrow> byte list \<Rightarrow> WinDivertAddress \<Rightarrow> byte list \<Rightarrow> uint16 \<Rightarrow> Redirector
    \<Rightarrow> (Redirector \<times> effect list) option option" where
  "reverse_nat4 D raw addr dstIP dstPort r =
     (let clientKey = MakeSessionKeyIPv4 dstIP dstPort; nowNano = rd_coarseNano r
      in case rd_sessions r clientKey of
           None \<Rightarrow> Some None
         | Some info \<Rightarrow> do {
             let info = (if nowNano - LastSeen info > 1000000000 then info\<lparr>LastSeen := nowNano\<rparr> else info);
             let r = r\<lparr>rd_sessions := (rd_sessions r)(clientKey \<mapsto> info)\<rparr>;
             res \<leftarrow> RewriteIPv4TCP raw (OriginalDstIP info) [] (OriginalDstPort info) 0;
             let (raw, addr) = dv_calc D (or_same raw res) (to_client info addr);
             fragments \<leftarrow> FragmentIPv4 raw 1500;
             Some (Some (r, map (\<lambda>frag. SendPacket frag addr) fragments))
           })"

definition forward_nat6 ::
  "divert \<Rightarrow> int \<Rightarrow> byte list \<Rightarrow> WinDivertAddress \<Rightarrow> byte list \<Rightarrow> byte list \<Rightarrow> uint16 \<Rightarrow> uint16 \<Rightarrow> uint8 \<Rightarrow> Redirector
    \<Rightarrow> (Redirector \<times> effect list) option" where
  "forward_nat6 D now raw addr srcIP6 dstIP6 srcPort dstPort tcpFlags r = do {
     let clientKey = MakeSessionKeyIPv6 srcIP6 srcPort;
     let r = r\<lparr>rd_sessions :=
       forward_session now (rd_coarseNano r) addr clientKey dstIP6 dstPort tcpFlags (rd_sessions r)\<rparr>;
     let targetIP = (if rd_localProxyIP r = [] \<or> To4 (rd_localProxyIP r) \<noteq> None then srcIP6 else rd_localProxyIP r);
     res \<leftarrow> RewriteIPv6TCP raw [] targetIP 0 (rd_localProxyPort r);
     let (raw, addr) = dv_calc D (or_same raw res) (to_proxy addr);
     Some (r, [SendPacket raw addr])
   }"

definition reverse_nat6 ::
  "divert \<Rightarrow> byte list \<Rightarrow> WinDivertAddress \<Rightarrow> byte list \<Rightarrow> uint16 \<Rightarrow> Redirector
    \<Rightarrow> (Redirector \<times> effect list) option option" where
  "reverse_nat6 D raw addr dstIP6 dstPort r =
     (let clientKey = MakeSessionKeyIPv6 dstIP6 dstPort
      in case rd_sessions r clientKey of
           None \<Rightarrow> Some None
         | Some info \<Rightarrow> do {
             let info = info\<lparr>LastSeen := rd_coarseNano r\<rparr>;
             let r = r\<lparr>rd_sessions := (rd_sessions r)(clientKey \<mapsto> info)\<rparr>;
             res \<leftarrow> RewriteIPv6TCP raw (OriginalDstIP info) [] (OriginalDstPort info) 0;
             let (raw, addr) = dv_calc D (or_same raw res) (to_client info addr);
             if length raw > 1280 \<and> \<not> dv_send D raw addr then do {
               fragments \<leftarrow> FragmentIPv6TCP raw 1280;
               Some (Some (r, SendPacket raw addr # map (\<lambda>frag. SendPacket frag addr) fragments))
             } else Some (Some (r, [SendPacket raw addr]))
           })"

section \<open>UDP\<close>

definition dns_queue_cap :: nat where
  "dns_queue_cap = 2048"

text \<open>\<open>select { case r.dnsQueue <- task: default: go r.processDNSTask(ctx, task) }\<close>\<close>

definition submit_dns :: "dnsTask \<Rightarrow> Redirector \<Rightarrow> Redirector \<times> effect list" where
  "submit_dns task r =
     (if length (rd_dnsQueue r) < dns_queue_cap then (r\<lparr>rd_dnsQueue := rd_dnsQueue r @ [task]\<rparr>, [])
      else (r, [SpawnDNS task]))"

definition dns_udp ::
  "byte list \<Rightarrow> WinDivertAddress \<Rightarrow> netIP \<Rightarrow> netIP \<Rightarrow> bool \<Rightarrow> uint16 \<Rightarrow> uint16 \<Rightarrow> nat \<Rightarrow> Redirector
    \<Rightarrow> (Redirector \<times> effect list) option" where
  "dns_udp raw addr clientIP targetIP isIPv6 srcPort dstPort dataOffset r = do {
     payload \<leftarrow> go_from raw dataOffset;
     Some (submit_dns \<lparr>dt_clientAddr = UDPAddr clientIP (uint srcPort), dt_targetIP = targetIP, dt_srcPort = srcPort,
       dt_dstPort = dstPort, dt_isIPv6 = isIPv6, dt_payload = payload, dt_rawPacket = raw, dt_origAddr = addr\<rparr> r)
   }"

definition filter_udp ::
  "byte list \<Rightarrow> WinDivertAddress \<Rightarrow> netIP \<Rightarrow> UDPFlowKey \<Rightarrow> Redirector \<Rightarrow> Redirector \<times> effect list" where
  "filter_udp raw addr targetIP flowKey r =
     (let nowSec = rd_coarseNano r div 1000000000;
          (tab, isNewFlow) = CheckAndRecord flowKey nowSec (rd_udpFlowTable r);
          r = r\<lparr>rd_udpFlowTable := tab\<rparr>;
          shouldBlock = (case rd_filterEng r of Some blocks \<Rightarrow> blocks (IP_String targetIP) | None \<Rightarrow> False);
          logs = (if isNewFlow then [LogUDP shouldBlock (ClientString flowKey) (TargetString flowKey)] else [])
      in (r, logs @ (if shouldBlock \<and> \<not> rd_dryRun r then [] else [SendPacket raw addr])))"

definition udp_packet ::
  "byte list \<Rightarrow> WinDivertAddress \<Rightarrow> netIP \<Rightarrow> netIP \<Rightarrow> bool \<Rightarrow> UDPFlowKey \<Rightarrow> uint16 \<Rightarrow> uint16 \<Rightarrow> nat \<Rightarrow> Redirector
    \<Rightarrow> (Redirector \<times> effect list) option option" where
  "udp_packet raw addr clientIP targetIP isIPv6 flowKey srcPort dstPort dataOffset r =
     (if dstPort = 443 then (if \<not> rd_dryRun r then Some (Some (r, [])) else Some None)
      else if dstPort = 53 \<and> rd_dnsEng r \<noteq> None \<and> \<not> rd_dryRun r then
        map_option Some (dns_udp raw addr clientIP targetIP isIPv6 srcPort dstPort dataOffset r)
      else if rd_filterUDP r then Some (Some (filter_udp raw addr targetIP flowKey r))
      else Some None)"

section \<open>The packet loop\<close>

definition IPPROTO_UDP :: byte where "IPPROTO_UDP = 17"

definition own_port :: "uint16 \<Rightarrow> bool" where
  "own_port p = (p \<ge> 40000 \<and> p \<le> 48999)"

definition tcp4_packet ::
  "unicode \<Rightarrow> divert \<Rightarrow> int \<Rightarrow> byte list \<Rightarrow> WinDivertAddress \<Rightarrow> byte list \<Rightarrow> byte list \<Rightarrow> nat \<Rightarrow> Redirector
    \<Rightarrow> (Redirector \<times> effect list) option option" where
  "tcp4_packet U D now raw addr srcIP dstIP ihl r = do {
     t \<leftarrow> ParseTCPFast raw ihl;
     case t of
       Inl err \<Rightarrow> Some None
     | Inr (srcPort, dstPort, tcpFlags, dataOffset) \<Rightarrow>
         if rd_dryRun r then
           map_option Some (dry_run_tcp U now raw addr (MakeSessionKeyIPv4 srcIP srcPort) (net_IPv4 dstIP) dstPort
             (ihl + dataOffset) r)
         else if own_port srcPort then Some (Some (r, [SendPacket raw addr]))
         else if srcPort = rd_localProxyPort r then reverse_nat4 D raw addr dstIP dstPort r
         else map_option Some (forward_nat4 D now raw addr srcIP dstIP srcPort dstPort tcpFlags r)
   }"

definition ipv4_packet ::
  "unicode \<Rightarrow> divert \<Rightarrow> int \<Rightarrow> byte list \<Rightarrow> WinDivertAddress \<Rightarrow> Redirector
    \<Rightarrow> (Redirector \<times> effect list) option option" where
  "ipv4_packet U D now raw addr r = do {
     h \<leftarrow> ParseIPv4Fast raw;
     case h of
       Inl err \<Rightarrow> Some None
     | Inr (proto, srcIP, dstIP, ihl) \<Rightarrow>
         if proto = IPPROTO_TCP then tcp4_packet U D now raw addr srcIP dstIP ihl r
         else if proto = IPPROTO_UDP then do {
           u \<leftarrow> ParseUDPFast raw ihl;
           case u of
             Inl err \<Rightarrow> Some None
           | Inr (srcPort, dstPort, _, dataOffset) \<Rightarrow>
               udp_packet raw addr (net_IPv4 srcIP) (net_IPv4 dstIP) False
                 (MakeUDPFlowKeyIPv4 srcIP dstIP srcPort dstPort) srcPort dstPort dataOffset r
         }
         else Some None
   }"

definition tcp6_packet ::
  "unicode \<Rightarrow> divert \<Rightarrow> int \<Rightarrow> byte list \<Rightarrow> WinDivertAddress \<Rightarrow> byte list \<Rightarrow> byte list \<Rightarrow> nat \<Rightarrow> Redirector
    \<Rightarrow> (Redirector \<times> effect list) option option" where
  "tcp6_packet U D now raw addr srcIP6 dstIP6 ihl r = do {
     t \<leftarrow> ParseTCPFast raw ihl;
     case t of
       Inl err \<Rightarrow> Some None
     | Inr (srcPort, dstPort, tcpFlags, dataOffset) \<Rightarrow>
         if rd_dryRun r then
           map_option Some (dry_run_tcp U now raw addr (MakeSessionKeyIPv6 srcIP6 srcPort) dstIP6 dstPort
             (ihl + dataOffset) r)
         else if own_port srcPort then Some (Some (r, [SendPacket raw addr]))
         else if srcPort = rd_localProxyPort r then reverse_nat6 D raw addr dstIP6 dstPort r
         else map_option Some (forward_nat6 D now raw addr srcIP6 dstIP6 srcPort dstPort tcpFlags r)
   }"

definition ipv6_packet ::
  "unicode \<Rightarrow> divert \<Rightarrow> int \<Rightarrow> byte list \<Rightarrow> WinDivertAddress \<Rightarrow> Redirector
    \<Rightarrow> (Redirector \<times> effect list) option option" where
  "ipv6_packet U D now raw addr r = do {
     h \<leftarrow> ParseIPv6Fast raw;
     case h of
       Inl err \<Rightarrow> Some None
     | Inr (nextHdr, srcIP6, dstIP6, _, ihl) \<Rightarrow>
         if nextHdr = IPPROTO_TCP then tcp6_packet U D now raw addr srcIP6 dstIP6 ihl r
         else if nextHdr = IPPROTO_UDP then do {
           u \<leftarrow> ParseUDPFast raw ihl;
           case u of
             Inl err \<Rightarrow> Some None
           | Inr (srcPort, dstPort, _, dataOffset) \<Rightarrow>
               udp_packet raw addr srcIP6 dstIP6 True
                 (MakeUDPFlowKeyIPv6 srcIP6 dstIP6 srcPort dstPort) srcPort dstPort dataOffset r
         }
         else Some None
   }"

text \<open>One packet as \<open>Recv\<close> delivers it, \<open>raw = packetBuf[:n]\<close>.\<close>

definition packet_step ::
  "unicode \<Rightarrow> divert \<Rightarrow> int \<Rightarrow> byte list \<Rightarrow> WinDivertAddress \<Rightarrow> Redirector \<Rightarrow> (Redirector \<times> effect list) option" where
  "packet_step U D now raw addr r =
     (if length raw = 0 \<or> length raw > 65535 then Some (r, [])
      else do {
        b0 \<leftarrow> go_index raw 0;
        let version = drop_bit 4 b0;
        out \<leftarrow> (if version = 4 then ipv4_packet U D now raw addr r
               else if version = 6 then ipv6_packet U D now raw addr r
               else Some None);
        Some (case out of Some res \<Rightarrow> res | None \<Rightarrow> (r, [SendPacket raw addr]))
      })"

section \<open>Background work\<close>

definition processDNSTask :: "dnsTask \<Rightarrow> Redirector \<Rightarrow> effect list option" where
  "processDNSTask task r =
     (case rd_dnsEng r of
        None \<Rightarrow> Some []
      | Some process \<Rightarrow> do {
          (respData, passthrough) \<leftarrow> process (dt_targetIP task) (dt_payload task);
          if passthrough then Some [SendPacket (dt_rawPacket task) (dt_origAddr task)]
          else case respData of
            None \<Rightarrow> Some []
          | Some resp \<Rightarrow>
              if length resp > 0 then do {
                clientIP \<leftarrow> (case dt_clientAddr task of UDPAddr ip _ \<Rightarrow> Some ip | _ \<Rightarrow> None);
                respPkt \<leftarrow> (if dt_isIPv6 task
                  then BuildIPv6UDPPacket (dt_targetIP task) clientIP (dt_dstPort task) (dt_srcPort task) resp
                  else BuildIPv4UDPPacket (dt_targetIP task) clientIP (dt_dstPort task) (dt_srcPort task) resp);
                Some (case respPkt of
                    None \<Rightarrow> []
                  | Some pkt \<Rightarrow>
                      let injectAddr = SetOutbound False (dt_origAddr task);
                          injectAddr = clear_flag FLAG_LOOPBACK (set_flag FLAG_IMPOSTOR injectAddr);
                          injectAddr = clear_flag (FLAG_IP_CHECKSUM OR FLAG_TCP_CHECKSUM OR FLAG_UDP_CHECKSUM) injectAddr
                      in [SendPacket pkt injectAddr])
              } else Some []
        })"

text \<open>A worker takes the oldest task; a panic while processing it is recovered.\<close>

definition dnsWorker :: "Redirector \<Rightarrow> Redirector \<times> effect list" where
  "dnsWorker r =
     (case rd_dnsQueue r of
        [] \<Rightarrow> (r, [])
      | task # rest \<Rightarrow>
          (r\<lparr>rd_dnsQueue := rest\<rparr>, case processDNSTask task r of Some effects \<Rightarrow> effects | None \<Rightarrow> []))"

text \<open>One tick of \<open>sessionGCLoop\<close>.\<close>

definition gc_tick :: "int \<Rightarrow> Redirector \<Rightarrow> Redirector" where
  "gc_tick now r =
     (let r = r\<lparr>rd_sessions := sweep now LastSeen (rd_sessions r)\<rparr>;
          r = (if rd_dryRun r then r\<lparr>rd_dryRunSessions := sweep now dr_LastSeen (rd_dryRunSessions r)\<rparr> else r)
      in r\<lparr>rd_udpFlowTable := fst (Cleanup (now div 1000000000) (rd_udpFlowTable r))\<rparr>)"

definition clock_tick :: "int \<Rightarrow> Redirector \<Rightarrow> Redirector" where
  "clock_tick now r = r\<lparr>rd_coarseNano := now\<rparr>"

section \<open>No packet makes a worker panic\<close>

lemma RewriteIPv4TCP_return [returns_intros]: "returns (RewriteIPv4TCP p s d sp dp)"
  using RewriteIPv4TCP_returns [of p s d sp dp] by auto

lemma RewriteIPv6TCP_return [returns_intros]: "returns (RewriteIPv6TCP p s d sp dp)"
  using RewriteIPv6TCP_returns [of p s d sp dp] by auto

lemma FragmentIPv4_return [returns_intros]: "returns (FragmentIPv4 p mtu)"
  using FragmentIPv4_returns [of p mtu] by auto

lemma FragmentIPv6TCP_return [returns_intros]: "mtu \<le> 65575 \<Longrightarrow> returns (FragmentIPv6TCP p mtu)"
  using FragmentIPv6TCP_returns [of mtu p] by auto

lemma returns_prod [returns_intros]: "(\<And>a b. x = (a, b) \<Longrightarrow> returns (f a b)) \<Longrightarrow> returns (case x of (a, b) \<Rightarrow> f a b)"
  by (cases x) simp

lemma returns_sum [returns_intros]:
  "(\<And>a. x = Inl a \<Longrightarrow> returns (f a)) \<Longrightarrow> (\<And>b. x = Inr b \<Longrightarrow> returns (g b)) \<Longrightarrow>
   returns (case x of Inl a \<Rightarrow> f a | Inr b \<Rightarrow> g b)"
  by (cases x) simp_all

lemma returns_opt [returns_intros]:
  "(x = None \<Longrightarrow> returns f) \<Longrightarrow> (\<And>b. x = Some b \<Longrightarrow> returns (g b)) \<Longrightarrow>
   returns (case x of None \<Rightarrow> f | Some b \<Rightarrow> g b)"
  by (cases x) simp_all

lemma returns_if [returns_intros]: "(b \<Longrightarrow> returns x) \<Longrightarrow> (\<not> b \<Longrightarrow> returns y) \<Longrightarrow> returns (if b then x else y)"
  by simp

lemma dry_run_tcp_returns [returns_intros]: "returns (dry_run_tcp U now raw addr k ip port off r)"
  unfolding dry_run_tcp_def handleDryRunTCP_def Let_def by (intro returns_intros returns_Some) simp

lemma forward_nat_returns [returns_intros]:
  "returns (forward_nat4 D now raw addr s d sp dp flags r)" "returns (forward_nat6 D now raw addr s d sp dp flags r)"
  unfolding forward_nat4_def forward_nat6_def Let_def by (intro returns_intros returns_Some)+

lemma reverse_nat_returns [returns_intros]:
  "returns (reverse_nat4 D raw addr d dp r)" "returns (reverse_nat6 D raw addr d dp r)"
  unfolding reverse_nat4_def reverse_nat6_def Let_def by (intro returns_intros returns_Some; simp)+

lemma udp_packet_returns [returns_intros]:
  "off \<le> length raw \<Longrightarrow> returns (udp_packet raw addr c t v6 k sp dp off r)"
  unfolding udp_packet_def dns_udp_def by (intro returns_intros returns_Some)

lemma tcp_packet_returns [returns_intros]:
  "returns (tcp4_packet U D now raw addr s d ihl r)" "returns (tcp6_packet U D now raw addr s d ihl r)"
  unfolding tcp4_packet_def tcp6_packet_def by (intro returns_intros returns_Some)+

lemma ip_packet_returns [returns_intros]:
  "returns (ipv4_packet U D now raw addr r)" "returns (ipv6_packet U D now raw addr r)"
  unfolding ipv4_packet_def ipv6_packet_def
  by (intro returns_intros returns_Some; simp add: ParseUDPFast_result)+

lemma packet_step_returns: "\<exists>r' effects. packet_step U D now raw addr r = Some (r', effects)"
proof -
  have "returns (packet_step U D now raw addr r)"
    unfolding packet_step_def Let_def by (intro returns_intros returns_Some) simp
  then show ?thesis
    using returnsD by fastforce
qed

text \<open>
  C6: no packet makes a worker panic.  For every sequence of bytes the driver may deliver, every address structure,
  every state of the tables, and whatever the driver does to a packet or with it, one pass through the body of the packet
  loop ends normally.
\<close>

theorem packet_step_total: "\<exists>r' effects. packet_step U D now raw addr r = Some (r', effects)"
  by (rule packet_step_returns)

end
