(* ===== verification/Translation.thy ===== *)
theory Translation
  imports Redirector
begin

text \<open>
  Address translation across packets: what the packet loop of \<open>internal/interceptor/redirector.go\<close> does to the two directions of one
  connection while other packets, clock ticks, sweeps and DNS work happen in between.
\<close>

section \<open>Translation there and back\<close>

text \<open>A TCP packet over IPv4, as the two parsers see it.\<close>

definition tcp4 :: "byte list \<Rightarrow> byte list \<Rightarrow> byte list \<Rightarrow> uint16 \<Rightarrow> uint16 \<Rightarrow> uint8 \<Rightarrow> nat \<Rightarrow> nat \<Rightarrow> bool" where
  "tcp4 p s d sp dp flags ihl off \<longleftrightarrow> p \<noteq> [] \<and> drop_bit 4 (p ! 0) = 4
     \<and> ParseIPv4Fast p = Some (Inr (IPPROTO_TCP, s, d, ihl)) \<and> ParseTCPFast p ihl = Some (Inr (sp, dp, flags, off))"

text \<open>What is documented of \<open>WinDivertHelperCalcChecksums\<close>: it writes the checksum fields and the checksum flags
  and nothing else.\<close>

definition same_addr :: "WinDivertAddress \<Rightarrow> WinDivertAddress \<Rightarrow> bool" where
  "same_addr a b \<longleftrightarrow> wa_IfIdx a = wa_IfIdx b \<and> wa_SubIfIdx a = wa_SubIfIdx b
     \<and> wa_Flags a AND 0x0F = wa_Flags b AND 0x0F"

definition same_packet4 :: "byte list \<Rightarrow> byte list \<Rightarrow> bool" where
  "same_packet4 p q \<longleftrightarrow> length q = length p
     \<and> (\<forall>i < length p. i \<notin> {10, 11, hdr_len p + 16, hdr_len p + 17} \<longrightarrow> q ! i = p ! i)"

definition same_packet6 :: "byte list \<Rightarrow> byte list \<Rightarrow> bool" where
  "same_packet6 p q \<longleftrightarrow> length q = length p \<and> (\<forall>i < length p. i \<notin> {56, 57} \<longrightarrow> q ! i = p ! i)"

definition calc_keeps :: "divert \<Rightarrow> bool" where
  "calc_keeps D \<longleftrightarrow> (\<forall>p a. same_addr a (snd (dv_calc D p a))
     \<and> (drop_bit 4 (p ! 0) = 4 \<longrightarrow> same_packet4 p (fst (dv_calc D p a)))
     \<and> (drop_bit 4 (p ! 0) = 6 \<longrightarrow> same_packet6 p (fst (dv_calc D p a))))"

lemma tcp4_iff:
  "tcp4 p s d sp dp flags ihl off \<longleftrightarrow> drop_bit 4 (p ! 0) = 4 \<and> ihl = hdr_len p \<and> 20 \<le> ihl \<and> ihl + off \<le> length p
     \<and> 20 \<le> off \<and> p ! 9 = IPPROTO_TCP \<and> s = field p 12 4 \<and> d = field p 16 4
     \<and> off = unat (drop_bit 4 (p ! (ihl + 12))) * 4 \<and> port_bytes sp = field p ihl 2 \<and> port_bytes dp = field p (ihl + 2) 2
     \<and> flags = p ! (ihl + 13)"
proof -
  have bytes: "field p i 2 = [p ! i, p ! Suc i]" if "Suc (Suc i) \<le> length p" for i
    using that by (simp add: field_def drop_two)
  have port: "hi8 w = a \<and> lo8 w = b \<longleftrightarrow> w = be16 a b" for w a b
    using be16_hi8_lo8 [of w] by (auto simp del: be16_hi8_lo8)
  have three: "n + 3 = Suc (Suc (Suc n))" for n
    by simp
  have l: "Suc (Suc (h + 2)) \<le> length p" "Suc (Suc h) \<le> length p" if "20 \<le> o'" "h + o' \<le> length p" for h o'
    using that by simp_all
  show ?thesis
    by (auto simp: tcp4_def ParseIPv4Fast_result ParseTCPFast_result hdr_len_def add.assoc bytes port three)
qed

lemma tcp4_lengths: "tcp4 p s d sp dp flags ihl off \<Longrightarrow> length s = 4 \<and> length d = 4"
  by (auto simp: tcp4_iff)

lemma tcp4_same:
  assumes "tcp4 p s d sp dp flags ihl off" "same_packet4 p q"
  shows "tcp4 q s d sp dp flags ihl off"
proof -
  have len: "length q = length p" "20 \<le> hdr_len p" "hdr_len p + 20 \<le> length p" "ihl = hdr_len p"
    using assms by (auto simp: tcp4_iff same_packet4_def)
  then have "p \<noteq> []"
    by auto
  have eq: "q ! i = p ! i" if "i < length p" "i \<notin> {10, 11, hdr_len p + 16, hdr_len p + 17}" for i
    using assms(2) that by (auto simp: same_packet4_def)
  have f: "field q i n = field p i n" if "i + n \<le> length p" "\<And>k. k < n \<Longrightarrow> i + k \<notin> {10, 11, hdr_len p + 16, hdr_len p + 17}" for i n
    using that len eq by (intro nth_equalityI) (auto simp: nth_field)
  have "hdr_len q = hdr_len p"
    using eq [of 0] len \<open>p \<noteq> []\<close> by (auto simp: hdr_len_def)
  moreover have "field q 12 4 = field p 12 4" "field q 16 4 = field p 16 4" "field q ihl 2 = field p ihl 2"
    "field q (ihl + 2) 2 = field p (ihl + 2) 2"
    using len by (auto intro!: f)
  ultimately show ?thesis
    using assms(1) len \<open>p \<noteq> []\<close> eq [of 0] eq [of 9] eq [of "ihl + 12"] eq [of "ihl + 13"] by (auto simp: tcp4_iff)
qed

lemma tcp4_rewritten:
  assumes "tcp4 p s d sp dp flags ihl off"
  shows "\<exists>p'. RewriteIPv4TCP p srcIP dstIP srcPort dstPort = Some (Inr p') \<and> length p' = length p
    \<and> tcp4 p' (new_addr To4 srcIP s) (new_addr To4 dstIP d) (new_port srcPort sp) (new_port dstPort dp) flags ihl off"
proof -
  have v: "tcp4_valid (length p - hdr_len p) p"
    using assms by (auto simp: tcp4_iff tcp4_valid_def)
  from rewrite4_ok [OF v, of srcIP dstIP srcPort dstPort] obtain p' where
    p': "RewriteIPv4TCP p srcIP dstIP srcPort dstPort = Some (Inr p')" "length p' = length p"
    "field p' 12 4 = new_addr To4 srcIP (field p 12 4)" "field p' 16 4 = new_addr To4 dstIP (field p 16 4)"
    "field p' (hdr_len p) 2 = port_bytes (new_port srcPort (be16 (p ! hdr_len p) (p ! (hdr_len p + 1))))"
    "field p' (hdr_len p + 2) 2 = port_bytes (new_port dstPort (be16 (p ! (hdr_len p + 2)) (p ! (hdr_len p + 2 + 1))))"
    and other: "\<And>i. i < length p \<Longrightarrow> i \<notin> {10..<20} \<union> {hdr_len p..<hdr_len p + 4} \<union> {hdr_len p + 16..<hdr_len p + 18}
      \<Longrightarrow> p' ! i = p ! i"
    by blast
  have len: "20 \<le> ihl" "ihl + 20 \<le> length p" "ihl = hdr_len p" "p \<noteq> []"
    using assms by (auto simp: tcp4_iff)
  have ports: "sp = be16 (p ! ihl) (p ! (ihl + 1))" "dp = be16 (p ! (ihl + 2)) (p ! (ihl + 2 + 1))"
    using assms len by (auto simp: tcp4_def ParseTCPFast_result numeral_3_eq_3)
  have "hdr_len p' = hdr_len p"
    using other [of 0] len by (auto simp: hdr_len_def)
  then show ?thesis
    using assms len p' ports other [of 0] other [of 9] other [of "ihl + 12"] other [of "ihl + 13"]
    by (auto simp: tcp4_iff)
qed

text \<open>What a session remembers of its first packet.\<close>

definition origin :: "SessionInfo \<Rightarrow> netIP \<times> uint16 \<times> uint32 \<times> uint32" where
  "origin info = (OriginalDstIP info, OriginalDstPort info, IfIdx info, SubIfIdx info)"

lemma origin_seen [simp]: "origin (info\<lparr>LastSeen := t\<rparr>) = origin info"
  by (simp add: origin_def)

lemma net_IPv4_eq: "length a = 4 \<Longrightarrow> net_IPv4 a = v4InV6Prefix @ a"
proof -
  assume "length a = 4"
  then have "a = [a ! 0, a ! 1, a ! 2, a ! 3]"
    by (auto simp: numeral_eq_Suc length_Suc_conv)
  then show ?thesis
    by (simp add: net_IPv4_def IPv4_def)
qed

lemma To4_net_IPv4 [simp]: "length a = 4 \<Longrightarrow> To4 (net_IPv4 a) = Some a" "length a = 4 \<Longrightarrow> net_IPv4 a \<noteq> []"
  by (simp_all add: net_IPv4_eq To4_def v4InV6Prefix_def)

section \<open>What happens between two packets of a connection\<close>

text \<open>The client that a packet comes from, for TCP.\<close>

definition packet_sender :: "byte list \<Rightarrow> SessionKey option" where
  "packet_sender p =
     (if drop_bit 4 (p ! 0) = 4 then
        (case ParseIPv4Fast p of
           Some (Inr (proto, src, _, ihl)) \<Rightarrow>
             (case ParseTCPFast p ihl of
                Some (Inr (sp, _)) \<Rightarrow> if proto = IPPROTO_TCP then Some (MakeSessionKeyIPv4 src sp) else None
              | _ \<Rightarrow> None)
         | _ \<Rightarrow> None)
      else
        (case ParseIPv6Fast p of
           Some (Inr (proto, src, _, _, ihl)) \<Rightarrow>
             (case ParseTCPFast p ihl of
                Some (Inr (sp, _)) \<Rightarrow> if proto = IPPROTO_TCP then Some (MakeSessionKeyIPv6 src sp) else None
              | _ \<Rightarrow> None)
         | _ \<Rightarrow> None))"

text \<open>The goroutines of the redirector, one step each: a packet worker, the clock, the session sweep, a DNS worker.\<close>

datatype event = Packet int "byte list" WinDivertAddress | Clock int | Sweep int | Worker

fun event_step :: "unicode \<Rightarrow> divert \<Rightarrow> event \<Rightarrow> Redirector \<Rightarrow> (Redirector \<times> effect list) option" where
  "event_step U D (Packet now raw addr) r = packet_step U D now raw addr r"
| "event_step U D (Clock now) r = Some (clock_tick now r, [])"
| "event_step U D (Sweep now) r = Some (gc_tick now r, [])"
| "event_step U D Worker r = Some (dnsWorker r)"

fun run_events :: "unicode \<Rightarrow> divert \<Rightarrow> event list \<Rightarrow> Redirector \<Rightarrow> (Redirector \<times> effect list) option" where
  "run_events U D [] r = Some (r, [])"
| "run_events U D (e # es) r = do {
     (r, out) \<leftarrow> event_step U D e r;
     (r, outs) \<leftarrow> run_events U D es r;
     Some (r, out @ outs)
   }"

text \<open>An event that is no packet of the client \<open>k\<close> and does not let a session expire that was used at \<open>t\<close>.\<close>

fun leaves :: "SessionKey \<Rightarrow> int \<Rightarrow> event \<Rightarrow> bool" where
  "leaves k t (Packet now raw addr) = (packet_sender raw \<noteq> Some k)"
| "leaves k t (Clock now) = (t \<le> now)"
| "leaves k t (Sweep now) = (now - t \<le> sessionTTL)"
| "leaves k t Worker = True"

definition settings :: "Redirector \<Rightarrow> bool \<times> uint16 \<times> netIP" where
  "settings r = (rd_dryRun r, rd_localProxyPort r, rd_localProxyIP r)"

text \<open>The session of \<open>k\<close> is there, leads to \<open>org\<close>, and was used at \<open>t\<close> or later.\<close>

definition has_session :: "SessionKey \<Rightarrow> netIP \<times> uint16 \<times> uint32 \<times> uint32 \<Rightarrow> int \<Rightarrow> Redirector \<Rightarrow> bool" where
  "has_session k org t r \<longleftrightarrow> t \<le> rd_coarseNano r
     \<and> (\<exists>info. rd_sessions r k = Some info \<and> origin info = org \<and> t \<le> LastSeen info)"

text \<open>The frame of one pass through the packet loop.\<close>

definition kept :: "SessionKey \<Rightarrow> netIP \<times> uint16 \<times> uint32 \<times> uint32 \<Rightarrow> int \<Rightarrow> Redirector \<Rightarrow> Redirector \<Rightarrow> bool" where
  "kept k org t r r' \<longleftrightarrow> settings r' = settings r \<and> (has_session k org t r \<longrightarrow> has_session k org t r')"

lemma kept_refl [simp]: "kept k org t r r"
  by (simp add: kept_def)

text \<open>The states that a step may end in.\<close>

definition ends_in :: "('r \<times> 'e) option \<Rightarrow> ('r \<Rightarrow> bool) \<Rightarrow> bool" where
  "ends_in m P \<longleftrightarrow> (\<forall>r out. m = Some (r, out) \<longrightarrow> P r)"

lemma ends_in_bind: "(\<And>x. ends_in (f x) P) \<Longrightarrow> ends_in (Option.bind m f) P"
  by (cases m) (auto simp: ends_in_def)

lemma ends_in_prod: "(\<And>a b. ends_in (f a b) P) \<Longrightarrow> ends_in (case x of (a, b) \<Rightarrow> f a b) P"
  by (cases x) simp

lemma ends_in_if: "ends_in x P \<Longrightarrow> ends_in y P \<Longrightarrow> ends_in (if b then x else y) P"
  by simp

lemma ends_in_Some: "P r \<Longrightarrow> ends_in (Some (r, out)) P"
  by (simp add: ends_in_def)

lemma kept_dry_sessions:
  "kept k org t r (r\<lparr>rd_dryRunSessions := m\<rparr>)" "kept k org t r (r\<lparr>rd_dryRunSessions := m, rd_dryRunSessions := m'\<rparr>)"
  by (simp_all add: kept_def settings_def has_session_def)

lemma kept_handle_dry_run:
  "ends_in (handleDryRunTCP U now c ip port payload r) (kept k org t r)"
  unfolding handleDryRunTCP_def Let_def
  by (intro ends_in_bind ends_in_prod ends_in_if ends_in_Some) (simp_all add: kept_dry_sessions split: option.split)

lemma kept_dry_run:
  assumes "dry_run_tcp U now raw addr c ip port off r = Some (r', out)"
  shows "kept k org t r r'"
  using assms kept_handle_dry_run [of U now c ip port _ r k org t]
  by (auto simp: dry_run_tcp_def ends_in_def split: Option.bind_splits if_splits)

lemma kept_forward:
  "c \<noteq> k \<Longrightarrow> kept k org t r (r\<lparr>rd_sessions := forward_session now n addr c ip port flags (rd_sessions r)\<rparr>)"
  by (auto simp: kept_def settings_def has_session_def forward_session_def Let_def split: option.splits)

lemma kept_reverse:
  assumes "rd_sessions r c = Some info" "info' = info \<or> info' = info\<lparr>LastSeen := rd_coarseNano r\<rparr>"
  shows "kept k org t r (r\<lparr>rd_sessions := (rd_sessions r)(c \<mapsto> info')\<rparr>)"
  using assms by (auto simp: kept_def settings_def has_session_def)

lemma kept_reverse_nat:
  "reverse_nat4 D raw addr ip port r = Some (Some (r', out)) \<Longrightarrow> kept k org t r r'"
  "reverse_nat6 D raw addr ip port r = Some (Some (r', out)) \<Longrightarrow> kept k org t r r'"
  by (auto simp: reverse_nat4_def reverse_nat6_def Let_def kept_reverse
      split: Option.bind_splits if_splits option.splits prod.splits)

lemma kept_udp:
  "udp_packet raw addr c ip v6 fk sp dp off r = Some (Some (r', out)) \<Longrightarrow> kept k org t r r'"
  by (auto simp: udp_packet_def dns_udp_def submit_dns_def filter_udp_def Let_def kept_def settings_def has_session_def
      split: Option.bind_splits if_splits prod.splits)

lemma kept_forward_nat:
  "forward_nat4 D now raw addr s d sp dp flags r = Some (r', out) \<Longrightarrow> MakeSessionKeyIPv4 s sp \<noteq> k \<Longrightarrow> kept k org t r r'"
  "forward_nat6 D now raw addr s d sp dp flags r = Some (r', out) \<Longrightarrow> MakeSessionKeyIPv6 s sp \<noteq> k \<Longrightarrow> kept k org t r r'"
  by (auto simp: forward_nat4_def forward_nat6_def Let_def kept_forward split: Option.bind_splits prod.splits)

lemmas kept_steps = kept_dry_run kept_forward_nat kept_reverse_nat kept_udp

lemma kept_tcp:
  "tcp4_packet U D now raw addr s d ihl r = Some (Some (r', out)) \<Longrightarrow>
   (\<And>sp rest. ParseTCPFast raw ihl = Some (Inr (sp, rest)) \<Longrightarrow> MakeSessionKeyIPv4 s sp \<noteq> k) \<Longrightarrow> kept k org t r r'"
  "tcp6_packet U D now raw addr s d ihl r = Some (Some (r', out)) \<Longrightarrow>
   (\<And>sp rest. ParseTCPFast raw ihl = Some (Inr (sp, rest)) \<Longrightarrow> MakeSessionKeyIPv6 s sp \<noteq> k) \<Longrightarrow> kept k org t r r'"
  by (auto simp: tcp4_packet_def tcp6_packet_def intro: kept_steps
      split: Option.bind_splits sum.splits prod.splits if_splits)

lemma kept_ip:
  "ipv4_packet U D now raw addr r = Some (Some (r', out)) \<Longrightarrow> drop_bit 4 (raw ! 0) = 4 \<Longrightarrow> packet_sender raw \<noteq> Some k
    \<Longrightarrow> kept k org t r r'"
  "ipv6_packet U D now raw addr r = Some (Some (r', out)) \<Longrightarrow> drop_bit 4 (raw ! 0) = 6 \<Longrightarrow> packet_sender raw \<noteq> Some k
    \<Longrightarrow> kept k org t r r'"
  by (auto simp: ipv4_packet_def ipv6_packet_def packet_sender_def intro: kept_udp elim!: kept_tcp
      split: Option.bind_splits sum.splits prod.splits if_splits)

lemma kept_packet:
  assumes "packet_step U D now raw addr r = Some (r', out)" "packet_sender raw \<noteq> Some k"
  shows "kept k org t r r'"
  using assms
  by (auto simp: packet_step_def go_index_def Let_def intro: kept_ip split: Option.bind_splits if_splits option.splits)

lemma event_step_returns: "returns (event_step U D e r)"
proof (cases e)
  case (Packet now raw addr)
  have "returns (packet_step U D now raw addr r)"
    unfolding packet_step_def Let_def by (intro returns_intros returns_Some) simp
  with Packet show ?thesis
    by simp
qed simp_all

lemma gc_tick_fields [simp]:
  "settings (gc_tick now r) = settings r" "rd_sessions (gc_tick now r) = sweep now LastSeen (rd_sessions r)"
  "rd_coarseNano (gc_tick now r) = rd_coarseNano r"
  by (simp_all add: gc_tick_def settings_def Let_def)

lemma kept_event:
  assumes "event_step U D e r = Some (r', out)" "leaves k t e"
  shows "kept k org t r r'"
proof (cases e)
  case (Packet now raw addr)
  then show ?thesis
    using assms kept_packet by auto
next
  case (Sweep now)
  then show ?thesis
    using assms by (auto simp: kept_def has_session_def sweep_def)
qed (use assms in \<open>auto simp: clock_tick_def dnsWorker_def kept_def settings_def has_session_def split: list.splits\<close>)

lemma run_events_keep:
  assumes "\<forall>e \<in> set es. leaves k t e" "has_session k org t r"
  shows "\<exists>r' out. run_events U D es r = Some (r', out) \<and> settings r' = settings r \<and> has_session k org t r'"
  using assms
proof (induction es arbitrary: r)
  case (Cons e es)
  obtain r1 out where e: "event_step U D e r = Some (r1, out)"
    using returnsD [OF event_step_returns [of U D e r]] by auto
  then have "kept k org t r r1"
    using kept_event Cons.prems by auto
  with Cons.prems(2) have k: "settings r1 = settings r" "has_session k org t r1"
    by (simp_all add: kept_def)
  with Cons.IH [of r1] Cons.prems(1) e show ?case
    by auto
qed simp

section \<open>The two directions of an IPv4 connection\<close>

lemma IP_Equal_To4: "IP_Equal ip (net_IPv4 d) \<Longrightarrow> length d = 4 \<Longrightarrow> To4 ip = Some d"
  by (auto simp: IP_Equal_def To4_def net_IPv4_eq split: if_splits)

text \<open>After a forward packet the session leads to the destination of that packet.\<close>

definition leads_to4 :: "byte list \<Rightarrow> uint16 \<Rightarrow> WinDivertAddress \<Rightarrow> netIP \<times> uint16 \<times> uint32 \<times> uint32 \<Rightarrow> bool" where
  "leads_to4 d dp addr org \<longleftrightarrow> (case org of (ip, port, i, j) \<Rightarrow> To4 ip = Some d \<and> port = dp
     \<and> (wa_IfIdx addr \<noteq> 0 \<longrightarrow> i = wa_IfIdx addr \<and> j = wa_SubIfIdx addr))"

lemma forward_session4:
  assumes "length d = 4"
  shows "\<exists>info. forward_session now n addr k (net_IPv4 d) dp flags t k = Some info
    \<and> leads_to4 d dp addr (origin info) \<and> LastSeen info = n"
  using assms IP_Equal_To4 [of _ d]
  by (auto simp: forward_session_def leads_to4_def origin_def Let_def split: option.splits)

lemma tcp4_step:
  assumes "tcp4 raw s d sp dp flags ihl off" "length raw \<le> 65535"
  shows "packet_step U D now raw addr r =
    map_option (\<lambda>out. case out of Some res \<Rightarrow> res | None \<Rightarrow> (r, [SendPacket raw addr])) (tcp4_packet U D now raw addr s d ihl r)"
  using assms by (auto simp: packet_step_def ipv4_packet_def tcp4_def go_index_def map_option_case
      split: option.splits)

lemma outbound_cleared [simp]:
  "\<not> IsOutbound (to_proxy addr)" "\<not> IsOutbound (to_client info addr)"
  "wa_IfIdx (to_client info addr) = IfIdx info" "wa_SubIfIdx (to_client info addr) = SubIfIdx info"
  by (auto simp: IsOutbound_def to_proxy_def to_client_def SetOutbound_def set_flag_def clear_flag_def FLAG_OUTBOUND_def
      FLAG_LOOPBACK_def FLAG_IMPOSTOR_def Let_def bit.conj_disj_distrib2 and.assoc)

lemma same_addr_outbound: "same_addr a b \<Longrightarrow> IsOutbound b = IsOutbound a"
proof -
  assume "same_addr a b"
  then have "(wa_Flags a AND 0x0F) AND 2 = (wa_Flags b AND 0x0F) AND 2"
    by (simp add: same_addr_def)
  then have "wa_Flags a AND 2 = wa_Flags b AND 2"
    by (simp add: and.assoc)
  then show ?thesis
    by (simp add: IsOutbound_def FLAG_OUTBOUND_def)
qed

lemma forward_nat4_effect:
  assumes "tcp4 raw s d sp dp flags ihl off" "calc_keeps D" "rd_localProxyPort r \<noteq> 0"
    "rd_localProxyIP r = [] \<or> To4 (rd_localProxyIP r) = Some a"
  shows "\<exists>r' p' a'. forward_nat4 D now raw addr s d sp dp flags r = Some (r', [SendPacket p' a'])
    \<and> tcp4 p' s (if rd_localProxyIP r = [] then s else a) sp (rd_localProxyPort r) flags ihl off
    \<and> \<not> IsOutbound a' \<and> settings r' = settings r
    \<and> (\<exists>org. leads_to4 d dp addr org \<and> has_session (MakeSessionKeyIPv4 s sp) org (rd_coarseNano r) r')"
proof -
  let ?t = "if rd_localProxyIP r = [] then net_IPv4 s else rd_localProxyIP r"
  have len: "length s = 4" "length d = 4"
    using tcp4_lengths [OF assms(1)] by simp_all
  obtain p1 where p1: "RewriteIPv4TCP raw [] ?t 0 (rd_localProxyPort r) = Some (Inr p1)"
    "tcp4 p1 s (if rd_localProxyIP r = [] then s else a) sp (rd_localProxyPort r) flags ihl off"
    using tcp4_rewritten [OF assms(1), of "[]" ?t 0 "rd_localProxyPort r"] assms(3,4) len
    by (auto simp: new_addr_def new_port_def split: if_splits)
  obtain p' a' where c: "dv_calc D p1 (to_proxy addr) = (p', a')"
    by (cases "dv_calc D p1 (to_proxy addr)")
  have "same_packet4 p1 p'" "same_addr (to_proxy addr) a'"
    using assms(2) c p1(2) unfolding calc_keeps_def tcp4_iff by (metis fst_conv, metis snd_conv)
  then have pkt: "tcp4 p' s (if rd_localProxyIP r = [] then s else a) sp (rd_localProxyPort r) flags ihl off"
    "\<not> IsOutbound a'"
    using tcp4_same [OF p1(2)] same_addr_outbound by auto
  define r' where "r' = r\<lparr>rd_sessions := forward_session now (rd_coarseNano r) addr (MakeSessionKeyIPv4 s sp) (net_IPv4 d) dp
    flags (rd_sessions r)\<rparr>"
  have step: "forward_nat4 D now raw addr s d sp dp flags r = Some (r', [SendPacket p' a'])"
    using p1(1) c by (simp add: forward_nat4_def or_same_def r'_def cong: if_cong)
  obtain info where info: "rd_sessions r' (MakeSessionKeyIPv4 s sp) = Some info" "leads_to4 d dp addr (origin info)"
    "LastSeen info = rd_coarseNano r"
    using forward_session4 [OF len(2), of now "rd_coarseNano r" addr "MakeSessionKeyIPv4 s sp" dp flags "rd_sessions r"]
    by (auto simp: r'_def)
  then have "has_session (MakeSessionKeyIPv4 s sp) (origin info) (rd_coarseNano r) r'"
    by (simp add: has_session_def r'_def)
  moreover have "settings r' = settings r"
    by (simp add: settings_def r'_def)
  ultimately show ?thesis
    using step pkt info(2) by blast
qed

lemma reverse_nat4_effect:
  assumes "tcp4 q t s port sp flags ihl off" "calc_keeps D" "length q \<le> 1500" "dp \<noteq> 0"
    "leads_to4 d dp addr org" "has_session (MakeSessionKeyIPv4 s sp) org t0 r"
  shows "\<exists>r' q' a'. reverse_nat4 D q addr' s sp r = Some (Some (r', [SendPacket q' a']))
    \<and> tcp4 q' d s dp sp flags ihl off \<and> \<not> IsOutbound a'
    \<and> (wa_IfIdx addr \<noteq> 0 \<longrightarrow> wa_IfIdx a' = wa_IfIdx addr \<and> wa_SubIfIdx a' = wa_SubIfIdx addr)"
proof -
  obtain info where i: "rd_sessions r (MakeSessionKeyIPv4 s sp) = Some info" "leads_to4 d dp addr (origin info)"
    using assms(5,6) by (auto simp: has_session_def)
  define info' where "info' = (if rd_coarseNano r - LastSeen info > 1000000000 then info\<lparr>LastSeen := rd_coarseNano r\<rparr> else info)"
  have i': "leads_to4 d dp addr (origin info')"
    using i(2) by (simp add: info'_def)
  obtain q1 where q1: "RewriteIPv4TCP q (OriginalDstIP info') [] (OriginalDstPort info') 0 = Some (Inr q1)"
    "length q1 = length q" "tcp4 q1 d s dp sp flags ihl off"
    using tcp4_rewritten [OF assms(1), of "OriginalDstIP info'" "[]" "OriginalDstPort info'" 0] i' assms(4)
    by (auto simp: new_addr_def new_port_def leads_to4_def origin_def)
  obtain q' a' where c: "dv_calc D q1 (to_client info' addr') = (q', a')"
    by (cases "dv_calc D q1 (to_client info' addr')")
  have s: "same_packet4 q1 q'" "same_addr (to_client info' addr') a'"
    using assms(2) c q1(3) unfolding calc_keeps_def tcp4_iff by (metis fst_conv, metis snd_conv)
  then have l: "length q' \<le> 1500" "tcp4 q' d s dp sp flags ihl off"
    using q1 assms(3) tcp4_same by (auto simp: same_packet4_def)
  then have "FragmentIPv4 q' 1500 = Some [q']"
    by (auto simp: FragmentIPv4_def tcp4_def go_index_def)
  then show ?thesis
    using i i' q1 c s l same_addr_outbound [OF s(2)]
    by (auto simp: reverse_nat4_def Let_def or_same_def leads_to4_def origin_def same_addr_def simp flip: info'_def)
qed

text \<open>A connection the redirector translates: the client's port is neither the proxy's nor one of its outbound range.\<close>

definition translated :: "Redirector \<Rightarrow> uint16 \<Rightarrow> bool" where
  "translated r sp \<longleftrightarrow> \<not> rd_dryRun r \<and> \<not> own_port sp \<and> sp \<noteq> rd_localProxyPort r"

definition proxy_ip4 :: "Redirector \<Rightarrow> byte list \<Rightarrow> byte list option" where
  "proxy_ip4 r s = (if rd_localProxyIP r = [] then Some s else To4 (rd_localProxyIP r))"

lemma nat4_forward_step:
  assumes "tcp4 raw s d sp dp flags ihl off" "length raw \<le> 65535" "calc_keeps D" "rd_localProxyPort r \<noteq> 0"
    "proxy_ip4 r s = Some t" "translated r sp"
  shows "\<exists>r' p' a'. packet_step U D now raw addr r = Some (r', [SendPacket p' a'])
    \<and> tcp4 p' s t sp (rd_localProxyPort r) flags ihl off \<and> \<not> IsOutbound a' \<and> settings r' = settings r
    \<and> (\<exists>org. leads_to4 d dp addr org \<and> has_session (MakeSessionKeyIPv4 s sp) org (rd_coarseNano r) r')"
proof -
  have e: "(if rd_localProxyIP r = [] then s else t) = t" "rd_localProxyIP r = [] \<or> To4 (rd_localProxyIP r) = Some t"
    using assms(5) by (auto simp: proxy_ip4_def split: if_splits)
  from forward_nat4_effect [OF assms(1,3,4) e(2), unfolded e(1), of now addr] obtain r' p' a' where
    f: "forward_nat4 D now raw addr s d sp dp flags r = Some (r', [SendPacket p' a'])"
    "tcp4 p' s t sp (rd_localProxyPort r) flags ihl off" "\<not> IsOutbound a'" "settings r' = settings r"
    "\<exists>org. leads_to4 d dp addr org \<and> has_session (MakeSessionKeyIPv4 s sp) org (rd_coarseNano r) r'"
    by blast
  then have "packet_step U D now raw addr r = Some (r', [SendPacket p' a'])"
    using assms(1,6) tcp4_step [OF assms(1,2)] by (simp add: tcp4_packet_def translated_def tcp4_def)
  with f show ?thesis
    by blast
qed

lemma nat4_reverse_step:
  assumes "tcp4 q t s (rd_localProxyPort r) sp flags ihl off" "length q \<le> 1500" "calc_keeps D" "dp \<noteq> 0"
    "\<not> rd_dryRun r" "\<not> own_port (rd_localProxyPort r)"
    "leads_to4 d dp addr org" "has_session (MakeSessionKeyIPv4 s sp) org t0 r"
  shows "\<exists>r' q' a'. packet_step U D now q addr' r = Some (r', [SendPacket q' a'])
    \<and> tcp4 q' d s dp sp flags ihl off \<and> \<not> IsOutbound a'
    \<and> (wa_IfIdx addr \<noteq> 0 \<longrightarrow> wa_IfIdx a' = wa_IfIdx addr \<and> wa_SubIfIdx a' = wa_SubIfIdx addr)"
proof -
  obtain r' q' a' where
    b: "reverse_nat4 D q addr' s sp r = Some (Some (r', [SendPacket q' a']))" "tcp4 q' d s dp sp flags ihl off" "\<not> IsOutbound a'"
    "wa_IfIdx addr \<noteq> 0 \<longrightarrow> wa_IfIdx a' = wa_IfIdx addr \<and> wa_SubIfIdx a' = wa_SubIfIdx addr"
    using reverse_nat4_effect [OF assms(1,3,2,4,7,8), of addr'] by blast
  have "length q \<le> 65535"
    using assms(2) by simp
  from tcp4_step [OF assms(1) this] have "packet_step U D now q addr' r = Some (r', [SendPacket q' a'])"
    using b assms(1,5,6) by (simp add: tcp4_packet_def tcp4_def)
  with b show ?thesis
    by blast
qed

section \<open>Samples\<close>

definition plain_divert :: divert where
  "plain_divert = \<lparr>dv_send = (\<lambda>_ _. True), dv_calc = Pair\<rparr>"

definition sample_addr :: WinDivertAddress where
  "sample_addr = \<lparr>wa_Timestamp = 0, wa_Layer = 0, wa_Event = 0, wa_Flags = 2, wa_Reserved1 = 0, wa_IfIdx = 7,
     wa_SubIfIdx = 1, wa_Data = []\<rparr>"

text \<open>A TCP packet of forty bytes.\<close>

definition sample_tcp4 :: "byte list \<Rightarrow> byte list \<Rightarrow> uint16 \<Rightarrow> uint16 \<Rightarrow> uint8 \<Rightarrow> byte list" where
  "sample_tcp4 s d sp dp flags = [0x45, 0, 0, 40, 0, 1, 0, 0, 64, 6, 0, 0] @ s @ d
     @ [hi8 sp, lo8 sp, hi8 dp, lo8 dp, 0, 0, 0, 0, 0, 0, 0, 0, 0x50, flags, 0, 0, 0, 0, 0, 0]"

definition sample_rd :: Redirector where
  "sample_rd = \<lparr>rd_handle = Some 1, rd_filterStr = ''outbound and tcp'', rd_localProxyPort = 8080, rd_localProxyIP = [],
     rd_sessions = (\<lambda>_. None), rd_dryRunSessions = (\<lambda>_. None), rd_dryRun = False, rd_sniffMode = False, rd_filterEng = None,
     rd_routingEng = None, rd_dnsEng = None, rd_savedDNSEng = None, rd_coarseNano = 0, rd_dnsQueue = [], rd_filterUDP = False,
     rd_udpFlowTable = NewUDPFlowTable 60, rd_closed = False\<rparr>"

lemma plain_divert_keeps: "calc_keeps plain_divert"
  by (simp add: calc_keeps_def plain_divert_def same_addr_def same_packet4_def same_packet6_def)

lemma sample_tcp4_parses:
  assumes "length s = 4" "length d = 4"
  shows "tcp4 (sample_tcp4 s d sp dp flags) s d sp dp flags 20 20"
proof -
  obtain a b c e f g h i where "s = [a, b, c, e]" "d = [f, g, h, i]"
    using assms by (auto simp: numeral_eq_Suc length_Suc_conv)
  then show ?thesis
    by (simp add: tcp4_iff sample_tcp4_def hdr_len_def field_def IPPROTO_TCP_def)
qed

lemma sample_rd_fields:
  "rd_localProxyPort sample_rd = 8080" "rd_localProxyIP sample_rd = []" "\<not> rd_dryRun sample_rd" "rd_coarseNano sample_rd = 0"
  by (simp_all add: sample_rd_def)

section \<open>The theorems\<close>

text \<open>
  A client's packet reaches the proxy, and the proxy learns where it was going.  A TCP packet over IPv4 from a
  translated port is sent on as exactly one packet, inbound, to the proxy's address (the client's own address when none
  is configured) and the proxy's port, with its source, flags and header lengths unchanged; and from then on the
  address of the client gives the proxy the destination the packet had, with the table's session
  kept.  The driver is only assumed to write nothing but checksums when asked for checksums.
\<close>

theorem nat4_forward:
  assumes "tcp4 raw s d sp dp flags ihl off" "length raw \<le> 65535" "calc_keeps D" "rd_localProxyPort r \<noteq> 0"
    "proxy_ip4 r s = Some t" "translated r sp"
  shows "\<exists>r' p' a' ip. packet_step U D now raw addr r = Some (r', [SendPacket p' a'])
    \<and> tcp4 p' s t sp (rd_localProxyPort r) flags ihl off \<and> \<not> IsOutbound a'
    \<and> snd (LookupOriginalDestination later (TCPAddr s (uint sp)) (rd_sessions r')) = (ip, dp, True) \<and> To4 ip = Some d"
proof -
  from nat4_forward_step [OF assms, of U now addr] obtain r' p' a' org where
    f: "packet_step U D now raw addr r = Some (r', [SendPacket p' a'])"
    "tcp4 p' s t sp (rd_localProxyPort r) flags ihl off" "\<not> IsOutbound a'"
    "leads_to4 d dp addr org" "has_session (MakeSessionKeyIPv4 s sp) org (rd_coarseNano r) r'"
    by blast
  moreover have "MakeSessionKeyFromNetIP s sp = MakeSessionKeyIPv4 s sp"
    using tcp4_lengths [OF assms(1)] by (simp add: MakeSessionKeyFromNetIP_def MakeSessionKeyIPv4_def To4_def)
  ultimately show ?thesis
    by (auto simp: has_session_def leads_to4_def origin_def LookupOriginalDestination_def)
qed

theorem nat4_forward_witness:
  "\<exists>r' p' a' ip. packet_step plain_unicode plain_divert 0 (sample_tcp4 [10, 0, 0, 5] [93, 184, 216, 34] 51000 443 2) sample_addr
      sample_rd = Some (r', [SendPacket p' a'])
    \<and> tcp4 p' [10, 0, 0, 5] [10, 0, 0, 5] 51000 (rd_localProxyPort sample_rd) 2 20 20 \<and> \<not> IsOutbound a'
    \<and> snd (LookupOriginalDestination 5 (TCPAddr [10, 0, 0, 5] (uint (51000 :: uint16))) (rd_sessions r')) = (ip, 443, True)
    \<and> To4 ip = Some [93, 184, 216, 34]"
  by (rule nat4_forward [OF sample_tcp4_parses])
    (simp_all add: plain_divert_keeps sample_rd_fields sample_tcp4_def proxy_ip4_def translated_def own_port_def)



end
