(* ===== verification/RedirectorRules.thy ===== *)
theory RedirectorRules
  imports Translation
begin

text \<open>
  The packets that the redirector of \<open>internal/interceptor/redirector.go\<close> does not translate: those of a dry run, of the
  proxy's own outbound connections, UDP traffic under the filter, and intercepted DNS queries.
\<close>

section \<open>Packets sent by one step\<close>

definition sent :: "effect list \<Rightarrow> (byte list \<times> WinDivertAddress) list" where
  "sent out = concat (map (\<lambda>e. case e of SendPacket p a \<Rightarrow> [(p, a)] | _ \<Rightarrow> []) out)"

lemma sent_simps [simp]:
  "sent [] = []" "sent (SendPacket p a # out) = (p, a) # sent out" "sent (SpawnDNS t # out) = sent out"
  "sent (LogUDP b c d # out) = sent out" "sent (LogDryRun x c d u # out) = sent out"
  by (simp_all add: sent_def)

lemma sent_append [simp]: "sent (xs @ ys) = sent xs @ sent ys"
  by (simp add: sent_def)

text \<open>Conditions on the state and the effects a step ends with.\<close>

definition yields :: "('r \<times> effect list) option \<Rightarrow> ('r \<Rightarrow> effect list \<Rightarrow> bool) \<Rightarrow> bool" where
  "yields m P \<longleftrightarrow> (\<forall>r out. m = Some (r, out) \<longrightarrow> P r out)"

lemma yields_bind: "(\<And>x. yields (f x) P) \<Longrightarrow> yields (Option.bind m f) P"
  by (cases m) (auto simp: yields_def)

lemma yields_prod: "(\<And>a b. yields (f a b) P) \<Longrightarrow> yields (case x of (a, b) \<Rightarrow> f a b) P"
  by (cases x) simp

lemma yields_if: "yields x P \<Longrightarrow> yields y P \<Longrightarrow> yields (if b then x else y) P"
  by simp

lemma yields_Some: "P r out \<Longrightarrow> yields (Some (r, out)) P"
  by (simp add: yields_def)

lemmas yields_intros = yields_bind yields_prod yields_if yields_Some

section \<open>Dry run\<close>

lemma handleDryRunTCP_silent:
  "yields (handleDryRunTCP U now c ip port payload r) (\<lambda>r' out. rd_sessions r' = rd_sessions r \<and> sent out = [])"
  unfolding handleDryRunTCP_def Let_def by (intro yields_intros) (simp_all split: option.split)

lemma dry_run_tcp_silent:
  assumes "dry_run_tcp U now raw addr c ip port off r = Some (r', out)"
  shows "rd_sessions r' = rd_sessions r \<and> set (sent out) \<subseteq> {(raw, addr)}"
  using assms handleDryRunTCP_silent [of U now c ip port _ r]
  by (auto simp: dry_run_tcp_def yields_def split: Option.bind_splits if_splits)

lemma udp_dry_run_silent:
  assumes "udp_packet raw addr c ip v6 fk sp dp off r = Some (Some (r', out))" "rd_dryRun r"
  shows "rd_sessions r' = rd_sessions r \<and> set (sent out) \<subseteq> {(raw, addr)}"
  using assms
  by (auto simp: udp_packet_def filter_udp_def Let_def split: if_splits prod.splits)

lemma ip_dry_run_silent:
  "ipv4_packet U D now raw addr r = Some (Some (r', out)) \<Longrightarrow> rd_dryRun r \<Longrightarrow>
   rd_sessions r' = rd_sessions r \<and> set (sent out) \<subseteq> {(raw, addr)}"
  "ipv6_packet U D now raw addr r = Some (Some (r', out)) \<Longrightarrow> rd_dryRun r \<Longrightarrow>
   rd_sessions r' = rd_sessions r \<and> set (sent out) \<subseteq> {(raw, addr)}"
  by (auto simp: ipv4_packet_def ipv6_packet_def tcp4_packet_def tcp6_packet_def
      dest: dry_run_tcp_silent udp_dry_run_silent split: Option.bind_splits sum.splits prod.splits if_splits)

text \<open>
  A dry run changes no traffic.  With the dry run on, whatever packet arrives, the redirector sends nothing but that
  very packet with the address it came with, and it opens, renews or closes no session.
\<close>

theorem dry_run_passive:
  assumes "rd_dryRun r" "packet_step U D now raw addr r = Some (r', out)"
  shows "rd_sessions r' = rd_sessions r \<and> set (sent out) \<subseteq> {(raw, addr)}"
  using assms
  by (auto simp: packet_step_def go_index_def Let_def dest: ip_dry_run_silent
      split: Option.bind_splits if_splits option.splits)

theorem dry_run_passive_witness:
  "\<exists>r' out. packet_step plain_unicode plain_divert 0 [0x45] sample_addr (SetDryRun True '''' None None sample_rd) = Some (r', out)
    \<and> rd_sessions r' = rd_sessions (SetDryRun True '''' None None sample_rd) \<and> set (sent out) \<subseteq> {([0x45], sample_addr)}"
proof -
  let ?r = "SetDryRun True '''' None None sample_rd"
  have s: "packet_step plain_unicode plain_divert 0 [0x45] sample_addr ?r = Some (?r, [SendPacket [0x45] sample_addr])"
    by (simp add: packet_step_def go_index_def ipv4_packet_def ParseIPv4Fast_def Let_def)
  have "rd_dryRun ?r"
    by (simp add: SetDryRun_def)
  from dry_run_passive [OF this s] s show ?thesis
    by blast
qed

section \<open>Packets that pass\<close>

text \<open>A UDP packet over IPv4, as the two parsers see it.\<close>

definition udp4 :: "byte list \<Rightarrow> byte list \<Rightarrow> byte list \<Rightarrow> uint16 \<Rightarrow> uint16 \<Rightarrow> uint16 \<Rightarrow> nat \<Rightarrow> bool" where
  "udp4 p s d sp dp len ihl \<longleftrightarrow> p \<noteq> [] \<and> length p \<le> 65535 \<and> drop_bit 4 (p ! 0) = 4
     \<and> ParseIPv4Fast p = Some (Inr (IPPROTO_UDP, s, d, ihl)) \<and> ParseUDPFast p ihl = Some (Inr (sp, dp, len, ihl + 8))"

lemma udp4_step:
  assumes "udp4 raw s d sp dp len ihl"
  shows "packet_step U D now raw addr r =
    map_option (\<lambda>out. case out of Some res \<Rightarrow> res | None \<Rightarrow> (r, [SendPacket raw addr]))
      (udp_packet raw addr (net_IPv4 s) (net_IPv4 d) False (MakeUDPFlowKeyIPv4 s d sp dp) sp dp (ihl + 8) r)"
  using assms by (auto simp: packet_step_def ipv4_packet_def udp4_def go_index_def map_option_case IPPROTO_UDP_def IPPROTO_TCP_def
      split: option.splits)



section \<open>UDP\<close>

definition udp_blocked :: "Redirector \<Rightarrow> byte list \<Rightarrow> bool" where
  "udp_blocked r d = (case rd_filterEng r of Some blocks \<Rightarrow> blocks (IP_String (net_IPv4 d)) | None \<Rightarrow> False)"

lemma sent_log: "sent (if b then [LogUDP x y z] else []) = []"
  by simp


definition sample_udp4 :: "byte list \<Rightarrow> byte list \<Rightarrow> uint16 \<Rightarrow> uint16 \<Rightarrow> byte list \<Rightarrow> byte list" where
  "sample_udp4 s d sp dp payload = [0x45, 0, 0, 30, 0, 1, 0, 0, 64, 17, 0, 0] @ s @ d
     @ [hi8 sp, lo8 sp, hi8 dp, lo8 dp, 0, 10, 0, 0] @ payload"

lemma sample_udp4_parses:
  assumes "length s = 4" "length d = 4" "length payload \<le> 65507"
  shows "udp4 (sample_udp4 s d sp dp payload) s d sp dp 10 20"
proof -
  obtain a b c e f g h i where sd: "s = [a, b, c, e]" "d = [f, g, h, i]"
    using assms(1,2) by (auto simp: numeral_eq_Suc length_Suc_conv)
  let ?p = "sample_udp4 s d sp dp payload"
  have len: "length ?p = 28 + length payload"
    using assms by (simp add: sample_udp4_def)
  have at: "?p ! 0 = 0x45" "?p ! 9 = 17" "?p ! 20 = hi8 sp" "?p ! 21 = lo8 sp" "?p ! 22 = hi8 dp" "?p ! 23 = lo8 dp"
    "?p ! 24 = 0" "?p ! 25 = 10" "field ?p 12 4 = s" "field ?p 16 4 = d"
    by (simp_all add: sample_udp4_def sd field_def)
  have "be16 0 10 = 10"
    by (simp add: be16_def)
  moreover have "?p \<noteq> []" "length ?p \<le> 65535"
    using len assms(3) by auto
  ultimately show ?thesis
    unfolding udp4_def ParseIPv4Fast_result ParseUDPFast_result using len at by (simp add: IPPROTO_UDP_def)
qed




section \<open>Deviations\<close>

text \<open>
  A dry run sends packets twice.  For a dry run \<open>Start\<close> opens the driver in its sniffing mode, in which the packet itself
  continues on its way and the redirector gets a copy.  The code takes care not to send TCP packets again in that
  mode, but every UDP packet that is handed to it is sent once more.
\<close>

theorem sniff_mode_resends:
  assumes "udp4 raw s d sp dp len ihl" "rd_dryRun r" "\<not> rd_closed r"
  shows "\<exists>r1 r2 out. rd_Start (\<lambda>_ _. Inr h) t r = (r1, None) \<and> rd_sniffMode r1
    \<and> packet_step U D now raw addr r1 = Some (r2, out) \<and> sent out = [(raw, addr)]"
  using assms
  by (auto simp: rd_Start_def udp4_step [OF assms(1)] udp_packet_def filter_udp_def sent_log Let_def split: prod.splits)

theorem sniff_mode_resends_witness:
  "\<exists>r1 r2 out. rd_Start (\<lambda>_ _. Inr 1) 0 (SetDryRun True '''' None None sample_rd) = (r1, None) \<and> rd_sniffMode r1
    \<and> packet_step plain_unicode plain_divert 0 (sample_udp4 [10, 0, 0, 5] [8, 8, 8, 8] 51000 443 [1, 2]) sample_addr r1
      = Some (r2, out) \<and> sent out = [(sample_udp4 [10, 0, 0, 5] [8, 8, 8, 8] 51000 443 [1, 2], sample_addr)]"
  by (rule sniff_mode_resends [OF sample_udp4_parses]) (simp_all add: SetDryRun_def sample_rd_def)

text \<open>
  With an IPv6 listening address, IPv4 packets lose their way.  The IPv6 branch of the packet loop falls back to the
  client's own address when the configured proxy address is of the other family; the IPv4 branch does not, so
  the packet keeps its remote destination address and only its port becomes the proxy's.
\<close>

theorem ipv6_proxy_keeps_ipv4_destination:
  assumes "tcp4 raw s d sp dp flags ihl off" "rd_localProxyPort r \<noteq> 0" "rd_localProxyIP r \<noteq> []"
    "To4 (rd_localProxyIP r) = None" "calc_keeps D"
  shows "\<exists>r' p' a'. forward_nat4 D now raw addr s d sp dp flags r = Some (r', [SendPacket p' a'])
    \<and> tcp4 p' s d sp (rd_localProxyPort r) flags ihl off \<and> \<not> IsOutbound a'"
proof -
  obtain p1 where p1: "RewriteIPv4TCP raw [] (rd_localProxyIP r) 0 (rd_localProxyPort r) = Some (Inr p1)"
    "tcp4 p1 s d sp (rd_localProxyPort r) flags ihl off"
    using tcp4_rewritten [OF assms(1), of "[]" "rd_localProxyIP r" 0 "rd_localProxyPort r"] assms(2,4)
    by (auto simp: new_addr_def new_port_def)
  obtain p' a' where c: "dv_calc D p1 (to_proxy addr) = (p', a')"
    by (cases "dv_calc D p1 (to_proxy addr)")
  have "same_packet4 p1 p'" "same_addr (to_proxy addr) a'"
    using assms(5) c p1(2) unfolding calc_keeps_def tcp4_iff by (metis fst_conv, metis snd_conv)
  then show ?thesis
    using assms(3) p1 c tcp4_same [OF p1(2)] same_addr_outbound by (auto simp: forward_nat4_def or_same_def)
qed

theorem ipv6_proxy_keeps_ipv4_destination_witness:
  "\<exists>r' p' a'. forward_nat4 plain_divert 0 (sample_tcp4 [10, 0, 0, 5] [93, 184, 216, 34] 51000 443 2) sample_addr [10, 0, 0, 5]
      [93, 184, 216, 34] 51000 443 2 (sample_rd\<lparr>rd_localProxyIP := [0xFD, 0, 0, 0, 0, 0, 0, 0, 0, 0, 0, 0, 0, 0, 0, 1]\<rparr>) = Some (r', [SendPacket p' a'])
    \<and> tcp4 p' [10, 0, 0, 5] [93, 184, 216, 34] 51000 (rd_localProxyPort (sample_rd\<lparr>rd_localProxyIP := [0xFD, 0, 0, 0, 0, 0, 0, 0, 0, 0, 0, 0, 0, 0, 0, 1]\<rparr>)) 2 20 20
    \<and> \<not> IsOutbound a'"
  by (rule ipv6_proxy_keeps_ipv4_destination [OF sample_tcp4_parses])
    (simp_all add: sample_rd_def plain_divert_keeps To4_def v4InV6Prefix_def)

end
