(* ===== verification/DnsParser.thy ===== *)
theory DnsParser
  imports GoStrings
begin

text \<open>
  DNS messages on the wire, \<open>internal/dns/parser.go\<close>.  \<open>None\<close> is a panic, \<open>Some (Inl e)\<close> a returned error.

  The lemmas show that nothing panics on any bytes, that the name parser terminates (a compression pointer
  may be followed ten times at most), that a built query parses back to its name and type, and that an error
  response echoes the question section byte for byte: the scan that measures the section agrees with
  the parser.
\<close>

datatype derr = DErrPacketTooShort | DErrInvalidQName | DErrPointerLoop

record dns_header =
  dh_ID :: uint16
  dh_Flags :: uint16
  dh_QDCount :: uint16
  dh_ANCount :: uint16
  dh_NSCount :: uint16
  dh_ARCount :: uint16

record Question =
  q_Name :: string
  q_Type :: uint16
  q_Class :: uint16

record dns_message =
  msg_Header :: dns_header
  msg_Questions :: "Question list"
  msg_Raw :: "byte list"

section \<open>Names\<close>

text \<open>
  The loop of \<open>parseDomainName\<close>.  Every round either advances inside the data or follows a pointer, of
  which there are \<open>maxJumps = 10\<close> at most.
\<close>

function name_loop ::
  "byte list \<Rightarrow> nat \<Rightarrow> bool \<Rightarrow> nat \<Rightarrow> nat \<Rightarrow> string list \<Rightarrow> (derr + string list \<times> nat) option" where
  "name_loop data cur jumped jumps retOffset labels =
     (if cur \<ge> length data then Some (Inl DErrPacketTooShort)
      else do {
        b \<leftarrow> go_index data cur;
        let len = unat b;
        if len = 0 then Some (Inr (labels, if \<not> jumped then cur + 1 else retOffset))
        else if b AND 0xC0 = 0xC0 then
          (if cur + 1 \<ge> length data then Some (Inl DErrPacketTooShort)
           else do {
             let retOffset' = (if \<not> jumped then cur + 2 else retOffset);
             w \<leftarrow> u16_at data cur (cur + 2);
             let pointer = unat (w AND 0x3FFF);
             if pointer \<ge> length data then Some (Inl DErrInvalidQName)
             else if jumps + 1 > 10 then Some (Inl DErrPointerLoop)
             else name_loop data pointer True (jumps + 1) retOffset' labels
           })
        else if cur + 1 + len > length data then Some (Inl DErrPacketTooShort)
        else do {
          label \<leftarrow> go_slice data (cur + 1) (cur + 1 + len);
          name_loop data (cur + 1 + len) jumped jumps retOffset (labels @ [str label])
        }
      })"
  by pat_completeness auto
termination
  by (relation "measures [\<lambda>(data, cur, jumped, jumps, _). 11 - jumps, \<lambda>(data, cur, _). length data - cur]") auto

declare name_loop.simps [simp del]

definition parseDomainName :: "unicode \<Rightarrow> byte list \<Rightarrow> nat \<Rightarrow> (derr + string \<times> nat) option" where
  "parseDomainName U data offset =
     (if offset \<ge> length data then Some (Inl DErrPacketTooShort)
      else do {
        r \<leftarrow> name_loop data offset False 0 offset [];
        case r of
          Inl err \<Rightarrow> Some (Inl err)
        | Inr (labels, retOffset) \<Rightarrow> Some (Inr (ToLower U (Join labels ''.''), retOffset))
      })"

section \<open>Queries\<close>

text \<open>The loop over the questions, \<open>n\<close> of them left.\<close>

fun question_loop :: "unicode \<Rightarrow> byte list \<Rightarrow> nat \<Rightarrow> nat \<Rightarrow> Question list \<Rightarrow> (derr + Question list) option" where
  "question_loop U data 0 offset qs = Some (Inr qs)"
| "question_loop U data (Suc n) offset qs = do {
     r \<leftarrow> parseDomainName U data offset;
     case r of
       Inl err \<Rightarrow> Some (Inl err)
     | Inr (name, newOffset) \<Rightarrow>
         if newOffset + 4 > length data then Some (Inl DErrPacketTooShort)
         else do {
           qType \<leftarrow> u16_at data newOffset (newOffset + 2);
           qClass \<leftarrow> u16_at data (newOffset + 2) (newOffset + 4);
           question_loop U data n (newOffset + 4)
             (qs @ [\<lparr>q_Name = name, q_Type = qType, q_Class = qClass\<rparr>])
         }
   }"

definition ParseQuery :: "unicode \<Rightarrow> byte list \<Rightarrow> (derr + dns_message) option" where
  "ParseQuery U data =
     (if length data < 12 then Some (Inl DErrPacketTooShort)
      else do {
        ident \<leftarrow> u16_at data 0 2;
        flags \<leftarrow> u16_at data 2 4;
        qd \<leftarrow> u16_at data 4 6;
        an \<leftarrow> u16_at data 6 8;
        ns \<leftarrow> u16_at data 8 10;
        ar \<leftarrow> u16_at data 10 12;
        r \<leftarrow> question_loop U data (unat qd) 12 [];
        case r of
          Inl err \<Rightarrow> Some (Inl err)
        | Inr qs \<Rightarrow> Some (Inr
            \<lparr>msg_Header = \<lparr>dh_ID = ident, dh_Flags = flags, dh_QDCount = qd, dh_ANCount = an,
                           dh_NSCount = ns, dh_ARCount = ar\<rparr>,
             msg_Questions = qs, msg_Raw = data\<rparr>)
      })"

section \<open>Error responses\<close>

text \<open>The inner loop \<open>for offset < len(reqData)\<close> of \<open>BuildErrorResponse\<close>.\<close>

function skip_name :: "byte list \<Rightarrow> nat \<Rightarrow> nat" where
  "skip_name data offset =
     (if offset < length data then
        (let l = unat (data ! offset)
         in if l = 0 then offset + 1
            else if data ! offset AND 0xC0 = 0xC0 then offset + 2
            else skip_name data (offset + (1 + l)))
      else offset)"
  by pat_completeness auto
termination
  by (relation "measure (\<lambda>(data, offset). length data - offset)") auto

declare skip_name.simps [simp del]

fun skip_questions :: "byte list \<Rightarrow> nat \<Rightarrow> nat \<Rightarrow> nat" where
  "skip_questions data 0 offset = offset"
| "skip_questions data (Suc n) offset = skip_questions data n (skip_name data offset + 4)"

definition question_len :: "unicode \<Rightarrow> byte list \<Rightarrow> (nat \<times> uint16) option" where
  "question_len U reqData = do {
     r \<leftarrow> ParseQuery U reqData;
     case r of
       Inr msg \<Rightarrow>
         if length (msg_Questions msg) > 0 then
           (let offset = skip_questions reqData (unat (dh_QDCount (msg_Header msg))) 12
            in Some (if offset \<le> length reqData then offset - 12 else 0, dh_QDCount (msg_Header msg)))
         else Some (0, 0)
     | Inl _ \<Rightarrow> Some (0, 0)
   }"

definition BuildErrorResponse :: "unicode \<Rightarrow> byte list \<Rightarrow> uint8 \<Rightarrow> byte list option" where
  "BuildErrorResponse U reqData rcode =
     (if length reqData < 12 then do {
        let resp = replicate 12 0;
        resp \<leftarrow> go_set resp 2 0x81;
        go_set resp 3 (0x80 OR (rcode AND 0x0F))
      }
      else do {
        (questionLen, qdCount) \<leftarrow> question_len U reqData;
        let resp = replicate (12 + questionLen) 0;
        ident \<leftarrow> go_slice reqData 0 2;
        resp \<leftarrow> go_copy resp 0 2 ident;
        let flags = (0x8180 :: uint16) OR ucast (rcode AND 0x0F);
        flags \<leftarrow> (if length reqData \<ge> 4 then do {
                    b \<leftarrow> go_index reqData 2;
                    let rdBit = b AND 0x01;
                    Some ((flags AND NOT 0x0100) OR push_bit 8 (ucast rdBit))
                  } else Some flags);
        resp \<leftarrow> PutUint16 resp 2 4 flags;
        if questionLen > 0 then do {
          resp \<leftarrow> PutUint16 resp 4 6 qdCount;
          q \<leftarrow> go_slice reqData 12 (12 + questionLen);
          go_copy resp 12 (length resp) q
        } else Some resp
      })"

section \<open>Lifetimes\<close>

text \<open>The first loop of \<open>ExtractMinTTL\<close>; \<open>Some None\<close> is \<open>return defaultTTL\<close>.\<close>

fun skip_section :: "unicode \<Rightarrow> byte list \<Rightarrow> nat \<Rightarrow> nat \<Rightarrow> nat option option" where
  "skip_section U data 0 offset = Some (Some offset)"
| "skip_section U data (Suc n) offset =
     (if offset < length data then do {
        r \<leftarrow> parseDomainName U data offset;
        case r of
          Inl _ \<Rightarrow> Some None
        | Inr (_, newOffset) \<Rightarrow> skip_section U data n (newOffset + 4)
      } else Some (Some offset))"

fun ttl_loop :: "unicode \<Rightarrow> byte list \<Rightarrow> nat \<Rightarrow> nat \<Rightarrow> uint32 \<Rightarrow> bool \<Rightarrow> (uint32 \<times> bool) option" where
  "ttl_loop U data 0 offset minTTL found = Some (minTTL, found)"
| "ttl_loop U data (Suc n) offset minTTL found =
     (if offset < length data then do {
        r \<leftarrow> parseDomainName U data offset;
        case r of
          Inl _ \<Rightarrow> Some (minTTL, found)
        | Inr (_, offset) \<Rightarrow>
            if offset + 10 > length data then Some (minTTL, found)
            else do {
              ttl \<leftarrow> u32_at data (offset + 4) (offset + 8);
              w \<leftarrow> u16_at data (offset + 8) (offset + 10);
              let offset = offset + (10 + unat w);
              if ttl > 0 \<and> ttl < minTTL then ttl_loop U data n offset ttl True
              else ttl_loop U data n offset minTTL found
            }
      } else Some (minTTL, found))"

definition ExtractMinTTL :: "unicode \<Rightarrow> byte list \<Rightarrow> uint32 \<Rightarrow> uint32 option" where
  "ExtractMinTTL U respData defaultTTL =
     (if length respData < 12 then Some defaultTTL
      else do {
        qd \<leftarrow> u16_at respData 4 6;
        an \<leftarrow> u16_at respData 6 8;
        let qdCount = unat qd;
        let anCount = unat an;
        if anCount = 0 then Some defaultTTL
        else do {
          r \<leftarrow> skip_section U respData qdCount 12;
          case r of
            None \<Rightarrow> Some defaultTTL
          | Some offset \<Rightarrow> do {
              (minTTL, found) \<leftarrow> ttl_loop U respData anCount offset 0xFFFFFFFF False;
              if found \<and> minTTL > 0 then Some (if minTTL > 86400 then 86400 else minTTL)
              else Some defaultTTL
            }
        }
      })"

definition TypeToString :: "uint16 \<Rightarrow> string" where
  "TypeToString t =
     (if t = 1 then ''A'' else if t = 28 then ''AAAA'' else if t = 5 then ''CNAME''
      else if t = 2 then ''NS'' else if t = 12 then ''PTR'' else if t = 15 then ''MX''
      else if t = 16 then ''TXT'' else if t = 6 then ''SOA'' else if t = 33 then ''SRV''
      else if t = 255 then ''ANY'' else ''TYPE'' @ Itoa (unat t))"

section \<open>No panics\<close>

lemma name_loop_returns [returns_intros]: "returns (name_loop data cur jumped jumps retOffset labels)"
proof (induction data cur jumped jumps retOffset labels rule: name_loop.induct)
  case (1 data cur jumped jumps retOffset labels)
  then show ?case
    by (subst name_loop.simps) (auto simp: Let_def intro!: returns_intros)
qed

lemma parseDomainName_returns [returns_intros]: "returns (parseDomainName U data offset)"
  by (auto simp: parseDomainName_def intro!: returns_intros split: sum.split)

lemma question_loop_returns [returns_intros]: "returns (question_loop U data n offset qs)"
  by (induction n arbitrary: offset qs) (auto intro!: returns_intros split: sum.split)

lemma ParseQuery_returns [returns_intros]: "returns (ParseQuery U data)"
  by (auto simp: ParseQuery_def intro!: returns_intros split: sum.split)

lemma skip_section_returns [returns_intros]: "returns (skip_section U data n offset)"
  by (induction n arbitrary: offset) (auto intro!: returns_intros split: sum.split)

lemma ttl_loop_returns [returns_intros]: "returns (ttl_loop U data n offset minTTL found)"
  by (induction n arbitrary: offset minTTL found) (auto simp: Let_def intro!: returns_intros split: sum.split)

lemma ExtractMinTTL_returns [returns_intros]: "returns (ExtractMinTTL U data d)"
  by (auto simp: ExtractMinTTL_def Let_def intro!: returns_intros split: option.split)

section \<open>The scan agrees with the parser\<close>

lemma name_loop_step:
  assumes "cur < length data"
  shows "name_loop data cur jumped jumps ret labels =
     (if data ! cur = 0 then Some (Inr (labels, if \<not> jumped then cur + 1 else ret))
      else if data ! cur AND 0xC0 = 0xC0 then
        (if length data \<le> cur + 1 then Some (Inl DErrPacketTooShort)
         else let pointer = unat (be16 (data ! cur) (data ! (cur + 1)) AND 0x3FFF)
              in if length data \<le> pointer then Some (Inl DErrInvalidQName)
                 else if 10 \<le> jumps then Some (Inl DErrPointerLoop)
                 else name_loop data pointer True (jumps + 1) (if \<not> jumped then cur + 2 else ret) labels)
      else let n = unat (data ! cur)
           in if length data < cur + 1 + n then Some (Inl DErrPacketTooShort)
              else name_loop data (cur + 1 + n) jumped jumps ret (labels @ [str (field data (cur + 1) n)]))"
  using assms by (subst name_loop.simps) (simp add: go_simps Let_def unat_eq_0)

lemma name_loop_end:
  "length data \<le> cur \<Longrightarrow> name_loop data cur jumped jumps ret labels = Some (Inl DErrPacketTooShort)"
  by (subst name_loop.simps) simp

text \<open>The induction the loop is made for: pointers run out, labels advance.\<close>

lemma name_induct:
  fixes data :: "byte list" and P :: "nat \<Rightarrow> bool \<Rightarrow> nat \<Rightarrow> nat \<Rightarrow> string list \<Rightarrow> bool"
  assumes "\<And>cur jumped jumps ret labels.
      (\<And>p ret'. jumps < 10 \<Longrightarrow> P p True (jumps + 1) ret' labels) \<Longrightarrow>
      (\<And>n ls. cur < length data \<Longrightarrow> P (cur + 1 + n) jumped jumps ret ls) \<Longrightarrow>
      P cur jumped jumps ret labels"
  shows "P cur jumped jumps ret labels"
  using assms
  by induction_schema
    (pat_completeness, relation "measures [\<lambda>(cur, jumped, jumps, _). 11 - jumps, \<lambda>(cur, _). length data - cur]", auto)

text \<open>After a jump the end of the name is settled.\<close>

lemma name_loop_jumped:
  "name_loop data cur jumped jumps ret labels = Some (Inr (ls, off)) \<Longrightarrow> jumped \<Longrightarrow> off = ret"
proof (induction cur jumped jumps ret labels rule: name_induct [where data = data])
  case (1 cur jumped jumps ret labels)
  show ?case
  proof (cases "cur < length data")
    case True
    with 1 show ?thesis
      unfolding name_loop_step [OF True] by (auto simp: Let_def split: if_splits)
  next
    case False
    with 1(3) show ?thesis
      by (simp add: name_loop_end)
  qed
qed

lemma name_loop_skip:
  "name_loop data cur jumped jumps ret labels = Some (Inr (ls, off)) \<Longrightarrow> \<not> jumped \<Longrightarrow>
   skip_name data cur = off \<and> cur < off \<and> off \<le> length data"
proof (induction cur jumped jumps ret labels rule: name_induct [where data = data])
  case (1 cur jumped jumps ret labels)
  show ?case
  proof (cases "cur < length data")
    case True
    note IH = 1(2) [OF True, simplified]
    show ?thesis
      using True 1(3,4) unfolding name_loop_step [OF True]
      by (subst skip_name.simps)
        (auto simp: Let_def unat_eq_0 dest: name_loop_jumped dest!: IH split: if_splits)
  next
    case False
    with 1(3) show ?thesis
      by (simp add: name_loop_end)
  qed
qed

lemma parseDomainName_skip:
  "parseDomainName U data offset = Some (Inr (name, off)) \<Longrightarrow>
   skip_name data offset = off \<and> offset < off \<and> off \<le> length data"
  by (auto simp: parseDomainName_def elim!: bind_SomeE dest: name_loop_skip split: if_split_asm sum.split_asm)

text \<open>Where the parser stands after \<open>n\<close> questions.\<close>

fun question_end :: "unicode \<Rightarrow> byte list \<Rightarrow> nat \<Rightarrow> nat \<Rightarrow> nat option" where
  "question_end U data 0 offset = Some offset"
| "question_end U data (Suc n) offset =
     (case parseDomainName U data offset of
        Some (Inr (_, off)) \<Rightarrow> question_end U data n (off + 4)
      | _ \<Rightarrow> None)"

lemma question_loop_end:
  "question_loop U data n offset qs = Some (Inr qs') \<Longrightarrow> offset \<le> length data \<Longrightarrow>
   question_end U data n offset = Some (skip_questions data n offset)
   \<and> skip_questions data n offset \<le> length data \<and> offset \<le> skip_questions data n offset \<and> length qs' = length qs + n"
proof (induction n arbitrary: offset qs)
  case (Suc n)
  from Suc.prems(1) obtain name off t c where p: "parseDomainName U data offset = Some (Inr (name, off))"
    and len: "off + 4 \<le> length data"
    and r: "question_loop U data n (off + 4) (qs @ [\<lparr>q_Name = name, q_Type = t, q_Class = c\<rparr>]) = Some (Inr qs')"
    by (auto elim!: bind_SomeE split: sum.split_asm if_split_asm)
  with Suc.IH [OF r] len parseDomainName_skip [OF p] p show ?case
    by auto
qed simp

lemma question_end_less: "question_end U data (Suc n) offset = Some e \<Longrightarrow> offset < e"
proof (induction n arbitrary: offset)
  case (Suc n)
  then show ?case
    by (fastforce split: option.splits sum.splits dest: parseDomainName_skip)
qed (auto split: option.splits sum.splits dest: parseDomainName_skip)

section \<open>Error responses\<close>

lemma low_bit: "(b :: byte) AND 0x01 \<in> {0, 1}"
  by (simp add: and_one_eq mod_2_eq_odd)

lemma error_flags:
  fixes b rcode :: byte
  defines "f \<equiv> (((0x8180 :: uint16) OR ucast (rcode AND 0x0F)) AND NOT 0x0100) OR push_bit 8 (ucast (b AND 0x01))"
  shows "hi8 f = 0x80 OR (b AND 0x01)" "lo8 f = 0x80 OR (rcode AND 0x0F)"
proof -
  let ?flags = "\<lambda>(x :: byte) (y :: byte). (((0x8180 :: uint16) OR ucast x) AND NOT 0x0100) OR push_bit 8 (ucast y)"
  have all: "list_all (\<lambda>k. list_all (\<lambda>y. hi8 (?flags (of_nat k) y) = 0x80 OR y
      \<and> lo8 (?flags (of_nat k) y) = 0x80 OR of_nat k) [0, 1]) [0..<16]"
    by code_simp
  have "unat (rcode AND 0x0F) \<in> set [0..<16]" "b AND 0x01 \<in> set [0, 1]"
    using and_0F_less [of rcode] low_bit [of b] by auto
  moreover have "of_nat (unat (rcode AND 0x0F)) = rcode AND 0x0F"
    by simp
  ultimately have "hi8 (?flags (rcode AND 0x0F) (b AND 0x01)) = 0x80 OR (b AND 0x01)
      \<and> lo8 (?flags (rcode AND 0x0F) (b AND 0x01)) = 0x80 OR (rcode AND 0x0F)"
    using all unfolding list_all_iff by metis
  then show "hi8 f = 0x80 OR (b AND 0x01)" "lo8 f = 0x80 OR (rcode AND 0x0F)"
    unfolding f_def by blast+
qed

lemma BuildErrorResponse_run:
  assumes len: "12 \<le> length req" and q: "question_len U req = Some (n, qd)" and n: "12 + n \<le> length req"
  shows "BuildErrorResponse U req rcode = Some ([req ! 0, req ! 1, 0x80 OR (req ! 2 AND 0x01), 0x80 OR (rcode AND 0x0F)]
     @ (if 0 < n then [hi8 qd, lo8 qd] else [0, 0]) @ [0, 0, 0, 0, 0, 0] @ field req 12 n)"
proof -
  define f where "f = (((0x8180 :: uint16) OR ucast (rcode AND 0x0F)) AND NOT 0x0100) OR push_bit 8 (ucast (req ! 2 AND 0x01))"
  define a b where "a = req ! 0" and "b = req ! 1"
  define body where "body = field req 12 n"
  let ?r = "\<lambda>c d e g t. [a, b, c, d, e, g, 0, 0, 0, 0, 0, 0] @ t"
  have lb: "length body = n"
    using n by (simp add: body_def)
  obtain r where r: "req = a # b # r"
    using drop_two [of 0 req] len by (auto simp: a_def b_def)
  have s: "go_slice req 0 2 = Some [a, b]" "go_slice req 12 (12 + n) = Some body" "go_index req 2 = Some (req ! 2)"
    using len n by (simp_all add: go_slice_def body_def field_def go_index_def) (simp add: r)
  have steps: "go_copy (replicate (12 + n) 0) 0 2 [a, b] = Some (?r 0 0 0 0 (replicate n 0))"
    "PutUint16 (?r 0 0 0 0 (replicate n 0)) 2 4 f = Some (?r (hi8 f) (lo8 f) 0 0 (replicate n 0))"
    "PutUint16 (?r (hi8 f) (lo8 f) 0 0 (replicate n 0)) 4 6 qd = Some (?r (hi8 f) (lo8 f) (hi8 qd) (lo8 qd) (replicate n 0))"
    "go_copy (?r (hi8 f) (lo8 f) (hi8 qd) (lo8 qd) (replicate n 0)) 12
        (length (?r (hi8 f) (lo8 f) (hi8 qd) (lo8 qd) (replicate n 0))) body
      = Some (?r (hi8 f) (lo8 f) (hi8 qd) (lo8 qd) body)"
    using lb by (simp_all add: go_simps blit_def replicate_add numeral_eq_Suc)
  have c: "\<not> length req < 12" "length req \<ge> 4"
    using len by simp_all
  have "BuildErrorResponse U req rcode = Some (if 0 < n then ?r (hi8 f) (lo8 f) (hi8 qd) (lo8 qd) body
      else ?r (hi8 f) (lo8 f) 0 0 (replicate n 0))"
    by (simp only: BuildErrorResponse_def q s c steps f_def [symmetric] Let_def if_False if_True Option.bind.simps prod.case
        split: if_split) simp
  moreover have "hi8 f = 0x80 OR (req ! 2 AND 0x01)" "lo8 f = 0x80 OR (rcode AND 0x0F)"
    unfolding f_def by (rule error_flags)+
  ultimately show ?thesis
    using lb by (auto simp: a_def b_def body_def)
qed


lemma error_response:
  assumes "ParseQuery U req = Some (Inr msg)" "msg_Questions msg \<noteq> []"
  shows "\<exists>e. question_end U req (unat (dh_QDCount (msg_Header msg))) 12 = Some e \<and> 12 \<le> e \<and> e \<le> length req
     \<and> BuildErrorResponse U req rcode = Some (
         [req ! 0, req ! 1, 0x80 OR (req ! 2 AND 0x01), 0x80 OR (rcode AND 0x0F), req ! 4, req ! 5, 0, 0, 0, 0, 0, 0]
         @ field req 12 (e - 12))"
proof -
  let ?n = "unat (dh_QDCount (msg_Header msg))" and ?e = "skip_questions req (unat (dh_QDCount (msg_Header msg))) 12"
  have len: "12 \<le> length req" and qd: "dh_QDCount (msg_Header msg) = be16 (req ! 4) (req ! 5)"
    and ql: "question_loop U req ?n 12 [] = Some (Inr (msg_Questions msg))"
    using assms(1) by (auto simp: ParseQuery_def go_simps elim!: bind_SomeE split: if_split_asm sum.split_asm)
  from question_loop_end [OF ql len] have e: "question_end U req ?n 12 = Some ?e" "?e \<le> length req" "12 \<le> ?e"
    and n: "length (msg_Questions msg) = ?n"
    by simp_all
  have q: "question_len U req = Some (?e - 12, dh_QDCount (msg_Header msg))"
    using assms e(2) by (simp add: question_len_def)
  have "0 < ?n"
    using n assms(2) by (metis length_greater_0_conv)
  then have "12 < ?e"
    using e(1) question_end_less [of U req _ 12] by (cases ?n) auto
  then show ?thesis
    using BuildErrorResponse_run [OF len q] e qd by (intro exI [of _ ?e]) simp
qed

text \<open>
  C40: the response to a query that parses, with at least one question, has the transaction ID, the
  question count and the question section of the query, byte for byte: the section is measured by a scan
  of its own, which stops exactly where the parser does.  It is marked as a response, keeps the
  recursion-desired bit and carries the response code.
\<close>

theorem BuildErrorResponse_echo:
  assumes "ParseQuery U req = Some (Inr msg)" "msg_Questions msg \<noteq> []"
  shows "\<exists>e. question_end U req (unat (dh_QDCount (msg_Header msg))) 12 = Some e \<and> 12 \<le> e \<and> e \<le> length req
     \<and> BuildErrorResponse U req rcode = Some (
         [req ! 0, req ! 1, 0x80 OR (req ! 2 AND 0x01), 0x80 OR (rcode AND 0x0F), req ! 4, req ! 5, 0, 0, 0, 0, 0, 0]
         @ field req 12 (e - 12))"
  by (rule error_response [OF assms])

definition query_sample :: "byte list" where
  "query_sample = [0xab, 0xcd, 1, 0, 0, 1, 0, 0, 0, 0, 0, 0, 1, 97, 3, 67, 79, 77, 0, 0, 1, 0, 1]"

definition query_sample_msg :: dns_message where
  "query_sample_msg = \<lparr>msg_Header = \<lparr>dh_ID = 0xabcd, dh_Flags = 0x100, dh_QDCount = 1, dh_ANCount = 0,
       dh_NSCount = 0, dh_ARCount = 0\<rparr>,
     msg_Questions = [\<lparr>q_Name = ''a.com'', q_Type = 1, q_Class = 1\<rparr>], msg_Raw = query_sample\<rparr>"

lemma query_sample_parses: "ParseQuery plain_unicode query_sample = Some (Inr query_sample_msg)"
  by code_simp

theorem BuildErrorResponse_echo_witness:
  "\<exists>e. question_end plain_unicode query_sample (unat (dh_QDCount (msg_Header query_sample_msg))) 12 = Some e
     \<and> 12 \<le> e \<and> e \<le> length query_sample
     \<and> BuildErrorResponse plain_unicode query_sample 3 = Some (
         [query_sample ! 0, query_sample ! 1, 0x80 OR (query_sample ! 2 AND 0x01), 0x80 OR (3 AND 0x0F),
          query_sample ! 4, query_sample ! 5, 0, 0, 0, 0, 0, 0] @ field query_sample 12 (e - 12))"
  by (rule BuildErrorResponse_echo [OF query_sample_parses]) (simp add: query_sample_msg_def)

section \<open>Queries parse back\<close>

definition encode_name :: "byte list list \<Rightarrow> byte list" where
  "encode_name labels = concat (map (\<lambda>l. of_nat (length l) # l) labels) @ [0]"

definition encode_query :: "uint16 \<Rightarrow> uint16 \<Rightarrow> byte list list \<Rightarrow> uint16 \<Rightarrow> uint16 \<Rightarrow> byte list" where
  "encode_query ident flags labels qtype qclass =
     [hi8 ident, lo8 ident, hi8 flags, lo8 flags, 0, 1, 0, 0, 0, 0, 0, 0]
     @ encode_name labels @ [hi8 qtype, lo8 qtype, hi8 qclass, lo8 qclass]"

lemma small_length_byte:
  assumes "0 < n" "n < 64"
  shows "(of_nat n :: byte) \<noteq> 0" "(of_nat n :: byte) AND 0xC0 \<noteq> 0xC0" "unat (of_nat n :: byte) = n"
proof -
  show u: "unat (of_nat n :: byte) = n"
    using assms by (simp add: unat_of_nat8)
  show "(of_nat n :: byte) \<noteq> 0"
    using u assms by (metis less_numeral_extra(3) unat_0)
  have "(of_nat n :: byte) AND 0xC0 \<le> of_nat n"
    by (rule word_and_le2)
  then have "unat ((of_nat n :: byte) AND 0xC0) \<le> n"
    unfolding word_le_nat_alt u .
  then show "(of_nat n :: byte) AND 0xC0 \<noteq> 0xC0"
    using assms(2) by auto
qed

lemma name_loop_encoded:
  assumes "list_all (\<lambda>l. 0 < length l \<and> length l < 64) labels"
  shows "name_loop (pref @ encode_name labels @ rest) (length pref) False jumps ret acc
    = Some (Inr (acc @ map str labels, length pref + length (encode_name labels)))"
  using assms
proof (induction labels arbitrary: pref acc)
  case Nil
  then show ?case
    by (subst name_loop_step) (simp_all add: encode_name_def)
next
  case (Cons l labels)
  let ?data = "pref @ encode_name (l # labels) @ rest"
  have l: "0 < length l" "length l < 64"
    using Cons.prems by simp_all
  have d: "?data = pref @ (of_nat (length l) # l) @ encode_name labels @ rest"
    by (simp add: encode_name_def)
  have "?data ! length pref = of_nat (length l)" "field ?data (length pref + 1) (length l) = l"
    "length pref < length ?data" "\<not> length ?data < length pref + 1 + length l"
    by (simp_all add: d field_def)
  then have "name_loop ?data (length pref) False jumps ret acc
      = name_loop ?data (length pref + 1 + length l) False jumps ret (acc @ [str l])"
    by (subst name_loop_step) (simp_all add: small_length_byte [OF l])
  also have "\<dots> = name_loop ((pref @ of_nat (length l) # l) @ encode_name labels @ rest)
      (length (pref @ of_nat (length l) # l)) False jumps ret (acc @ [str l])"
    by (simp add: d)
  also have "\<dots> = Some (Inr ((acc @ [str l]) @ map str labels,
      length (pref @ of_nat (length l) # l) + length (encode_name labels)))"
    using Cons.prems by (intro Cons.IH) simp
  finally show ?case
    by (simp add: encode_name_def)
qed

text \<open>
  C39: a query built from its labels parses back: the header, and one question with the labels joined by
  dots in lower case, the type and the class.
\<close>

theorem ParseQuery_roundtrip:
  assumes "list_all (\<lambda>l. 0 < length l \<and> length l < 64) labels"
  shows "ParseQuery U (encode_query ident flags labels qtype qclass) = Some (Inr
     \<lparr>msg_Header = \<lparr>dh_ID = ident, dh_Flags = flags, dh_QDCount = 1, dh_ANCount = 0, dh_NSCount = 0, dh_ARCount = 0\<rparr>,
      msg_Questions = [\<lparr>q_Name = ToLower U (Join (map str labels) ''.''), q_Type = qtype, q_Class = qclass\<rparr>],
      msg_Raw = encode_query ident flags labels qtype qclass\<rparr>)"
proof -
  let ?h = "[hi8 ident, lo8 ident, hi8 flags, lo8 flags, 0, 1, 0, 0, 0, 0, 0, 0] :: byte list"
  define data where "data = encode_query ident flags labels qtype qclass"
  let ?o = "12 + length (encode_name labels)"
  have data: "data = ?h @ encode_name labels @ [hi8 qtype, lo8 qtype, hi8 qclass, lo8 qclass]"
    by (simp add: data_def encode_query_def)
  have len: "length data = ?o + 4"
    by (simp add: data)
  have "length ?h = 12"
    by simp
  then have "name_loop data 12 False 0 12 [] = Some (Inr (map str labels, ?o))"
    using name_loop_encoded [OF assms, of ?h "[hi8 qtype, lo8 qtype, hi8 qclass, lo8 qclass]" 0 12 "[]"]
    by (simp only: data append_Nil)
  then have name: "parseDomainName U data 12 = Some (Inr (ToLower U (Join (map str labels) ''.''), ?o))"
    by (simp add: parseDomainName_def len)
  have "be16 (0 :: byte) 1 = 1"
    by (simp add: be16_def)
  then have h: "be16 (data ! 0) (data ! 1) = ident" "be16 (data ! 2) (data ! 3) = flags" "be16 (data ! 4) (data ! 5) = 1"
    "be16 (data ! 6) (data ! 7) = 0" "be16 (data ! 8) (data ! 9) = 0" "be16 (data ! 10) (data ! 11) = 0"
    by (simp_all add: data)
  have t: "u16_at data ?o (?o + 2) = Some qtype" "u16_at data (?o + 2) (?o + 4) = Some qclass"
    using len by (simp_all add: go_simps) (simp_all add: data nth_append)
  have "question_loop U data 1 12 [] = Some (Inr
      [\<lparr>q_Name = ToLower U (Join (map str labels) ''.''), q_Type = qtype, q_Class = qclass\<rparr>])"
    using name t len by (simp add: numeral_2_eq_2 [symmetric] del: add_2_eq_Suc')
  then show ?thesis
    using len h unfolding data_def [symmetric] by (simp add: ParseQuery_def go_simps)
qed

theorem ParseQuery_roundtrip_witness:
  "ParseQuery plain_unicode (encode_query 7 0x100 [[119, 87, 119], [99, 111]] 1 1) = Some (Inr
     \<lparr>msg_Header = \<lparr>dh_ID = 7, dh_Flags = 0x100, dh_QDCount = 1, dh_ANCount = 0, dh_NSCount = 0, dh_ARCount = 0\<rparr>,
      msg_Questions = [\<lparr>q_Name = ToLower plain_unicode (Join (map str [[119, 87, 119], [99, 111]]) ''.''),
                        q_Type = 1, q_Class = 1\<rparr>],
      msg_Raw = encode_query 7 0x100 [[119, 87, 119], [99, 111]] 1 1\<rparr>)"
  by (rule ParseQuery_roundtrip) simp

section \<open>Lifetimes\<close>

text \<open>The lifetimes of the answer records, as far as the section can be read.\<close>

fun answer_ttls :: "unicode \<Rightarrow> byte list \<Rightarrow> nat \<Rightarrow> nat \<Rightarrow> uint32 list" where
  "answer_ttls U data 0 offset = []"
| "answer_ttls U data (Suc n) offset =
     (if length data \<le> offset then []
      else case parseDomainName U data offset of
        Some (Inr (_, off)) \<Rightarrow>
          if length data < off + 10 then []
          else be32 (data ! (off + 4)) (data ! (off + 4 + 1)) (data ! (off + 4 + 2)) (data ! (off + 4 + 3))
               # answer_ttls U data n (off + (10 + unat (be16 (data ! (off + 8)) (data ! (off + 8 + 1)))))
      | _ \<Rightarrow> [])"

definition response_ttls :: "unicode \<Rightarrow> byte list \<Rightarrow> uint32 list" where
  "response_ttls U data =
     (if length data < 12 then []
      else case skip_section U data (unat (be16 (data ! 4) (data ! 5))) 12 of
        Some (Some off) \<Rightarrow> answer_ttls U data (unat (be16 (data ! 6) (data ! 7))) off
      | _ \<Rightarrow> [])"

fun min_ttl :: "uint32 list \<Rightarrow> uint32 \<Rightarrow> bool \<Rightarrow> uint32 \<times> bool" where
  "min_ttl [] m found = (m, found)"
| "min_ttl (t # ts) m found = (if 0 < t \<and> t < m then min_ttl ts t True else min_ttl ts m found)"

lemma ttl_loop_min: "ttl_loop U data n offset m found = Some (min_ttl (answer_ttls U data n offset) m found)"
proof (induction n arbitrary: offset m found)
  case (Suc n)
  obtain r where "parseDomainName U data offset = Some r"
    using returnsD [OF parseDomainName_returns] by blast
  with Suc show ?case
    by (auto simp: Let_def go_simps split: sum.splits)
qed simp

lemma min_ttl_eq:
  "min_ttl ts m found =
     (let us = filter (\<lambda>t. 0 < t \<and> t < m) ts in if us = [] then (m, found) else (Min (set us), True))"
proof (induction ts arbitrary: m found)
  case (Cons t ts)
  show ?case
  proof (cases "0 < t \<and> t < m")
    case True
    let ?us = "filter (\<lambda>u. 0 < u \<and> u < t) ts" and ?vs = "filter (\<lambda>u. 0 < u \<and> u < m) (t # ts)"
    have "Min (set ?vs) = (if ?us = [] then t else Min (set ?us))"
    proof (cases "?us = []")
      case us: True
      then have "Min (set ?vs) = t"
        using True by (intro Min_eqI) (auto simp: filter_empty_conv not_less)
      with us show ?thesis
        by simp
    next
      case False
      let ?x = "Min (set ?us)"
      have x: "?x \<in> set ?us"
        using False by (intro Min_in) (simp_all only: finite_set set_empty not_False_eq_True)
      then have x': "?x \<in> set ts" "0 < ?x" "?x < t"
        by (simp_all only: set_filter mem_Collect_eq)
      have "Min (set ?vs) = ?x"
      proof (rule Min_eqI)
        fix y
        assume "y \<in> set ?vs"
        then have "y = t \<or> (y \<in> set ts \<and> 0 < y)"
          by (auto split: if_splits)
        then consider "y = t" | "y \<in> set ts" "0 < y" "y < t" | "t \<le> y"
          using linorder_not_le by blast
        then show "?x \<le> y"
        proof cases
          case 2
          then have "y \<in> set ?us"
            by simp
          then show ?thesis
            by (rule Min_le [OF finite_set])
        qed (use x'(3) in auto)
      qed (use x' True in auto)
      with False show ?thesis
        by simp
    qed
    with True Cons show ?thesis
      by (simp add: Let_def)
  next
    case False
    with Cons show ?thesis
      by auto
  qed
qed simp

text \<open>
  \<open>ExtractMinTTL\<close> returns for every input, and what it returns is the least positive lifetime
  of the answer records that can be read, capped at one day, or the default when there is none.
\<close>

theorem ExtractMinTTL_least:
  "ExtractMinTTL U data d = Some
     (let ts = filter (\<lambda>t. 0 < t \<and> t < 0xFFFFFFFF) (response_ttls U data)
      in if ts = [] then d else min 86400 (Min (set ts)))"
proof (cases "length data < 12")
  case False
  obtain r where r: "skip_section U data (unat (be16 (data ! 4) (data ! 5))) 12 = Some r"
    using returnsD [OF skip_section_returns] by blast
  have pos: "0 < Min (set us)" if "us = filter (\<lambda>t. 0 < t \<and> t < 0xFFFFFFFF) ts" "us \<noteq> []" for us ts :: "uint32 list"
  proof -
    have "Min (set us) \<in> set us"
      using that(2) by (intro Min_in) simp_all
    then show ?thesis
      using that(1) by auto
  qed
  show ?thesis
  proof (cases r)
    case None
    with False r show ?thesis
      by (simp add: ExtractMinTTL_def response_ttls_def go_simps Let_def)
  next
    case (Some off)
    let ?ts = "answer_ttls U data (unat (be16 (data ! 6) (data ! 7))) off"
    have "response_ttls U data = ?ts"
      using False r Some by (simp add: response_ttls_def)
    with False r Some pos [OF refl, of ?ts] show ?thesis
      by (auto simp: ExtractMinTTL_def go_simps Let_def ttl_loop_min min_ttl_eq min_def not_less)
  qed
qed (simp add: ExtractMinTTL_def response_ttls_def)

end
