(* ===== verification/ExpiringStore.thy ===== *)
theory ExpiringStore
  imports Main
begin

text \<open>
  The contract of a table whose entries expire, which the DNS answer cache and the DoH probe table both
  offer their callers: \<open>put\<close> stores a value with a lifetime, \<open>find\<close> is what a lookup at a given time
  returns and \<open>look\<close> the state it leaves (a lookup may drop an expired entry).  Times are nanoseconds.

  The specification is \<open>latest\<close>: a lookup returns the value stored last for its key, as long as its lifetime
  lasts.  \<open>find_run\<close> shows that every table with the contract implements it, over any sequence of
  operations in the order of time.
\<close>

datatype ('k, 'v) store_event = Put int 'k 'v | Look int 'k

primrec event_time :: "('k, 'v) store_event \<Rightarrow> int" where
  "event_time (Put t k v) = t"
| "event_time (Look t k) = t"

text \<open>The last value stored for a key, with its time; \<open>ok\<close> tells which values are stored at all.\<close>

fun latest :: "('v \<Rightarrow> bool) \<Rightarrow> 'k \<Rightarrow> ('k, 'v) store_event list \<Rightarrow> (int \<times> 'v) option" where
  "latest ok k [] = None"
| "latest ok k (Put t k' v # es) =
     (case latest ok k es of
        Some r \<Rightarrow> Some r
      | None \<Rightarrow> if k' = k \<and> ok v then Some (t, v) else None)"
| "latest ok k (Look t k' # es) = latest ok k es"

definition alive :: "('v \<Rightarrow> int) \<Rightarrow> int \<Rightarrow> int \<times> 'v \<Rightarrow> 'v option" where
  "alive ttl t r = (if t \<le> fst r + ttl (snd r) then Some (snd r) else None)"

fun run_store ::
  "('s \<Rightarrow> int \<Rightarrow> 'k \<Rightarrow> 'v \<Rightarrow> 's) \<Rightarrow> ('s \<Rightarrow> int \<Rightarrow> 'k \<Rightarrow> 's) \<Rightarrow> 's \<Rightarrow> ('k, 'v) store_event list \<Rightarrow> 's" where
  "run_store put look s [] = s"
| "run_store put look s (Put t k v # es) = run_store put look (put s t k v) es"
| "run_store put look s (Look t k # es) = run_store put look (look s t k) es"

locale expiring_store =
  fixes inv :: "'s \<Rightarrow> bool"
    and find :: "'s \<Rightarrow> int \<Rightarrow> 'k \<Rightarrow> 'v option"
    and look :: "'s \<Rightarrow> int \<Rightarrow> 'k \<Rightarrow> 's"
    and put :: "'s \<Rightarrow> int \<Rightarrow> 'k \<Rightarrow> 'v \<Rightarrow> 's"
    and ok :: "'v \<Rightarrow> bool"
    and ttl :: "'v \<Rightarrow> int"
  assumes inv_put: "inv s \<Longrightarrow> inv (put s t k v)"
    and inv_look: "inv s \<Longrightarrow> inv (look s t k)"
    and find_put: "inv s \<Longrightarrow> ok v \<Longrightarrow> t \<le> t' \<Longrightarrow>
      find (put s t k v) t' k' = (if k' = k then alive ttl t' (t, v) else find s t' k')"
    and put_refused: "\<not> ok v \<Longrightarrow> put s t k v = s"
    and find_look: "inv s \<Longrightarrow> t \<le> t' \<Longrightarrow> find (look s t k) t' k' = find s t' k'"
begin

lemma inv_run: "inv s \<Longrightarrow> inv (run_store put look s es)"
proof (induction es arbitrary: s)
  case (Cons e es)
  then show ?case
    by (cases e) (simp_all add: inv_put inv_look)
qed simp

lemma find_run:
  assumes "inv s" "sorted (map event_time es @ [t])"
  shows "find (run_store put look s es) t k =
     (case latest ok k es of Some r \<Rightarrow> alive ttl t r | None \<Rightarrow> find s t k)"
  using assms
proof (induction es arbitrary: s)
  case (Cons e es)
  show ?case
  proof (cases e)
    case (Put t' k' v)
    with Cons show ?thesis
      by (cases "ok v") (auto simp: inv_put find_put put_refused split: option.splits)
  next
    case (Look t' k')
    with Cons show ?thesis
      by (auto simp: inv_look find_look split: option.splits)
  qed
qed simp

end

end
