(* ===== verification/DnsCache.thy ===== *)
theory DnsCache
  imports DnsParser GoNet ExpiringStore "HOL-Library.AList"
begin

text \<open>
  The DNS answer cache, \<open>internal/dns/cache.go\<close>.  The \<open>sync.Map\<close> is an association list in the order
  \<open>Range\<close> would visit it; every operation here is one atomic step.  \<open>now\<close> is \<open>time.Now()\<close>, durations
  and times are nanoseconds.  The counter is an unbounded integer (it counts entries held in memory).

  The lemmas show the invariant (keys are distinct, the counter counts them, every stored answer has
  a header), that the cache is an \<open>expiring_store\<close>, and the bounds of its lifetimes.
\<close>

section \<open>Keys\<close>

record CacheKey =
  ck_IP :: "byte list"
  ck_QType :: uint16
  ck_QName :: string

definition makeCacheKey :: "netIP \<Rightarrow> string \<Rightarrow> uint16 \<Rightarrow> CacheKey" where
  "makeCacheKey dstIP qname qtype =
     \<lparr>ck_IP = (case To4 dstIP of Some ip4 \<Rightarrow> pad16 (take 4 ip4) | None \<Rightarrow> pad16 dstIP),
      ck_QType = qtype, ck_QName = qname\<rparr>"

section \<open>Operations\<close>

record cacheEntry =
  ce_response :: "byte list"
  ce_expireAt :: int

record Cache =
  c_entries :: "(CacheKey \<times> cacheEntry) list"
  c_count :: int
  c_maxTTL :: int
  c_stopped :: bool

definition maxDNSCacheEntries :: int where
  "maxDNSCacheEntries = 10000"

definition NewCache :: "int \<Rightarrow> Cache" where
  "NewCache maxTTL =
     \<lparr>c_entries = [], c_count = 0, c_maxTTL = (if maxTTL \<le> 0 then 300 * second else maxTTL),
      c_stopped = False\<rparr>"

text \<open>\<open>LoadAndDelete\<close> followed by \<open>count.Add(-1)\<close> when an entry was there.\<close>

definition drop_key :: "CacheKey \<Rightarrow> Cache \<Rightarrow> Cache" where
  "drop_key key c =
     (if map_of (c_entries c) key \<noteq> None
      then c\<lparr>c_entries := AList.delete key (c_entries c), c_count := c_count c - 1\<rparr>
      else c)"

text \<open>
  \<open>Get\<close>: the new state and the answer, with the transaction ID of the request written over the
  stored one.  \<open>get_key\<close> is its body for a key.
\<close>

definition get_key :: "Cache \<Rightarrow> int \<Rightarrow> CacheKey \<Rightarrow> uint16 \<Rightarrow> (Cache \<times> byte list option) option" where
  "get_key c now key reqID =
     (case map_of (c_entries c) key of
        None \<Rightarrow> Some (c, None)
      | Some entry \<Rightarrow>
          if now > ce_expireAt entry then Some (drop_key key c, None)
          else do {
            resp \<leftarrow> PutUint16 (ce_response entry) 0 2 reqID;
            Some (c, Some resp)
          })"

definition cache_Get ::
  "Cache \<Rightarrow> int \<Rightarrow> netIP \<Rightarrow> string \<Rightarrow> uint16 \<Rightarrow> uint16 \<Rightarrow> (Cache \<times> byte list option) option" where
  "cache_Get c now dstIP qname qtype reqID = get_key c now (makeCacheKey dstIP qname qtype) reqID"

definition evictExpired :: "Cache \<Rightarrow> int \<Rightarrow> Cache" where
  "evictExpired c now =
     fold (\<lambda>(key, entry) c. if now > ce_expireAt entry then drop_key key c else c) (c_entries c) c"

text \<open>The lifetime of an answer: its least TTL, at most \<open>maxTTL\<close>, at least five seconds.\<close>

definition entry_ttl :: "unicode \<Rightarrow> int \<Rightarrow> byte list \<Rightarrow> int option" where
  "entry_ttl U maxTTL resp = do {
     minTTLSec \<leftarrow> ExtractMinTTL U resp (word_of_int (maxTTL div second));
     let ttl = uint minTTLSec * second;
     let ttl = (if ttl > maxTTL then maxTTL else ttl);
     Some (if ttl < 5 * second then 5 * second else ttl)
   }"

definition set_key :: "unicode \<Rightarrow> Cache \<Rightarrow> int \<Rightarrow> CacheKey \<Rightarrow> byte list \<Rightarrow> Cache option" where
  "set_key U c now key resp =
     (if length resp < 12 then Some c
      else do {
        ttl \<leftarrow> entry_ttl U (c_maxTTL c) resp;
        let entry = \<lparr>ce_response = resp, ce_expireAt = now + ttl\<rparr>;
        let loaded = (map_of (c_entries c) key \<noteq> None);
        let c' = c\<lparr>c_entries := AList.update key entry (c_entries c)\<rparr>;
        if \<not> loaded then do {
          let c' = c'\<lparr>c_count := c_count c' + 1\<rparr>;
          Some (if c_count c' > maxDNSCacheEntries then evictExpired c' now else c')
        } else Some c'
      })"

definition cache_Set ::
  "unicode \<Rightarrow> Cache \<Rightarrow> int \<Rightarrow> netIP \<Rightarrow> string \<Rightarrow> uint16 \<Rightarrow> byte list \<Rightarrow> Cache option" where
  "cache_Set U c now dstIP qname qtype resp = set_key U c now (makeCacheKey dstIP qname qtype) resp"

definition cache_Purge :: "Cache \<Rightarrow> Cache" where
  "cache_Purge c = c\<lparr>c_entries := [], c_count := 0\<rparr>"

text \<open>One tick of \<open>cleanupLoop\<close>; a stopped cache no longer ticks.\<close>

definition cleanup_tick :: "Cache \<Rightarrow> int \<Rightarrow> Cache" where
  "cleanup_tick c now = (if c_stopped c then c else evictExpired c now)"

definition cache_Stop :: "Cache \<Rightarrow> Cache" where
  "cache_Stop c = c\<lparr>c_stopped := True\<rparr>"

definition cache_SetMaxTTL :: "Cache \<Rightarrow> int \<Rightarrow> Cache" where
  "cache_SetMaxTTL c maxTTL = c\<lparr>c_maxTTL := (if maxTTL \<le> 0 then 300 * second else maxTTL)\<rparr>"

section \<open>Invariant\<close>

definition cache_inv :: "Cache \<Rightarrow> bool" where
  "cache_inv c \<longleftrightarrow> distinct (map fst (c_entries c)) \<and> c_count c = int (length (c_entries c))
     \<and> list_all (\<lambda>(_, e). 12 \<le> length (ce_response e)) (c_entries c)"

lemma length_delete:
  "distinct (map fst xs) \<Longrightarrow> map_of xs k = Some v \<Longrightarrow> length xs = Suc (length (AList.delete k xs))"
proof (induction xs)
  case (Cons x xs)
  show ?case
  proof (cases "fst x = k")
    case True
    then have "k \<notin> fst ` set xs"
      using Cons.prems by auto
    then have "AList.delete k xs = xs"
      by (simp add: delete_idem)
    with True show ?thesis
      by (cases x) simp
  next
    case False
    with Cons show ?thesis
      by (cases x) auto
  qed
qed simp

lemma length_update:
  "length (AList.update k v xs) = (if map_of xs k = None then Suc (length xs) else length xs)"
  by (induction xs) (auto split: if_splits)

lemma drop_key_inv: "cache_inv c \<Longrightarrow> cache_inv (drop_key k c)"
proof -
  assume c: "cache_inv c"
  have "set (AList.delete k (c_entries c)) \<subseteq> set (c_entries c)"
    by (auto simp: AList.delete_eq)
  with c length_delete [of "c_entries c" k] show ?thesis
    by (auto simp: cache_inv_def drop_key_def distinct_delete list_all_iff)
qed

lemma map_of_drop_key: "map_of (c_entries (drop_key k c)) = (map_of (c_entries c))(k := None)"
  by (auto simp: drop_key_def delete_conv' fun_eq_iff)

lemma evict_fold:
  assumes "cache_inv c"
  shows "cache_inv (fold (\<lambda>(key, entry) c. if now > ce_expireAt entry then drop_key key c else c) xs c)"
    and "map_of (c_entries (fold (\<lambda>(key, entry) c. if now > ce_expireAt entry then drop_key key c else c) xs c)) k
      = (if \<exists>e. (k, e) \<in> set xs \<and> now > ce_expireAt e then None else map_of (c_entries c) k)"
  using assms
  by (induction xs arbitrary: c) (auto simp: drop_key_inv map_of_drop_key)

lemma evictExpired_inv: "cache_inv c \<Longrightarrow> cache_inv (evictExpired c now)"
  unfolding evictExpired_def by (rule evict_fold)

lemma map_of_evictExpired:
  assumes "cache_inv c"
  shows "map_of (c_entries (evictExpired c now)) k =
    (case map_of (c_entries c) k of
       None \<Rightarrow> None | Some e \<Rightarrow> if now > ce_expireAt e then None else Some e)"
proof -
  have "(\<exists>e. (k, e) \<in> set (c_entries c) \<and> now > ce_expireAt e) \<longleftrightarrow>
      (\<exists>e. map_of (c_entries c) k = Some e \<and> now > ce_expireAt e)"
    using assms by (auto simp: cache_inv_def map_of_eq_Some_iff)
  then show ?thesis
    unfolding evictExpired_def evict_fold(2) [OF assms] by (auto split: option.splits)
qed

lemma entry_ttl_bounds:
  "\<exists>ttl. entry_ttl U maxTTL resp = Some ttl \<and> 5 * second \<le> ttl \<and> ttl \<le> max maxTTL (5 * second)"
proof -
  obtain t where "ExtractMinTTL U resp (word_of_int (maxTTL div second)) = Some t"
    using returnsD [OF ExtractMinTTL_returns] by blast
  then show ?thesis
    by (simp add: entry_ttl_def Let_def)
qed

lemma set_key_returns [returns_intros]: "returns (set_key U c now key resp)"
  using entry_ttl_bounds [of U "c_maxTTL c" resp]
  by (auto simp: set_key_def Let_def)

lemma update_inv:
  assumes "cache_inv c" "12 \<le> length resp"
  shows "cache_inv (c\<lparr>c_entries := AList.update k \<lparr>ce_response = resp, ce_expireAt = t\<rparr> (c_entries c),
      c_count := c_count c + (if map_of (c_entries c) k = None then 1 else 0)\<rparr>)"
proof -
  have "set (AList.update k v xs) \<subseteq> insert (k, v) (set xs)" for v :: cacheEntry and xs
    by (induction xs) auto
  with assms show ?thesis
    by (fastforce simp: cache_inv_def distinct_update length_update list_all_iff)
qed

lemma set_key_inv: "cache_inv c \<Longrightarrow> set_key U c now key resp = Some c' \<Longrightarrow> cache_inv c'"
  using update_inv [of c resp key]
  by (auto simp: set_key_def Let_def intro!: evictExpired_inv elim!: bind_SomeE split: if_split_asm)

section \<open>The cache is an expiring store\<close>

definition find_key :: "Cache \<Rightarrow> int \<Rightarrow> CacheKey \<Rightarrow> byte list option" where
  "find_key c t key =
     (case map_of (c_entries c) key of
        None \<Rightarrow> None
      | Some e \<Rightarrow> if t > ce_expireAt e then None else Some (ce_response e))"

definition look_key :: "Cache \<Rightarrow> int \<Rightarrow> CacheKey \<Rightarrow> Cache" where
  "look_key c t key = (case get_key c t key 0 of Some (c', _) \<Rightarrow> c' | None \<Rightarrow> c)"

definition put_key :: "unicode \<Rightarrow> Cache \<Rightarrow> int \<Rightarrow> CacheKey \<Rightarrow> byte list \<Rightarrow> Cache" where
  "put_key U c t key resp = (case set_key U c t key resp of Some c' \<Rightarrow> c' | None \<Rightarrow> c)"

definition answer_ttl :: "unicode \<Rightarrow> int \<Rightarrow> byte list \<Rightarrow> int" where
  "answer_ttl U maxTTL resp = (case entry_ttl U maxTTL resp of Some ttl \<Rightarrow> ttl | None \<Rightarrow> 0)"

lemma cache_inv_response: "cache_inv c \<Longrightarrow> map_of (c_entries c) key = Some e \<Longrightarrow> 12 \<le> length (ce_response e)"
  by (auto simp: cache_inv_def list_all_iff dest: map_of_SomeD)

lemma get_key_eq:
  assumes "cache_inv c"
  shows "get_key c t key reqID =
    Some (look_key c t key, map_option (\<lambda>r. blit r 0 [hi8 reqID, lo8 reqID]) (find_key c t key))"
proof -
  have "PutUint16 (ce_response e) 0 2 w = Some (blit (ce_response e) 0 [hi8 w, lo8 w])"
    if "map_of (c_entries c) key = Some e" for e w
    using cache_inv_response [OF assms that] by (simp add: go_simps)
  then show ?thesis
    by (auto simp: get_key_def look_key_def find_key_def split: option.splits)
qed

lemma look_key_eq:
  assumes "cache_inv c"
  shows "look_key c t key = (if map_of (c_entries c) key \<noteq> None \<and> find_key c t key = None then drop_key key c else c)"
  using cache_inv_response [OF assms]
  by (auto simp: look_key_def get_key_def find_key_def elim!: bind_SomeE split: option.splits)

lemma maxTTL_simps [simp]: "c_maxTTL (drop_key k c) = c_maxTTL c" "c_maxTTL (evictExpired c t) = c_maxTTL c"
proof -
  show d: "c_maxTTL (drop_key k c) = c_maxTTL c" for k c
    by (simp add: drop_key_def)
  have "c_maxTTL (fold (\<lambda>(key, entry) c. if t > ce_expireAt entry then drop_key key c else c) xs c) = c_maxTTL c" for xs
    by (induction xs arbitrary: c) (auto simp: d)
  then show "c_maxTTL (evictExpired c t) = c_maxTTL c"
    by (simp add: evictExpired_def)
qed

lemma find_evictExpired:
  "cache_inv c \<Longrightarrow> t \<le> t' \<Longrightarrow> find_key (evictExpired c t) t' k = find_key c t' k"
  by (auto simp: find_key_def map_of_evictExpired split: option.splits)

lemma find_put_key:
  assumes "cache_inv c" "12 \<le> length resp" "t \<le> t'"
  shows "find_key (put_key U c t key resp) t' k =
    (if k = key then alive (answer_ttl U (c_maxTTL c)) t' (t, resp) else find_key c t' k)"
proof -
  obtain ttl where ttl: "entry_ttl U (c_maxTTL c) resp = Some ttl"
    using entry_ttl_bounds by blast
  define c' where "c' = c\<lparr>c_entries := AList.update key \<lparr>ce_response = resp, ce_expireAt = t + ttl\<rparr> (c_entries c),
      c_count := c_count c + (if map_of (c_entries c) key = None then 1 else 0)\<rparr>"
  have inv: "cache_inv c'"
    unfolding c'_def by (rule update_inv [OF assms(1,2)])
  have "put_key U c t key resp = c' \<or> put_key U c t key resp = evictExpired c' t"
    using assms(2) by (simp add: put_key_def set_key_def ttl c'_def Let_def)
  then have "find_key (put_key U c t key resp) t' k = find_key c' t' k"
    using find_evictExpired [OF inv assms(3)] by auto
  also have "\<dots> = (if k = key then alive (answer_ttl U (c_maxTTL c)) t' (t, resp) else find_key c t' k)"
    by (simp add: find_key_def c'_def update_conv' alive_def answer_ttl_def ttl)
  finally show ?thesis .
qed

interpretation answers: expiring_store
  "\<lambda>c. cache_inv c \<and> c_maxTTL c = maxTTL" find_key look_key "put_key U"
  "\<lambda>resp. 12 \<le> length resp" "answer_ttl U maxTTL" for U maxTTL
proof
  fix c t t' key k and resp :: "byte list"
  show "cache_inv c \<and> c_maxTTL c = maxTTL \<Longrightarrow>
      cache_inv (put_key U c t key resp) \<and> c_maxTTL (put_key U c t key resp) = maxTTL"
  proof -
    assume c: "cache_inv c \<and> c_maxTTL c = maxTTL"
    obtain c' where c': "set_key U c t key resp = Some c'"
      using returnsD [OF set_key_returns] by blast
    have "c_maxTTL c' = c_maxTTL c"
      using c' by (auto simp: set_key_def Let_def elim!: bind_SomeE split: if_split_asm)
    with c c' set_key_inv [OF _ c'] show ?thesis
      by (simp add: put_key_def)
  qed
  show "cache_inv c \<and> c_maxTTL c = maxTTL \<Longrightarrow> cache_inv (look_key c t key) \<and> c_maxTTL (look_key c t key) = maxTTL"
    by (simp add: look_key_eq drop_key_inv)
  show "cache_inv c \<and> c_maxTTL c = maxTTL \<Longrightarrow> 12 \<le> length resp \<Longrightarrow> t \<le> t' \<Longrightarrow>
      find_key (put_key U c t key resp) t' k =
      (if k = key then alive (answer_ttl U maxTTL) t' (t, resp) else find_key c t' k)"
    using find_put_key by blast
  show "\<not> 12 \<le> length resp \<Longrightarrow> put_key U c t key resp = c"
    by (simp add: put_key_def set_key_def)
  show "cache_inv c \<and> c_maxTTL c = maxTTL \<Longrightarrow> t \<le> t' \<Longrightarrow> find_key (look_key c t key) t' k = find_key c t' k"
    by (auto simp: look_key_eq find_key_def map_of_drop_key split: option.splits if_splits)
qed

section \<open>Sequences of operations\<close>

type_synonym dns_question = "netIP \<times> string \<times> uint16"

definition question_key :: "dns_question \<Rightarrow> CacheKey" where
  "question_key q = (case q of (dstIP, qname, qtype) \<Rightarrow> makeCacheKey dstIP qname qtype)"

text \<open>The cache after a sequence of \<open>Set\<close> and \<open>Get\<close> calls.\<close>

fun cache_run :: "unicode \<Rightarrow> Cache \<Rightarrow> (dns_question, byte list) store_event list \<Rightarrow> Cache option" where
  "cache_run U c [] = Some c"
| "cache_run U c (Put t (dstIP, qname, qtype) resp # es) = do {
     c \<leftarrow> cache_Set U c t dstIP qname qtype resp;
     cache_run U c es
   }"
| "cache_run U c (Look t (dstIP, qname, qtype) # es) = do {
     (c, _) \<leftarrow> cache_Get c t dstIP qname qtype 0;
     cache_run U c es
   }"

abbreviation keyed :: "(dns_question, byte list) store_event list \<Rightarrow> (CacheKey, byte list) store_event list" where
  "keyed es \<equiv> map (map_store_event question_key id) es"

lemma cache_run_store:
  "cache_inv c \<Longrightarrow> c_maxTTL c = maxTTL \<Longrightarrow> cache_run U c es = Some (run_store (put_key U) look_key c (keyed es))"
proof (induction U c es rule: cache_run.induct)
  case (2 U c t dstIP qname qtype resp es)
  obtain c' where c': "set_key U c t (makeCacheKey dstIP qname qtype) resp = Some c'"
    using returnsD [OF set_key_returns] by blast
  moreover have "put_key U c t (makeCacheKey dstIP qname qtype) resp = c'"
    using c' by (simp add: put_key_def)
  moreover from this have "cache_inv c' \<and> c_maxTTL c' = maxTTL"
    using answers.inv_put [of c maxTTL U t "makeCacheKey dstIP qname qtype" resp] 2 by simp
  ultimately show ?case
    using 2 by (simp add: cache_Set_def question_key_def)
next
  case (3 U c t dstIP qname qtype es)
  have "cache_inv (look_key c t (makeCacheKey dstIP qname qtype))
      \<and> c_maxTTL (look_key c t (makeCacheKey dstIP qname qtype)) = maxTTL"
    using answers.inv_look [of c maxTTL t "makeCacheKey dstIP qname qtype"] 3 by simp
  with 3 show ?case
    by (simp add: cache_Get_def get_key_eq question_key_def)
qed simp

lemma keyed_times: "map event_time (keyed es) = map event_time es"
proof -
  have "event_time (map_store_event question_key id e) = event_time e" for e :: "(dns_question, byte list) store_event"
    by (cases e) simp_all
  then show ?thesis
    by simp
qed

lemma NewCache_facts: "cache_inv (NewCache maxTTL)" "find_key (NewCache maxTTL) t k = None"
  "c_maxTTL (NewCache maxTTL) = (if maxTTL \<le> 0 then 300 * second else maxTTL)"
  by (simp_all add: NewCache_def cache_inv_def find_key_def)

text \<open>
  C11: refinement.  After any sequence of \<open>Set\<close> and \<open>Get\<close> calls in the order of time on a new cache, none of
  which panics, a \<open>Get\<close> returns the answer stored last for the same key, with only the
  transaction ID replaced, exactly as long as its lifetime lasts; and the entry counter still counts
  the entries.
\<close>

theorem cache_refines_latest:
  assumes "sorted (map event_time es @ [t])"
  shows "\<exists>c c'. cache_run U (NewCache maxTTL) es = Some c \<and> cache_inv c
     \<and> cache_Get c t dstIP qname qtype reqID = Some (c',
         map_option (\<lambda>r. blit r 0 [hi8 reqID, lo8 reqID])
           (Option.bind (latest (\<lambda>r. 12 \<le> length r) (makeCacheKey dstIP qname qtype) (keyed es))
              (alive (answer_ttl U (c_maxTTL (NewCache maxTTL))) t)))"
proof -
  let ?new = "NewCache maxTTL" and ?k = "makeCacheKey dstIP qname qtype"
  let ?c = "run_store (put_key U) look_key ?new (keyed es)"
  have i: "cache_inv ?new \<and> c_maxTTL ?new = c_maxTTL ?new"
    by (simp add: NewCache_facts)
  have "find_key ?c t ?k = (case latest (\<lambda>r. 12 \<le> length r) ?k (keyed es) of
      Some r \<Rightarrow> alive (answer_ttl U (c_maxTTL ?new)) t r | None \<Rightarrow> find_key ?new t ?k)"
    using answers.find_run [OF i, where es = "keyed es" and t = t and U = U and k = ?k] assms by (simp only: keyed_times)
  also have "\<dots> = Option.bind (latest (\<lambda>r. 12 \<le> length r) ?k (keyed es)) (alive (answer_ttl U (c_maxTTL ?new)) t)"
    by (simp add: NewCache_facts split: option.splits)
  finally have f: "find_key ?c t ?k = \<dots>" .
  have inv: "cache_inv ?c"
    by (rule conjunct1 [OF answers.inv_run [OF i]])
  show ?thesis
    using cache_run_store [OF NewCache_facts(1) refl, where U = U and es = es] inv
    by (intro exI [of _ ?c] exI [of _ "look_key ?c t ?k"]) (simp only: cache_Get_def get_key_eq f simp_thms)
qed

definition answer_sample :: "byte list" where
  "answer_sample = [1, 2, 0x81, 0x80, 0, 0, 0, 1, 0, 0, 0, 0, 1, 97, 0, 0, 1, 0, 1, 0, 0, 0, 60, 0, 4, 9, 9, 9, 9]"

theorem cache_refines_latest_witness:
  "\<exists>c c'. cache_run plain_unicode (NewCache 0) [Put 0 ([1, 1, 1, 1], ''a'', 1) answer_sample] = Some c \<and> cache_inv c
     \<and> cache_Get c 5 [1, 1, 1, 1] ''a'' 1 7 = Some (c',
         map_option (\<lambda>r. blit r 0 [hi8 7, lo8 7])
           (Option.bind (latest (\<lambda>r. 12 \<le> length r) (makeCacheKey [1, 1, 1, 1] ''a'' 1)
              (keyed [Put 0 ([1, 1, 1, 1], ''a'', 1) answer_sample]))
              (alive (answer_ttl plain_unicode (c_maxTTL (NewCache 0))) 5)))"
  by (rule cache_refines_latest) simp

text \<open>
  No answer is cached for less than five seconds, nor for longer than the configured maximum (where
  that is at least five seconds), whatever its records say.
\<close>

theorem answer_lifetime_bounds:
  "5 * second \<le> answer_ttl U maxTTL resp \<and> answer_ttl U maxTTL resp \<le> max maxTTL (5 * second)"
  using entry_ttl_bounds [of U maxTTL resp] by (auto simp: answer_ttl_def)

section \<open>Keys\<close>

text \<open>
  Within one address family the cache key identifies the question: two IPv4 addresses, or two
  IPv6 addresses, with equal keys are equal, and so are the names and the types.
\<close>

theorem makeCacheKey_inject:
  assumes "makeCacheKey ip q t = makeCacheKey ip' q' t'"
    and "(To4 ip = None) = (To4 ip' = None)" "length ip \<in> {4, 16}" "length ip' \<in> {4, 16}"
  shows "To16 ip = To16 ip' \<and> q = q' \<and> t = t'"
proof -
  have c: "ck_QName (makeCacheKey ip q t) = q" "ck_QType (makeCacheKey ip q t) = t"
    "ck_QName (makeCacheKey ip' q' t') = q'" "ck_QType (makeCacheKey ip' q' t') = t'"
    by (simp_all add: makeCacheKey_def)
  have k: "ck_IP (makeCacheKey ip q t) = ck_IP (makeCacheKey ip' q' t')"
    using assms(1) by simp
  have "To16 ip = To16 ip'"
  proof (cases "To4 ip")
    case None
    then have "length ip = 16" "length ip' = 16" "To4 ip' = None"
      using assms(2-4) by (auto simp: To4_def split: if_splits)
    then show ?thesis
      using k None pad16_inject [of ip ip'] by (simp add: makeCacheKey_def)
  next
    case (Some a)
    then obtain b where b: "To4 ip' = Some b"
      using assms(2) by auto
    have "a = b"
      using k Some b pad16_inject [of a b] length_To4 [OF Some] length_To4 [OF b] by (simp add: makeCacheKey_def)
    with Some b show ?thesis
      by (auto simp: To4_def To16_def split: if_splits) (metis append_take_drop_id)+
  qed
  with c assms(1) show ?thesis
    by metis
qed

theorem makeCacheKey_inject_witness:
  "To16 [9, 9, 9, 9] = To16 (IPv4 9 9 9 9) \<and> ''a'' = ''a'' \<and> (1 :: uint16) = 1"
  by (rule makeCacheKey_inject [of "[9, 9, 9, 9]" "''a''" 1 "IPv4 9 9 9 9" "''a''" 1])
    (simp_all add: makeCacheKey_def To4_def IPv4_def v4InV6Prefix_def numeral_eq_Suc)

text \<open>
  Across the families the cache key does not identify the question: an IPv4 server shares its key with the IPv6
  server whose first four bytes are those of the IPv4 address and whose other bytes are zero.
\<close>

theorem cache_key_collision:
  "makeCacheKey [32, 1, 13, 184] q t = makeCacheKey [32, 1, 13, 184, 0, 0, 0, 0, 0, 0, 0, 0, 0, 0, 0, 0] q t"
  by (simp add: makeCacheKey_def To4_def pad16_def v4InV6Prefix_def numeral_eq_Suc)

end
