(* ===== verification/DnsProbe.thy ===== *)
theory DnsProbe
  imports DnsCache
begin

text \<open>
  The table of DNS servers known to speak DNS over HTTPS, \<open>internal/dns/probe.go\<close>, and the endpoint URL of
  \<open>internal/dns/doh_client.go\<close>.  The HTTPS exchange itself is the parameter \<open>query\<close>: what \<open>QueryDoH\<close>
  returns for a server and a query, an error (\<open>Inl\<close>) or the answer.

  The table is an \<open>expiring_store\<close> too; the lemmas show that a verdict is kept for the lifetime of its entry
  without asking the server again.
\<close>

section \<open>Operations\<close>

datatype DoHSupportStatus = StatusUnknown | StatusSupported | StatusUnsupported

record probeEntry =
  pe_status :: DoHSupportStatus
  pe_expireAt :: int

record ProbeManager =
  pm_cache :: "(string \<times> probeEntry) list"
  pm_cacheTTL :: int

type_synonym doh_query = "netIP \<Rightarrow> byte list \<Rightarrow> string + byte list"

definition hour :: int where
  "hour = 3600 * second"

definition pm_store :: "string \<Rightarrow> DoHSupportStatus \<Rightarrow> int \<Rightarrow> ProbeManager \<Rightarrow> ProbeManager" where
  "pm_store key status expireAt pm =
     pm\<lparr>pm_cache := AList.update key \<lparr>pe_status = status, pe_expireAt = expireAt\<rparr> (pm_cache pm)\<rparr>"

definition defaultDoH :: "string list" where
  "defaultDoH = [''1.1.1.2'', ''1.0.0.2'', ''2606:4700:4700::1112'', ''2606:4700:4700::1002'']"

definition NewProbeManager :: "int \<Rightarrow> int \<Rightarrow> ProbeManager" where
  "NewProbeManager now cacheTTL =
     fold (\<lambda>ipStr. pm_store ipStr StatusSupported (now + 24 * hour)) defaultDoH
       \<lparr>pm_cache = [], pm_cacheTTL = (if cacheTTL \<le> 0 then 1 * hour else cacheTTL)\<rparr>"

definition unusable :: "netIP \<Rightarrow> bool" where
  "unusable ip = (ip = [] \<or> IsLoopback ip \<or> IsUnspecified ip)"

definition GetStatus :: "ProbeManager \<Rightarrow> int \<Rightarrow> netIP \<Rightarrow> ProbeManager \<times> DoHSupportStatus" where
  "GetStatus pm now ip =
     (if unusable ip then (pm, StatusUnsupported)
      else let key = IP_String ip
           in case map_of (pm_cache pm) key of
                None \<Rightarrow> (pm, StatusUnknown)
              | Some entry \<Rightarrow>
                  if now > pe_expireAt entry
                  then (pm\<lparr>pm_cache := AList.delete key (pm_cache pm)\<rparr>, StatusUnknown)
                  else (pm, pe_status entry))"

definition testQuery :: "byte list" where
  "testQuery = [0x00, 0x01, 0x01, 0x00, 0x00, 0x01, 0x00, 0x00, 0x00, 0x00, 0x00, 0x00,
     0x0a, 99, 108, 111, 117, 100, 102, 108, 97, 114, 101, 0x03, 99, 111, 109, 0x00,
     0x00, 0x01, 0x00, 0x01]"

text \<open>
  \<open>CheckOrProbe\<close>: \<open>now\<close> is the time of the first look, \<open>locked\<close> the time the per-server mutex is
  obtained and the table is looked at again, \<open>answered\<close> the time the probe returns.
\<close>

definition CheckOrProbe ::
  "ProbeManager \<Rightarrow> doh_query \<Rightarrow> int \<Rightarrow> int \<Rightarrow> int \<Rightarrow> netIP \<Rightarrow> ProbeManager \<times> bool" where
  "CheckOrProbe pm query now locked answered ip =
     (if unusable ip then (pm, False)
      else let (pm, status) = GetStatus pm now ip
           in if status = StatusSupported then (pm, True)
              else if status = StatusUnsupported then (pm, False)
              else let (pm, status) = GetStatus pm locked ip
                   in if status \<noteq> StatusUnknown then (pm, status = StatusSupported)
                      else (case query ip testQuery of
                              Inr resp \<Rightarrow>
                                if length resp \<ge> 12
                                then (pm_store (IP_String ip) StatusSupported (answered + pm_cacheTTL pm) pm, True)
                                else (pm_store (IP_String ip) StatusUnsupported (answered + pm_cacheTTL pm) pm, False)
                            | Inl _ \<Rightarrow>
                                (pm_store (IP_String ip) StatusUnsupported (answered + pm_cacheTTL pm) pm, False)))"

definition MarkStatus :: "ProbeManager \<Rightarrow> int \<Rightarrow> netIP \<Rightarrow> DoHSupportStatus \<Rightarrow> ProbeManager" where
  "MarkStatus pm now ip status = pm_store (IP_String ip) status (now + pm_cacheTTL pm) pm"

definition BuildDoHURL :: "netIP \<Rightarrow> string" where
  "BuildDoHURL ip =
     (if To4 ip \<noteq> None then ''https://'' @ IP_String ip @ ''/dns-query''
      else ''https://['' @ IP_String ip @ '']/dns-query'')"

section \<open>The table is an expiring store\<close>

definition pm_find :: "ProbeManager \<Rightarrow> int \<Rightarrow> string \<Rightarrow> DoHSupportStatus option" where
  "pm_find pm t key =
     (case map_of (pm_cache pm) key of
        None \<Rightarrow> None
      | Some e \<Rightarrow> if t > pe_expireAt e then None else Some (pe_status e))"

definition pm_look :: "ProbeManager \<Rightarrow> int \<Rightarrow> string \<Rightarrow> ProbeManager" where
  "pm_look pm t key =
     (if map_of (pm_cache pm) key \<noteq> None \<and> pm_find pm t key = None
      then pm\<lparr>pm_cache := AList.delete key (pm_cache pm)\<rparr> else pm)"

definition pm_put :: "ProbeManager \<Rightarrow> int \<Rightarrow> string \<Rightarrow> DoHSupportStatus \<Rightarrow> ProbeManager" where
  "pm_put pm t key status = pm_store key status (t + pm_cacheTTL pm) pm"

interpretation probes: expiring_store
  "\<lambda>pm. pm_cacheTTL pm = T" pm_find pm_look pm_put "\<lambda>_. True" "\<lambda>_. T" for T
  by unfold_locales
    (auto simp: pm_put_def pm_store_def pm_look_def pm_find_def update_conv' delete_conv' alive_def
      split: option.splits if_splits)

lemma GetStatus_eq:
  "\<not> unusable ip \<Longrightarrow> GetStatus pm t ip =
     (pm_look pm t (IP_String ip), case pm_find pm t (IP_String ip) of None \<Rightarrow> StatusUnknown | Some s \<Rightarrow> s)"
  by (auto simp: GetStatus_def pm_look_def pm_find_def Let_def split: option.splits)

definition verdict :: "doh_query \<Rightarrow> netIP \<Rightarrow> DoHSupportStatus" where
  "verdict query ip =
     (case query ip testQuery of
        Inr resp \<Rightarrow> if length resp \<ge> 12 then StatusSupported else StatusUnsupported
      | Inl _ \<Rightarrow> StatusUnsupported)"

text \<open>What \<open>CheckOrProbe\<close> does, in the terms of the store.\<close>

lemma CheckOrProbe_known:
  assumes "\<not> unusable ip" "pm_find pm now (IP_String ip) = Some s" "s \<noteq> StatusUnknown"
  shows "CheckOrProbe pm query now locked answered ip = (pm_look pm now (IP_String ip), s = StatusSupported)"
  using assms by (cases s) (simp_all add: CheckOrProbe_def GetStatus_eq)

lemma CheckOrProbe_unknown:
  assumes "\<not> unusable ip" "pm_find pm now (IP_String ip) = None" "now \<le> locked"
  shows "CheckOrProbe pm query now locked answered ip =
    (pm_put (pm_look (pm_look pm now (IP_String ip)) locked (IP_String ip)) answered (IP_String ip) (verdict query ip),
     verdict query ip = StatusSupported)"
proof -
  let ?k = "IP_String ip"
  have "pm_find (pm_look pm now ?k) locked ?k = pm_find pm locked ?k"
    using probes.find_look [OF refl assms(3)] by simp
  also have "\<dots> = None"
    using assms(2,3) by (auto simp: pm_find_def split: option.splits if_splits)
  finally have f: "pm_find (pm_look pm now ?k) locked ?k = None" .
  have "pm_cacheTTL (pm_look pm t k) = pm_cacheTTL pm" for pm t k
    using probes.inv_look [of pm "pm_cacheTTL pm"] by simp
  then show ?thesis
    using assms(1,2) f
    by (simp add: CheckOrProbe_def GetStatus_eq Let_def pm_put_def verdict_def split: sum.splits)
qed

text \<open>
  A server of unknown standing is asked once, and the verdict holds: for as long as the lifetime of the entry
  lasts, every later check gives the same answer without asking again, whatever the server would
  say by then.
\<close>

theorem probe_verdict_kept:
  assumes "\<not> unusable ip" "pm_find pm now (IP_String ip) = None" "now \<le> locked" "locked \<le> answered"
    and "CheckOrProbe pm query now locked answered ip = (pm', r)"
    and "answered \<le> t" "t \<le> answered + pm_cacheTTL pm"
  shows "r = (verdict query ip = StatusSupported)
    \<and> CheckOrProbe pm' query' t locked' answered' ip = (pm', r)"
proof -
  let ?k = "IP_String ip" and ?pm = "pm_look (pm_look pm now (IP_String ip)) locked (IP_String ip)"
  have r: "r = (verdict query ip = StatusSupported)" and pm': "pm' = pm_put ?pm answered ?k (verdict query ip)"
    using assms(5) CheckOrProbe_unknown [OF assms(1-3)] by simp_all
  have ttl: "pm_cacheTTL ?pm = pm_cacheTTL pm"
    using probes.inv_look [of pm "pm_cacheTTL pm"] probes.inv_look [of "pm_look pm now ?k" "pm_cacheTTL pm"] by simp
  have f: "pm_find pm' t ?k = Some (verdict query ip)"
    unfolding pm' using probes.find_put [OF refl TrueI assms(6)] assms(7) ttl by (simp add: alive_def)
  moreover have "verdict query ip \<noteq> StatusUnknown"
    by (auto simp: verdict_def split: sum.splits)
  moreover have "pm_look pm' t ?k = pm'"
    using f by (simp add: pm_look_def)
  ultimately show ?thesis
    using CheckOrProbe_known [OF assms(1) f] r by simp
qed

theorem probe_verdict_kept_witness:
  "False = (verdict (\<lambda>_ _. Inl ''timeout'') [9, 9, 9, 9] = StatusSupported)
    \<and> CheckOrProbe (fst (CheckOrProbe (NewProbeManager 0 0) (\<lambda>_ _. Inl ''timeout'') 1 2 3 [9, 9, 9, 9]))
        (\<lambda>_ _. Inr answer_sample) 4 5 6 [9, 9, 9, 9]
      = (fst (CheckOrProbe (NewProbeManager 0 0) (\<lambda>_ _. Inl ''timeout'') 1 2 3 [9, 9, 9, 9]), False)"
proof (rule probe_verdict_kept [where pm = "NewProbeManager 0 0" and now = 1 and locked = 2 and answered = 3])
  show "\<not> unusable [9, 9, 9, 9]" "pm_find (NewProbeManager 0 0) 1 (IP_String [9, 9, 9, 9]) = None"
    "4 \<le> 3 + pm_cacheTTL (NewProbeManager 0 0)"
    by code_simp+
  show "CheckOrProbe (NewProbeManager 0 0) (\<lambda>_ _. Inl ''timeout'') 1 2 3 [9, 9, 9, 9]
      = (fst (CheckOrProbe (NewProbeManager 0 0) (\<lambda>_ _. Inl ''timeout'') 1 2 3 [9, 9, 9, 9]), False)"
    by code_simp
qed simp_all

end
