(* ===== verification/DnsCoalesce.thy ===== *)
theory DnsCoalesce
  imports GoNet
begin

text \<open>
  Coalescing of simultaneous queries, \<open>internal/dns/coalesce.go\<close>, as a state machine.  Each caller of \<open>Do\<close> goes
  through the atomic sections of the code: the locked lookup (\<open>do_enter\<close>), the return or panic of \<open>fn\<close> with
  the assignment of \<open>c.val\<close> and \<open>c.err\<close> (\<open>do_fn\<close>), the locked deletion of the key (\<open>do_remove\<close>),
  \<open>c.wg.Done()\<close> with the leader's return (\<open>do_done\<close>), and, for a waiter, the return from \<open>c.wg.Wait()\<close>
  (\<open>do_wake\<close>).  A section that is not enabled in a state is \<open>None\<close>.  \<open>cg_step\<close> interleaves the sections of any
  number of callers in any order.

  The lemmas give the invariant of the reachable states, from which follow that at most one \<open>fn\<close> is in
  flight per key, that all callers of a call see the same result, and that no waiter is left behind.
\<close>

section \<open>The state machine\<close>

definition makeCoalesceKey :: "netIP \<Rightarrow> string \<Rightarrow> uint16 \<Rightarrow> string" where
  "makeCoalesceKey dstIP qname qtype = IP_String dstIP @ '':'' @ qname @ '':'' @ Itoa (unat qtype)"

text \<open>What \<open>fn\<close> does: return an answer or an error, panic, or end its goroutine (\<open>runtime.Goexit\<close>, the case in
  which \<open>recover\<close> gives \<open>nil\<close> although \<open>panicked\<close> is still set).\<close>

datatype fn_outcome = Returns "string + byte list" | Panics string | Goexits

record coalesceCall =
  cc_key :: string
  cc_result :: "(string + byte list) option"
  cc_done :: bool

datatype caller =
  Idle
| Running nat
| Finished nat bool
| Removed nat bool
| Waiting nat
| Returned nat "string + byte list" bool
| Panicked nat

record CoalesceGroup =
  cg_m :: "string \<Rightarrow> nat option"
  cg_calls :: "nat \<Rightarrow> coalesceCall option"
  cg_next :: nat
  cg_callers :: "nat \<Rightarrow> caller"

definition NewCoalesceGroup :: CoalesceGroup where
  "NewCoalesceGroup = \<lparr>cg_m = (\<lambda>_. None), cg_calls = (\<lambda>_. None), cg_next = 0, cg_callers = (\<lambda>_. Idle)\<rparr>"

definition set_caller :: "nat \<Rightarrow> caller \<Rightarrow> CoalesceGroup \<Rightarrow> CoalesceGroup" where
  "set_caller w p g = g\<lparr>cg_callers := (cg_callers g)(w := p)\<rparr>"

text \<open>\<open>g.mu.Lock()\<close> to \<open>g.mu.Unlock()\<close> at the start of \<open>Do\<close>.\<close>

definition do_enter :: "nat \<Rightarrow> string \<Rightarrow> CoalesceGroup \<Rightarrow> CoalesceGroup option" where
  "do_enter w key g =
     (if cg_callers g w \<noteq> Idle then None
      else case cg_m g key of
        Some c \<Rightarrow> Some (set_caller w (Waiting c) g)
      | None \<Rightarrow>
          let c = cg_next g
          in Some (set_caller w (Running c)
               (g\<lparr>cg_m := (cg_m g)(key \<mapsto> c),
                  cg_calls := (cg_calls g)(c \<mapsto> \<lparr>cc_key = key, cc_result = None, cc_done = False\<rparr>),
                  cg_next := c + 1\<rparr>)))"

text \<open>\<open>c.val, c.err = fn()\<close>, or the assignment of \<open>c.err\<close> in the deferred function after a panic.\<close>

definition do_fn :: "nat \<Rightarrow> fn_outcome \<Rightarrow> CoalesceGroup \<Rightarrow> CoalesceGroup option" where
  "do_fn w out g =
     (case cg_callers g w of
        Running c \<Rightarrow>
          (case cg_calls g c of
             Some call \<Rightarrow>
               let (r, panicked) = (case out of
                     Returns r \<Rightarrow> (r, False)
                   | Panics m \<Rightarrow> (Inl (''dns coalesce query panicked: '' @ m), True)
                   | Goexits \<Rightarrow> (Inl (''dns coalesce query panicked: <nil>''), True))
               in Some (set_caller w (Finished c panicked)
                    (g\<lparr>cg_calls := (cg_calls g)(c \<mapsto> call\<lparr>cc_result := Some r\<rparr>)\<rparr>))
           | None \<Rightarrow> None)
      | _ \<Rightarrow> None)"

text \<open>\<open>g.mu.Lock(); delete(g.m, key); g.mu.Unlock()\<close>\<close>

definition do_remove :: "nat \<Rightarrow> CoalesceGroup \<Rightarrow> CoalesceGroup option" where
  "do_remove w g =
     (case cg_callers g w of
        Finished c panicked \<Rightarrow>
          (case cg_calls g c of
             Some call \<Rightarrow> Some (set_caller w (Removed c panicked) (g\<lparr>cg_m := (cg_m g)(cc_key call := None)\<rparr>))
           | None \<Rightarrow> None)
      | _ \<Rightarrow> None)"

text \<open>\<open>c.wg.Done()\<close>, then the leader returns its result or unwinds (it panics again, or its goroutine ends).\<close>

definition do_done :: "nat \<Rightarrow> CoalesceGroup \<Rightarrow> CoalesceGroup option" where
  "do_done w g =
     (case cg_callers g w of
        Removed c panicked \<Rightarrow>
          (case cg_calls g c of
             Some call \<Rightarrow>
               (case cc_result call of
                  Some r \<Rightarrow>
                    Some (set_caller w (if panicked then Panicked c else Returned c r False)
                      (g\<lparr>cg_calls := (cg_calls g)(c \<mapsto> call\<lparr>cc_done := True\<rparr>)\<rparr>))
                | None \<Rightarrow> None)
           | None \<Rightarrow> None)
      | _ \<Rightarrow> None)"

text \<open>A waiter after \<open>c.wg.Wait()\<close>.\<close>

definition do_wake :: "nat \<Rightarrow> CoalesceGroup \<Rightarrow> CoalesceGroup option" where
  "do_wake w g =
     (case cg_callers g w of
        Waiting c \<Rightarrow>
          (case cg_calls g c of
             Some call \<Rightarrow>
               (if cc_done call then
                  (case cc_result call of
                     Some r \<Rightarrow> Some (set_caller w (Returned c r True) g)
                   | None \<Rightarrow> None)
                else None)
           | None \<Rightarrow> None)
      | _ \<Rightarrow> None)"

inductive cg_step :: "CoalesceGroup \<Rightarrow> CoalesceGroup \<Rightarrow> bool" where
  step_enter: "do_enter w key g = Some g' \<Longrightarrow> cg_step g g'"
| step_fn: "do_fn w out g = Some g' \<Longrightarrow> cg_step g g'"
| step_remove: "do_remove w g = Some g' \<Longrightarrow> cg_step g g'"
| step_done: "do_done w g = Some g' \<Longrightarrow> cg_step g g'"
| step_wake: "do_wake w g = Some g' \<Longrightarrow> cg_step g g'"

inductive cg_reachable :: "CoalesceGroup \<Rightarrow> bool" where
  reach_new: "cg_reachable NewCoalesceGroup"
| reach_step: "cg_reachable g \<Longrightarrow> cg_step g g' \<Longrightarrow> cg_reachable g'"

section \<open>Invariant\<close>

lemmas do_defs = do_enter_def do_fn_def do_remove_def do_done_def do_wake_def

fun leads :: "caller \<Rightarrow> nat \<Rightarrow> bool" where
  "leads (Running c') c = (c' = c)"
| "leads (Finished c' p) c = (c' = c)"
| "leads (Removed c' p) c = (c' = c)"
| "leads _ c = False"

text \<open>What a caller's phase says of its call.\<close>

fun phase_ok :: "CoalesceGroup \<Rightarrow> caller \<Rightarrow> bool" where
  "phase_ok g Idle = True"
| "phase_ok g (Running c) = (case cg_calls g c of None \<Rightarrow> False | Some call \<Rightarrow>
     cg_m g (cc_key call) = Some c \<and> cc_result call = None \<and> \<not> cc_done call)"
| "phase_ok g (Finished c p) = (case cg_calls g c of None \<Rightarrow> False | Some call \<Rightarrow>
     cg_m g (cc_key call) = Some c \<and> cc_result call \<noteq> None \<and> \<not> cc_done call)"
| "phase_ok g (Removed c p) = (case cg_calls g c of None \<Rightarrow> False | Some call \<Rightarrow>
     cg_m g (cc_key call) \<noteq> Some c \<and> cc_result call \<noteq> None \<and> \<not> cc_done call)"
| "phase_ok g (Waiting c) = (case cg_calls g c of None \<Rightarrow> False | Some call \<Rightarrow>
     if cc_done call then cc_result call \<noteq> None else \<exists>w. leads (cg_callers g w) c)"
| "phase_ok g (Returned c r shared) = (case cg_calls g c of None \<Rightarrow> False | Some call \<Rightarrow>
     cc_result call = Some r \<and> cc_done call)"
| "phase_ok g (Panicked c) = (case cg_calls g c of None \<Rightarrow> False | Some call \<Rightarrow>
     cc_result call \<noteq> None \<and> cc_done call)"

definition cg_inv :: "CoalesceGroup \<Rightarrow> bool" where
  "cg_inv g \<longleftrightarrow>
     (\<forall>w. phase_ok g (cg_callers g w))
     \<and> (\<forall>key c. cg_m g key = Some c \<longrightarrow> (\<exists>call w. cg_calls g c = Some call \<and> cc_key call = key
           \<and> \<not> cc_done call \<and> leads (cg_callers g w) c))
     \<and> (\<forall>w w' c. leads (cg_callers g w) c \<longrightarrow> leads (cg_callers g w') c \<longrightarrow> w = w')
     \<and> (\<forall>c call. cg_calls g c = Some call \<longrightarrow> c < cg_next g)"

lemma cg_inv_new: "cg_inv NewCoalesceGroup"
  by (simp add: cg_inv_def NewCoalesceGroup_def)

lemma cg_invD:
  assumes "cg_inv g"
  shows cg_phase: "phase_ok g (cg_callers g w)"
    and cg_keyed: "cg_m g key = Some c \<Longrightarrow>
      \<exists>call w. cg_calls g c = Some call \<and> cc_key call = key \<and> \<not> cc_done call \<and> leads (cg_callers g w) c"
    and cg_leader: "leads (cg_callers g w) c \<Longrightarrow> leads (cg_callers g w') c \<Longrightarrow> w = w'"
    and cg_fresh: "cg_calls g c = Some call \<Longrightarrow> c < cg_next g"
  using assms unfolding cg_inv_def by blast+

lemma leads_call:
  assumes "cg_inv g" "leads (cg_callers g w) c"
  shows "\<exists>call. cg_calls g c = Some call \<and> \<not> cc_done call"
  using cg_phase [OF assms(1), of w] assms(2) by (cases "cg_callers g w") (auto split: option.splits)

text \<open>A step that changes one caller and one call.  The other callers keep their phase when the call keeps what
  the phase says of it.\<close>

lemma enter_waits_inv:
  assumes inv: "cg_inv g" and idle: "cg_callers g w = Idle" and m: "cg_m g key = Some c"
  shows "cg_inv (set_caller w (Waiting c) g)"
proof -
  let ?g = "set_caller w (Waiting c) g"
  have leads: "leads (cg_callers ?g v) d = leads (cg_callers g v) d" for v d
    by (simp add: set_caller_def idle)
  have "phase_ok ?g (cg_callers ?g v)" for v
  proof (cases "v = w")
    case True
    then show ?thesis
      using cg_keyed [OF inv m] leads by (auto simp: set_caller_def)
  next
    case False
    then have same: "cg_callers ?g v = cg_callers g v"
      by (simp add: set_caller_def)
    show ?thesis
      using cg_phase [OF inv, of v] leads unfolding same
      by (cases "cg_callers g v") (auto simp: set_caller_def split: option.splits if_splits)
  qed
  moreover have "cg_m ?g = cg_m g" "cg_calls ?g = cg_calls g" "cg_next ?g = cg_next g"
    by (simp_all add: set_caller_def)
  ultimately show ?thesis
    using inv leads unfolding cg_inv_def by simp
qed

lemma enter_leads_inv:
  assumes inv: "cg_inv g" and idle: "cg_callers g w = Idle" and m: "cg_m g key = None"
  shows "cg_inv (set_caller w (Running (cg_next g))
     (g\<lparr>cg_m := (cg_m g)(key \<mapsto> cg_next g),
        cg_calls := (cg_calls g)(cg_next g \<mapsto> \<lparr>cc_key = key, cc_result = None, cc_done = False\<rparr>),
        cg_next := cg_next g + 1\<rparr>))" (is "cg_inv ?g")
proof -
  have new: "cg_calls g (cg_next g) = None"
    using cg_fresh [OF inv, of "cg_next g"] by (cases "cg_calls g (cg_next g)") auto
  have leads: "leads (cg_callers ?g v) d = (if v = w then d = cg_next g else leads (cg_callers g v) d)" for v d
    by (auto simp: set_caller_def)
  have old: "\<not> leads (cg_callers g v) (cg_next g)" for v
    using leads_call [OF inv, of v "cg_next g"] new by auto
  have phase: "phase_ok ?g (cg_callers ?g v)" for v
  proof (cases "v = w")
    case False
    then have same: "cg_callers ?g v = cg_callers g v"
      by (simp add: set_caller_def)
    have "leads (cg_callers g u) c \<Longrightarrow> u \<noteq> w" for u c
      using idle by auto
    then show ?thesis
      using cg_phase [OF inv, of v] m new unfolding same
      by (cases "cg_callers g v") (auto simp: set_caller_def split: option.splits if_splits)
  qed (simp add: set_caller_def)
  have keyed: "\<exists>call u. cg_calls ?g c = Some call \<and> cc_key call = k \<and> \<not> cc_done call \<and> leads (cg_callers ?g u) c"
    if "cg_m ?g k = Some c" for k c
  proof (cases "k = key")
    case True
    then show ?thesis
      using that leads [of w c] by (auto simp: set_caller_def)
  next
    case False
    then have "cg_m g k = Some c"
      using that by (simp add: set_caller_def)
    then obtain call u where u: "cg_calls g c = Some call" "cc_key call = k" "\<not> cc_done call" "leads (cg_callers g u) c"
      using cg_keyed [OF inv] by blast
    moreover have "u \<noteq> w"
      using u(4) idle by auto
    ultimately show ?thesis
      using new leads [of u c] by (auto simp: set_caller_def split: option.splits if_splits)
  qed
  have "leads (cg_callers ?g v) c \<Longrightarrow> leads (cg_callers ?g v') c \<Longrightarrow> v = v'" for v v' c
    using cg_leader [OF inv, of v c v'] old unfolding leads by (auto split: if_splits)
  moreover have "cg_calls ?g c = Some call \<Longrightarrow> c < cg_next ?g" for c call
    using cg_fresh [OF inv, of c] by (auto simp: set_caller_def less_SucI split: if_splits)
  ultimately show ?thesis
    using phase keyed unfolding cg_inv_def by blast
qed

text \<open>A leader that moves on while it still leads its call, the call and the table changing as given.\<close>

lemma leader_moves_inv:
  assumes inv: "cg_inv g" and lead: "leads (cg_callers g w) c" and call: "cg_calls g c = Some call"
    and lead': "\<And>d. leads p d = (d = c)" 
    and call': "cc_key call' = cc_key call" "\<not> cc_done call'"
    and m': "\<And>k. m' k = cg_m g k \<or> (k = cc_key call \<and> cg_m g k = Some c \<and> m' k = None)"
    and p: "phase_ok (set_caller w p (g\<lparr>cg_calls := (cg_calls g)(c \<mapsto> call'), cg_m := m'\<rparr>)) p"
  shows "cg_inv (set_caller w p (g\<lparr>cg_calls := (cg_calls g)(c \<mapsto> call'), cg_m := m'\<rparr>))" (is "cg_inv ?g")
proof -
  have leads: "leads (cg_callers ?g v) d = leads (cg_callers g v) d" for v d
    using lead lead' by (cases "cg_callers g w") (auto simp: set_caller_def)
  have other: "\<not> leads (cg_callers g v) c" if "v \<noteq> w" for v
    using cg_leader [OF inv lead, of v] that by blast
  have notdone: "\<not> cc_done call"
    using leads_call [OF inv lead] call by auto
  have kept: "d \<noteq> c \<Longrightarrow> (m' k = Some d) = (cg_m g k = Some d)" for k d
    using m' [of k] by auto
  have known: "m' k = Some d \<Longrightarrow> cg_m g k = Some d" for k d
    using m' [of k] by auto
  have phase: "phase_ok ?g (cg_callers ?g v)" for v
  proof (cases "v = w")
    case True
    then show ?thesis
      using p by (simp add: set_caller_def)
  next
    case False
    then have same: "cg_callers ?g v = cg_callers g v"
      by (simp add: set_caller_def)
    show ?thesis
    proof (cases "cg_callers g v")
      case (Waiting d)
      then show ?thesis
        using cg_phase [OF inv, of v] lead call call' leads unfolding same
        by (auto simp: set_caller_def split: option.splits if_splits)
    next
      case (Running d)
      then show ?thesis
        using cg_phase [OF inv, of v] other [OF False] unfolding same
        by (simp add: set_caller_def kept split: option.splits)
    next
      case (Finished d q)
      then show ?thesis
        using cg_phase [OF inv, of v] other [OF False] unfolding same
        by (simp add: set_caller_def kept split: option.splits)
    next
      case (Removed d q)
      then show ?thesis
        using cg_phase [OF inv, of v] other [OF False] unfolding same
        by (simp add: set_caller_def kept split: option.splits)
    qed (use cg_phase [OF inv, of v] same call notdone in \<open>auto simp: set_caller_def split: option.splits\<close>)
  qed
  have keyed: "\<exists>cl u. cg_calls ?g d = Some cl \<and> cc_key cl = k \<and> \<not> cc_done cl \<and> leads (cg_callers ?g u) d"
    if "cg_m ?g k = Some d" for k d
  proof -
    have "cg_m g k = Some d"
      using that known by (simp add: set_caller_def)
    then obtain cl u where "cg_calls g d = Some cl" "cc_key cl = k" "\<not> cc_done cl" "leads (cg_callers g u) d"
      using cg_keyed [OF inv] by blast
    then show ?thesis
      using call call' leads by (auto simp: set_caller_def split: option.splits if_splits)
  qed
  have "cg_calls ?g d = Some cl \<Longrightarrow> d < cg_next ?g" for d cl
    using cg_fresh [OF inv, of d] call by (auto simp: set_caller_def split: if_splits)
  moreover have "leads (cg_callers ?g v) d \<Longrightarrow> leads (cg_callers ?g v') d \<Longrightarrow> v = v'" for v v' d
    unfolding leads by (rule cg_leader [OF inv])
  ultimately show ?thesis
    using phase keyed unfolding cg_inv_def by blast
qed

lemma do_fn_inv:
  assumes inv: "cg_inv g" and step: "do_fn w out g = Some g'"
  shows "cg_inv g'"
proof -
  obtain c where w: "cg_callers g w = Running c"
    using step by (auto simp: do_fn_def split: caller.splits)
  obtain call where call: "cg_calls g c = Some call" "cg_m g (cc_key call) = Some c" "\<not> cc_done call"
    using cg_phase [OF inv, of w] w by (auto split: option.splits)
  obtain r q where "g' = set_caller w (Finished c q)
      (g\<lparr>cg_calls := (cg_calls g)(c \<mapsto> call\<lparr>cc_result := Some r\<rparr>), cg_m := cg_m g\<rparr>)"
    using step w call by (auto simp: do_fn_def split: fn_outcome.splits)
  then show ?thesis
    by (simp only:) (rule leader_moves_inv [OF inv, of w c call], auto simp: set_caller_def w call)
qed

lemma do_remove_inv:
  assumes inv: "cg_inv g" and step: "do_remove w g = Some g'"
  shows "cg_inv g'"
proof -
  obtain c q where w: "cg_callers g w = Finished c q"
    using step by (auto simp: do_remove_def split: caller.splits)
  obtain call r where call: "cg_calls g c = Some call" "cg_m g (cc_key call) = Some c" "\<not> cc_done call"
      "cc_result call = Some r"
    using cg_phase [OF inv, of w] w by (auto split: option.splits)
  have "g' = set_caller w (Removed c q)
      (g\<lparr>cg_calls := (cg_calls g)(c \<mapsto> call), cg_m := (cg_m g)(cc_key call := None)\<rparr>)"
    using step w call by (auto simp: do_remove_def fun_upd_idem)
  then show ?thesis
    by (simp only:) (rule leader_moves_inv [OF inv, of w c call], auto simp: set_caller_def w call)
qed

lemma do_done_inv:
  assumes inv: "cg_inv g" and step: "do_done w g = Some g'"
  shows "cg_inv g'"
proof -
  obtain c q where w: "cg_callers g w = Removed c q"
    using step by (auto simp: do_done_def split: caller.splits)
  obtain call r where call: "cg_calls g c = Some call" "cg_m g (cc_key call) \<noteq> Some c" "\<not> cc_done call"
      "cc_result call = Some r"
    using cg_phase [OF inv, of w] w by (auto split: option.splits)
  let ?p = "if q then Panicked c else Returned c r False"
  have g': "g' = set_caller w ?p (g\<lparr>cg_calls := (cg_calls g)(c \<mapsto> call\<lparr>cc_done := True\<rparr>)\<rparr>)"
    using step w call by (simp add: do_done_def)
  have leads: "leads (cg_callers g' v) d = (v \<noteq> w \<and> leads (cg_callers g v) d)" for v d
    by (simp add: g' set_caller_def)
  have other: "\<not> leads (cg_callers g v) c" if "v \<noteq> w" for v
    using cg_leader [OF inv, of w c v] w that by auto
  have phase: "phase_ok g' (cg_callers g' v)" for v
  proof (cases "v = w")
    case True
    then show ?thesis
      using call by (simp add: g' set_caller_def)
  next
    case False
    then have same: "cg_callers g' v = cg_callers g v"
      by (simp add: g' set_caller_def)
    show ?thesis
    proof (cases "cg_callers g v")
      case (Waiting d)
      then show ?thesis
        using cg_phase [OF inv, of v] call w leads unfolding same
        by (cases "d = c") (auto simp: g' set_caller_def split: option.splits if_splits, metis leads.simps(3))
    qed (use cg_phase [OF inv, of v] other [OF False] call same in
        \<open>auto simp: g' set_caller_def split: option.splits\<close>)
  qed
  have keyed: "\<exists>cl u. cg_calls g' d = Some cl \<and> cc_key cl = k \<and> \<not> cc_done cl \<and> leads (cg_callers g' u) d"
    if "cg_m g' k = Some d" for k d
  proof -
    have "cg_m g k = Some d"
      using that by (simp add: g' set_caller_def)
    then obtain cl u where u: "cg_calls g d = Some cl" "cc_key cl = k" "\<not> cc_done cl" "leads (cg_callers g u) d"
      using cg_keyed [OF inv] by blast
    then have "d \<noteq> c"
      using call \<open>cg_m g k = Some d\<close> by auto
    then show ?thesis
      using u w leads [of u d] by (auto simp: g' set_caller_def)
  qed
  have "cg_calls g' d = Some cl \<Longrightarrow> d < cg_next g'" for d cl
    using cg_fresh [OF inv, of d] call by (auto simp: g' set_caller_def split: if_splits)
  moreover have "leads (cg_callers g' v) d \<Longrightarrow> leads (cg_callers g' v') d \<Longrightarrow> v = v'" for v v' d
    using cg_leader [OF inv, of v d v'] unfolding leads by blast
  ultimately show ?thesis
    using phase keyed unfolding cg_inv_def by blast
qed

lemma do_wake_inv:
  assumes inv: "cg_inv g" and step: "do_wake w g = Some g'"
  shows "cg_inv g'"
proof -
  obtain c where w: "cg_callers g w = Waiting c"
    using step by (auto simp: do_wake_def split: caller.splits)
  obtain call r where call: "cg_calls g c = Some call" "cc_done call" "cc_result call = Some r"
      and g': "g' = set_caller w (Returned c r True) g"
    using step w by (auto simp: do_wake_def split: option.splits if_splits)
  have leads: "leads (cg_callers g' v) d = leads (cg_callers g v) d" for v d
    by (simp add: g' set_caller_def w)
  have same: "cg_m g' = cg_m g" "cg_calls g' = cg_calls g" "cg_next g' = cg_next g"
    by (simp_all add: g' set_caller_def)
  have "phase_ok g' (cg_callers g' v)" for v
  proof (cases "v = w")
    case True
    then show ?thesis
      using call by (simp add: g' set_caller_def)
  next
    case False
    then have "cg_callers g' v = cg_callers g v"
      by (simp add: g' set_caller_def)
    then show ?thesis
      using cg_phase [OF inv, of v] leads same by (cases "cg_callers g v") (auto split: option.splits if_splits)
  qed
  then show ?thesis
    using inv leads same unfolding cg_inv_def by simp
qed

lemma do_enter_inv:
  assumes inv: "cg_inv g" and step: "do_enter w key g = Some g'"
  shows "cg_inv g'"
  using step enter_waits_inv [OF inv, of w key] enter_leads_inv [OF inv, of w key]
  by (auto simp: do_enter_def Let_def split: option.splits if_splits)

theorem cg_reachable_inv: "cg_reachable g \<Longrightarrow> cg_inv g"
proof (induction rule: cg_reachable.induct)
  case reach_new
  show ?case
    by (rule cg_inv_new)
next
  case (reach_step g g')
  from reach_step.hyps(2) reach_step.IH show ?case
    by cases (blast intro: do_enter_inv do_fn_inv do_remove_inv do_done_inv do_wake_inv)+
qed

section \<open>Properties\<close>

lemma leader_wakes:
  assumes "cg_reachable g" "cg_callers g w = Waiting c" "cg_callers g v = Removed c q"
  shows "\<exists>g' r. cg_step\<^sup>*\<^sup>* g g' \<and> cg_callers g' w = Returned c r True"
proof -
  obtain call r where call: "cg_calls g c = Some call" "cc_result call = Some r"
    using cg_phase [OF cg_reachable_inv [OF assms(1)], of v] assms(3) by (auto split: option.splits)
  let ?h = "set_caller v (if q then Panicked c else Returned c r False)
    (g\<lparr>cg_calls := (cg_calls g)(c \<mapsto> call\<lparr>cc_done := True\<rparr>)\<rparr>)"
  have "cg_step g ?h"
    using assms(3) call by (intro step_done [of v]) (simp add: do_done_def)
  moreover have "w \<noteq> v"
    using assms(2,3) by auto
  then have "cg_step ?h (set_caller w (Returned c r True) ?h)"
    using assms(2) call by (intro step_wake [of w]) (simp add: do_wake_def set_caller_def)
  moreover have "cg_callers (set_caller w (Returned c r True) ?h) w = Returned c r True"
    by (simp add: set_caller_def)
  ultimately show ?thesis
    by (meson converse_rtranclp_into_rtranclp rtranclp.rtrancl_refl)
qed

lemma leader_step:
  assumes "cg_step g h" "\<exists>g' r. cg_step\<^sup>*\<^sup>* h g' \<and> cg_callers g' w = Returned c r True"
  shows "\<exists>g' r. cg_step\<^sup>*\<^sup>* g g' \<and> cg_callers g' w = Returned c r True"
  using assms by (meson converse_rtranclp_into_rtranclp)

lemma leader_removes:
  assumes "cg_reachable g" "cg_callers g w = Waiting c" "cg_callers g v = Finished c q"
  shows "\<exists>g' r. cg_step\<^sup>*\<^sup>* g g' \<and> cg_callers g' w = Returned c r True"
proof -
  obtain call where call: "cg_calls g c = Some call"
    using cg_phase [OF cg_reachable_inv [OF assms(1)], of v] assms(3) by (auto split: option.splits)
  let ?h = "set_caller v (Removed c q) (g\<lparr>cg_m := (cg_m g)(cc_key call := None)\<rparr>)"
  have step: "cg_step g ?h"
    using assms(3) call by (intro step_remove [of v]) (simp add: do_remove_def)
  moreover have "cg_callers ?h w = Waiting c" "cg_callers ?h v = Removed c q"
    using assms(2,3) by (auto simp: set_caller_def)
  ultimately show ?thesis
    using leader_wakes reach_step [OF assms(1) step] leader_step by blast
qed

lemma leader_runs:
  assumes "cg_reachable g" "cg_callers g w = Waiting c" "cg_callers g v = Running c"
  shows "\<exists>g' r. cg_step\<^sup>*\<^sup>* g g' \<and> cg_callers g' w = Returned c r True"
proof -
  obtain call where call: "cg_calls g c = Some call"
    using cg_phase [OF cg_reachable_inv [OF assms(1)], of v] assms(3) by (auto split: option.splits)
  let ?h = "set_caller v (Finished c True) (g\<lparr>cg_calls := (cg_calls g)(c \<mapsto> call\<lparr>cc_result :=
    Some (Inl ''dns coalesce query panicked: <nil>'')\<rparr>)\<rparr>)"
  have step: "cg_step g ?h"
    using assms(3) call by (intro step_fn [of v Goexits]) (simp add: do_fn_def)
  moreover have "cg_callers ?h w = Waiting c" "cg_callers ?h v = Finished c True"
    using assms(2,3) by (auto simp: set_caller_def)
  ultimately show ?thesis
    using leader_removes reach_step [OF assms(1) step] leader_step by blast
qed

text \<open>Two callers that share a key while the first is in flight: the group of the examples below.\<close>

definition sample_key :: string where
  "sample_key = ''1.1.1.1:a.b:1''"

definition sample_group :: CoalesceGroup where
  "sample_group = the (do_enter 1 sample_key (the (do_enter 0 sample_key NewCoalesceGroup)))"

lemma sample_group_reachable: "cg_reachable sample_group"
proof -
  have enters: "do_enter 0 sample_key NewCoalesceGroup = Some (the (do_enter 0 sample_key NewCoalesceGroup))"
    "do_enter 1 sample_key (the (do_enter 0 sample_key NewCoalesceGroup)) = Some sample_group"
    by (simp_all add: sample_group_def do_enter_def NewCoalesceGroup_def set_caller_def Let_def)
  show ?thesis
    by (rule reach_step [OF reach_step [OF reach_new step_enter [OF enters(1)]] step_enter [OF enters(2)]])
qed

lemma sample_group_callers: "cg_callers sample_group 0 = Running 0" "cg_callers sample_group 1 = Waiting 0"
  by (simp_all add: sample_group_def do_enter_def NewCoalesceGroup_def set_caller_def Let_def)

definition sample_served :: CoalesceGroup where
  "sample_served = the (do_wake 1 (the (do_done 0 (the (do_remove 0 (the (do_fn 0 (Returns (Inr [7])) sample_group)))))))"

lemma sample_group_eq: "sample_group = \<lparr>cg_m = [sample_key \<mapsto> 0],
    cg_calls = [0 \<mapsto> \<lparr>cc_key = sample_key, cc_result = None, cc_done = False\<rparr>],
    cg_next = 1, cg_callers = (\<lambda>_. Idle)(0 := Running 0, 1 := Waiting 0)\<rparr>"
  by (simp add: sample_group_def do_enter_def NewCoalesceGroup_def set_caller_def Let_def)

lemma sample_served_reachable: "cg_reachable sample_served"
proof -
  note defs = do_defs sample_group_eq set_caller_def
  obtain h1 h2 h3 where steps: "do_fn 0 (Returns (Inr [7])) sample_group = Some h1" "do_remove 0 h1 = Some h2"
    "do_done 0 h2 = Some h3" "do_wake 1 h3 = Some sample_served"
    by (simp add: sample_served_def defs)
  show ?thesis
    by (rule reach_step [OF reach_step [OF reach_step [OF reach_step [OF sample_group_reachable step_fn [OF steps(1)]]
        step_remove [OF steps(2)]] step_done [OF steps(3)]] step_wake [OF steps(4)]])
qed

lemma sample_served_callers:
  "cg_callers sample_served 0 = Returned 0 (Inr [7]) False" "cg_callers sample_served 1 = Returned 0 (Inr [7]) True"
  by (simp_all add: sample_served_def do_defs sample_group_eq set_caller_def)

text \<open>
  C12.  Single flight: while \<open>fn\<close> of a caller is in flight, no other caller has an \<open>fn\<close> in flight for the same key,
  and a caller that now asks for the key does not start one but waits for the call that is in flight.
\<close>

theorem coalesce_single_flight:
  assumes "cg_reachable g" and "cg_callers g w = Running c" and "cg_calls g c = Some call"
  shows "(\<forall>v d. cg_callers g v = Running d \<and> map_option cc_key (cg_calls g d) = Some (cc_key call) \<longrightarrow> v = w)
    \<and> (\<forall>v. cg_callers g v = Idle \<longrightarrow> do_enter v (cc_key call) g = Some (set_caller v (Waiting c) g))"
proof -
  note inv = cg_reachable_inv [OF assms(1)]
  have m: "cg_m g (cc_key call) = Some c"
    using cg_phase [OF inv, of w] assms by simp
  have "v = w" if "cg_callers g v = Running d" "map_option cc_key (cg_calls g d) = Some (cc_key call)" for v d
  proof -
    have "cg_m g (cc_key call) = Some d"
      using cg_phase [OF inv, of v] that by (auto split: option.splits)
    then show ?thesis
      using cg_leader [OF inv, of v c w] m that assms(2) by simp
  qed
  then show ?thesis
    using m by (auto simp: do_enter_def)
qed

theorem coalesce_single_flight_witness:
  "do_enter 2 sample_key sample_group = Some (set_caller 2 (Waiting 0) sample_group)"
  using coalesce_single_flight [OF sample_group_reachable sample_group_callers(1),
      of "\<lparr>cc_key = sample_key, cc_result = None, cc_done = False\<rparr>"]
  by (simp add: sample_group_eq)

text \<open>
  All callers that have returned from one call have returned the same result, the leader and the waiters
  alike.
\<close>

theorem coalesce_same_result:
  assumes "cg_reachable g"
    and "cg_callers g w = Returned c r shared" and "cg_callers g w' = Returned c r' shared'"
  shows "r = r'"
  using cg_phase [OF cg_reachable_inv [OF assms(1)], of w] cg_phase [OF cg_reachable_inv [OF assms(1)], of w'] assms
  by (simp split: option.splits)

theorem coalesce_same_result_witness:
  "\<exists>r. cg_callers sample_served 0 = Returned 0 r False \<and> cg_callers sample_served 1 = Returned 0 r True"
  using coalesce_same_result [OF sample_served_reachable sample_served_callers(1) sample_served_callers(2)]
    sample_served_callers by blast

text \<open>
  C13.  No waiter is left behind: from every reachable state in which a caller waits, whatever the other callers have
  done and even when \<open>fn\<close> of the leader panics, steps lead to a state in which the caller has returned the result
  of the call it waits for.
\<close>

theorem coalesce_waiter_returns:
  assumes "cg_reachable g" and "cg_callers g w = Waiting c"
  shows "\<exists>g' r. cg_step\<^sup>*\<^sup>* g g' \<and> cg_callers g' w = Returned c r True"
proof -
  obtain call where call: "cg_calls g c = Some call"
    and or: "if cc_done call then cc_result call \<noteq> None else \<exists>v. leads (cg_callers g v) c"
    using cg_phase [OF cg_reachable_inv [OF assms(1)], of w] assms(2) by (auto split: option.splits)
  show ?thesis
  proof (cases "cc_done call")
    case True
    then obtain r where r: "cc_result call = Some r"
      using or by auto
    have "cg_step g (set_caller w (Returned c r True) g)"
      using assms(2) call r True by (intro step_wake [of w]) (simp add: do_wake_def)
    then show ?thesis
      by (intro exI [of _ "set_caller w (Returned c r True) g"] exI [of _ r]) (simp add: set_caller_def r_into_rtranclp)
  next
    case False
    then obtain v where "leads (cg_callers g v) c"
      using or by auto
    then show ?thesis
      using leader_runs [OF assms] leader_removes [OF assms] leader_wakes [OF assms]
      by (cases "cg_callers g v") auto
  qed
qed

theorem coalesce_waiter_returns_witness:
  "\<exists>g' r. cg_step\<^sup>*\<^sup>* sample_group g' \<and> cg_callers g' 1 = Returned 0 r True"
  by (rule coalesce_waiter_returns [OF sample_group_reachable sample_group_callers(2)])

end
