(* ===== verification/ConfigManager.thy ===== *)
theory ConfigManager
  imports GoStrings
begin

text \<open>
  The configuration and its hot reload, \<open>internal/config/config.go\<close>.  The file system and the JSON decoder are
  parameters: what \<open>os.Stat\<close> and \<open>os.ReadFile\<close> give at the moment they are called is an argument (\<open>Inl\<close> an
  error), and \<open>unmarshal data cfg\<close> is \<open>json.Unmarshal\<close> into a configuration that already holds the defaults.
  Modification times are integers.  A callback acts on the rest of the program, of type \<open>'w\<close>, and tells whether it
  panicked.

  The lemmas show that every configuration the program ever sees is normalised, that the sequence of reloads is the
  one an abstract history accepts, and that each callback sees every accepted configuration once and in order.
\<close>

section \<open>Configuration\<close>

definition OutboundPortMin :: uint16 where
  "OutboundPortMin = 40000"

definition OutboundPortMax :: uint16 where
  "OutboundPortMax = 48999"

record Config =
  ListenAddr :: string
  UpstreamProxy :: string
  PacURL :: string
  BypassSSPI :: bool
  FilterMode :: string
  AllowedDomains :: "string list"
  AllowedIPs :: "string list"
  BlockedDomains :: "string list"
  BlockedIPs :: "string list"
  DivertFilter :: string
  DryRun :: bool
  LogFile :: string
  ConnectTimeoutSec :: int
  IdleTimeoutSec :: int
  ReloadIntervalSec :: int
  DohEnabled :: bool
  DohTimeoutSec :: int
  FallbackToUDP :: bool
  DNSCacheEnabled :: bool
  DNSCacheTTLSec :: int
  DNSServers :: "string list"
  FilterUDP :: bool

definition DefaultDNSServersIPv4 :: "string list" where
  "DefaultDNSServersIPv4 = [''1.1.1.2'', ''1.0.0.2'']"

definition DefaultDNSServersIPv6 :: "string list" where
  "DefaultDNSServersIPv6 = [''2606:4700:4700::1112'', ''2606:4700:4700::1002'']"

definition IsCustomDNS :: "Config \<Rightarrow> bool" where
  "IsCustomDNS c = (length (DNSServers c) > 0)"

definition GetEffectiveDNSServers :: "Config \<Rightarrow> string list" where
  "GetEffectiveDNSServers c =
     (if length (DNSServers c) > 0 then DNSServers c
      else DefaultDNSServersIPv4 @ DefaultDNSServersIPv6)"

definition full_filter :: "string \<Rightarrow> uint16 \<Rightarrow> string \<Rightarrow> string \<Rightarrow> string" where
  "full_filter cond localProxyPort dohFilter udpFilter =
     ''(('' @ cond @ '') or (outbound and tcp and tcp.SrcPort == '' @ Itoa (unat localProxyPort)
       @ '') or (outbound and udp and udp.DstPort == 443 and !loopback)'' @ dohFilter @ udpFilter @ '')''"

definition BuildDivertFilter :: "Config \<Rightarrow> uint16 \<Rightarrow> string \<times> string" where
  "BuildDivertFilter c localProxyPort =
     (let dohFilter = (if DohEnabled c \<and> \<not> IsCustomDNS c
            then '' or (outbound and udp and udp.DstPort == 53 and !loopback)'' else '''');
          udpFilter = (if FilterUDP c
            then '' or (outbound and udp and udp.DstPort != 53 and udp.DstPort != 443 and !loopback)'' else '''')
      in if DivertFilter c \<noteq> '''' then
           (DivertFilter c, full_filter (DivertFilter c) localProxyPort dohFilter udpFilter)
         else
           let forwardCond = ''outbound and tcp and !loopback and tcp.DstPort != '' @ Itoa (unat localProxyPort)
                 @ '' and (tcp.SrcPort < '' @ Itoa (unat OutboundPortMin)
                 @ '' or tcp.SrcPort > '' @ Itoa (unat OutboundPortMax) @ '')''
           in (forwardCond, full_filter forwardCond localProxyPort dohFilter udpFilter))"

definition DefaultConfig :: Config where
  "DefaultConfig =
     \<lparr>ListenAddr = ''0.0.0.0:18080'', UpstreamProxy = '''', PacURL = '''', BypassSSPI = False,
      FilterMode = ''whitelist'', AllowedDomains = [], AllowedIPs = [], BlockedDomains = [], BlockedIPs = [],
      DivertFilter = '''', DryRun = False, LogFile = '''', ConnectTimeoutSec = 10, IdleTimeoutSec = 60,
      ReloadIntervalSec = 5, DohEnabled = True, DohTimeoutSec = 3, FallbackToUDP = True,
      DNSCacheEnabled = True, DNSCacheTTLSec = 300, DNSServers = [], FilterUDP = False\<rparr>"

section \<open>Loading\<close>

type_synonym unmarshal = "byte list \<Rightarrow> Config \<Rightarrow> string + Config"

text \<open>What the file system answers to the three calls of a check: \<open>os.Stat\<close> in \<open>checkAndReload\<close>, then
  \<open>os.Stat\<close> and \<open>os.ReadFile\<close> in \<open>loadFile\<close>.\<close>

record fs_answers =
  fs_check :: "string + int"
  fs_stat :: "string + int"
  fs_read :: "string + byte list"

definition normalise :: "Config \<Rightarrow> Config" where
  "normalise cfg =
     (let cfg = (if FilterMode cfg = '''' then cfg\<lparr>FilterMode := ''whitelist''\<rparr> else cfg);
          cfg = (if ListenAddr cfg = '''' then cfg\<lparr>ListenAddr := ''0.0.0.0:18080''\<rparr> else cfg);
          cfg = (if ConnectTimeoutSec cfg \<le> 0 then cfg\<lparr>ConnectTimeoutSec := 10\<rparr> else cfg);
          cfg = (if IdleTimeoutSec cfg < 0 then cfg\<lparr>IdleTimeoutSec := 60\<rparr> else cfg);
          cfg = (if ReloadIntervalSec cfg \<le> 0 then cfg\<lparr>ReloadIntervalSec := 5\<rparr> else cfg)
      in cfg)"

definition loadFile :: "unmarshal \<Rightarrow> fs_answers \<Rightarrow> string + Config \<times> int" where
  "loadFile unmarshal fs =
     (case fs_stat fs of
        Inl err \<Rightarrow> Inl err
      | Inr modTime \<Rightarrow>
          (case fs_read fs of
             Inl err \<Rightarrow> Inl err
           | Inr data \<Rightarrow>
               (case unmarshal data DefaultConfig of
                  Inl err \<Rightarrow> Inl (''JSON parse error: '' @ err)
                | Inr cfg \<Rightarrow> Inr (normalise cfg, modTime))))"

section \<open>The manager\<close>

type_synonym 'w callback = "Config \<Rightarrow> 'w \<Rightarrow> 'w \<times> bool"

record 'w Manager =
  filePath :: string
  currentCfg :: "Config option"
  lastMod :: int
  callbacks :: "'w callback list"
  mgr_stopped :: bool

definition NewManager :: "unmarshal \<Rightarrow> fs_answers \<Rightarrow> string \<Rightarrow> string + 'w Manager" where
  "NewManager unmarshal fs path =
     (case loadFile unmarshal fs of
        Inl err \<Rightarrow> Inl (''failed to load initial config from '' @ path @ '': '' @ err)
      | Inr (cfg, modTime) \<Rightarrow>
          Inr \<lparr>filePath = path, currentCfg = Some cfg, lastMod = modTime, callbacks = [], mgr_stopped = False\<rparr>)"

definition mgr_Get :: "'w Manager \<Rightarrow> Config" where
  "mgr_Get m = (case currentCfg m of None \<Rightarrow> DefaultConfig | Some cfg \<Rightarrow> cfg)"

definition OnReload :: "'w callback \<Rightarrow> 'w Manager \<Rightarrow> 'w Manager" where
  "OnReload cb m = m\<lparr>callbacks := callbacks m @ [cb]\<rparr>"

text \<open>The loop over the callbacks: a panic is recovered and the next callback runs.\<close>

definition run_callbacks :: "Config \<Rightarrow> 'w callback list \<Rightarrow> 'w \<Rightarrow> 'w" where
  "run_callbacks cfg cbs w = fold (\<lambda>cb w. fst (cb cfg w)) cbs w"

definition checkAndReload :: "unmarshal \<Rightarrow> fs_answers \<Rightarrow> 'w Manager \<times> 'w \<Rightarrow> 'w Manager \<times> 'w" where
  "checkAndReload unmarshal fs mw =
     (case mw of (m, w) \<Rightarrow>
        (case fs_check fs of
           Inl err \<Rightarrow> (m, w)
         | Inr fi \<Rightarrow>
             if \<not> fi > lastMod m then (m, w)
             else (case loadFile unmarshal fs of
                     Inl err \<Rightarrow> (m, w)
                   | Inr (cfg, modTime) \<Rightarrow>
                       let m = m\<lparr>currentCfg := Some cfg, lastMod := modTime\<rparr>
                       in (m, run_callbacks cfg (callbacks m) w))))"

definition mgr_Stop :: "'w Manager \<Rightarrow> 'w Manager" where
  "mgr_Stop m = m\<lparr>mgr_stopped := True\<rparr>"

text \<open>
  The goroutine of \<open>StartAutoReload\<close>.  \<open>Watching i\<close>: in the inner loop with a ticker of \<open>i\<close> seconds;
  \<open>Recovering\<close>: a panic has been recovered and the goroutine sleeps before it starts the inner function again;
  \<open>Ended\<close>: it has returned.  \<open>NewTicker\<close> and \<open>Reset\<close> panic on a duration that is not positive.
\<close>

datatype watcher = Watching int | Recovering | Ended

definition reload_interval :: "'w Manager \<Rightarrow> int" where
  "reload_interval m = (if ReloadIntervalSec (mgr_Get m) \<le> 0 then 5 else ReloadIntervalSec (mgr_Get m))"

definition start_watch :: "'w Manager \<Rightarrow> watcher" where
  "start_watch m =
     (let currInterval = reload_interval m
      in if dur_seconds currInterval \<le> 0 then Recovering else Watching currInterval)"

text \<open>An event wakes the goroutine: the ticker fires, the stop channel is seen closed, the sleep ends.\<close>

datatype wake_up = Ticker fs_answers | StopChan | SleepOver

fun watch_step :: "unmarshal \<Rightarrow> wake_up \<Rightarrow> watcher \<times> 'w Manager \<times> 'w \<Rightarrow> watcher \<times> 'w Manager \<times> 'w" where
  "watch_step unmarshal (Ticker fs) (Watching currInterval, mw) =
     (let (m, w) = checkAndReload unmarshal fs mw;
          newInterval = reload_interval m
      in (if newInterval \<noteq> currInterval then
            (if dur_seconds newInterval \<le> 0 then Recovering else Watching newInterval)
          else Watching currInterval, m, w))"
| "watch_step unmarshal StopChan (Watching currInterval, m, w) =
     (if mgr_stopped m then (Ended, m, w) else (Watching currInterval, m, w))"
| "watch_step unmarshal SleepOver (Recovering, m, w) = (start_watch m, m, w)"
| "watch_step unmarshal _ s = s"

definition StartAutoReload ::
  "unmarshal \<Rightarrow> wake_up list \<Rightarrow> 'w Manager \<times> 'w \<Rightarrow> watcher \<times> 'w Manager \<times> 'w" where
  "StartAutoReload unmarshal evs mw = fold (watch_step unmarshal) evs (start_watch (fst mw), mw)"

section \<open>Every configuration is normalised\<close>

definition normal :: "Config \<Rightarrow> bool" where
  "normal cfg \<longleftrightarrow> FilterMode cfg \<noteq> '''' \<and> ListenAddr cfg \<noteq> '''' \<and> 0 < ConnectTimeoutSec cfg
     \<and> 0 \<le> IdleTimeoutSec cfg \<and> 0 < ReloadIntervalSec cfg"

lemma normal_default: "normal DefaultConfig"
  by (simp add: normal_def DefaultConfig_def)

lemma normal_normalise: "normal (normalise cfg)"
  by (simp add: normalise_def normal_def Let_def if_distrib [of FilterMode] if_distrib [of ListenAddr]
      if_distrib [of ConnectTimeoutSec] if_distrib [of IdleTimeoutSec] if_distrib [of ReloadIntervalSec])

lemma loadFile_normal: "loadFile unmarshal fs = Inr (cfg, t) \<Longrightarrow> normal cfg"
  by (auto simp: loadFile_def normal_normalise split: sum.splits)

text \<open>
  The history of reloads, without the manager: \<open>accepts unmarshal seen fss\<close> are the configurations a sequence of checks
  accepts when the last accepted file has modification time \<open>seen\<close>.  A check accepts when the file has become
  newer and loads.
\<close>

fun accepts :: "unmarshal \<Rightarrow> int \<Rightarrow> fs_answers list \<Rightarrow> (Config \<times> int) list" where
  "accepts unmarshal seen [] = []"
| "accepts unmarshal seen (fs # fss) =
     (case (fs_check fs, loadFile unmarshal fs) of
        (Inr t, Inr (cfg, seen')) \<Rightarrow>
          if t > seen then (cfg, seen') # accepts unmarshal seen' fss else accepts unmarshal seen fss
      | _ \<Rightarrow> accepts unmarshal seen fss)"

lemma accepts_normal: "list_all (\<lambda>(cfg, _). normal cfg) (accepts unmarshal seen fss)"
  by (induction unmarshal seen fss rule: accepts.induct)
    (auto split: sum.splits dest: loadFile_normal)

definition reloads :: "unmarshal \<Rightarrow> fs_answers list \<Rightarrow> 'w Manager \<times> 'w \<Rightarrow> 'w Manager \<times> 'w" where
  "reloads unmarshal fss mw = fold (checkAndReload unmarshal) fss mw"

lemma reloads_history:
  "reloads unmarshal fss (m, w) =
     (let h = accepts unmarshal (lastMod m) fss
      in (if h = [] then m else m\<lparr>currentCfg := Some (fst (last h)), lastMod := snd (last h)\<rparr>,
          fold (\<lambda>(cfg, _). run_callbacks cfg (callbacks m)) h w))"
proof (induction fss arbitrary: m w)
  case (Cons fs fss)
  show ?case
  proof (cases "\<exists>t cfg seen. fs_check fs = Inr t \<and> lastMod m < t \<and> loadFile unmarshal fs = Inr (cfg, seen)")
    case True
    then obtain t cfg seen where c: "fs_check fs = Inr t" "lastMod m < t" "loadFile unmarshal fs = Inr (cfg, seen)"
      by blast
    let ?m = "m\<lparr>currentCfg := Some cfg, lastMod := seen\<rparr>"
    have "checkAndReload unmarshal fs (m, w) = (?m, run_callbacks cfg (callbacks m) w)"
      using c by (simp add: checkAndReload_def)
    then show ?thesis
      using c Cons.IH [of ?m "run_callbacks cfg (callbacks m) w"] by (simp add: reloads_def Let_def)
  next
    case False
    then have "checkAndReload unmarshal fs (m, w) = (m, w)"
      and "accepts unmarshal (lastMod m) (fs # fss) = accepts unmarshal (lastMod m) fss"
      by (auto simp: checkAndReload_def split: sum.splits)
    then show ?thesis
      using Cons.IH [of m w] by (simp add: reloads_def)
  qed
qed (simp add: reloads_def)

section \<open>The goroutine\<close>

text \<open>The goroutine runs the checks the ticker events trigger; the other events do not touch the manager.\<close>

lemma checkAndReload_normal: "normal (mgr_Get m) \<Longrightarrow> normal (mgr_Get (fst (checkAndReload unmarshal fs (m, w))))"
  by (auto simp: checkAndReload_def mgr_Get_def Let_def split: sum.splits dest: loadFile_normal)

lemma watch_step_normal:
  assumes "normal (mgr_Get (fst (snd s)))"
  shows "normal (mgr_Get (fst (snd (watch_step unmarshal ev s))))"
proof -
  obtain st m w where s: "s = (st, m, w)"
    by (cases s)
  show ?thesis
    using assms checkAndReload_normal [of m unmarshal _ w] unfolding s
    by (cases ev; cases st) (auto simp: Let_def split: prod.splits, metis fst_conv)
qed

lemma watch_step_follows:
  assumes "fst s = Ended \<or> fst s = start_watch (fst (snd s))"
  shows "fst (watch_step unmarshal ev s) = Ended
    \<or> fst (watch_step unmarshal ev s) = start_watch (fst (snd (watch_step unmarshal ev s)))"
proof -
  obtain st m w where s: "s = (st, m, w)"
    by (cases s)
  show ?thesis
    using assms unfolding s
    by (cases ev; cases st) (auto simp: start_watch_def Let_def split: prod.splits if_splits)
qed

lemma watch_fold:
  assumes "normal (mgr_Get (fst (snd s)))" and "fst s = Ended \<or> fst s = start_watch (fst (snd s))"
  shows "normal (mgr_Get (fst (snd (fold (watch_step unmarshal) evs s))))
    \<and> (fst (fold (watch_step unmarshal) evs s) = Ended
       \<or> fst (fold (watch_step unmarshal) evs s) = start_watch (fst (snd (fold (watch_step unmarshal) evs s))))"
  using assms
proof (induction evs arbitrary: s)
  case (Cons ev evs)
  then show ?case
    using Cons.IH [OF watch_step_normal [OF Cons.prems(1)] watch_step_follows [OF Cons.prems(2)]] by simp
qed simp

lemma OnReload_fold: "currentCfg (fold OnReload cbs m) = currentCfg m"
  by (induction cbs arbitrary: m) (auto simp: OnReload_def)

text \<open>
  C37: whatever the configuration file holds, at the start and at any later moment, the configuration the rest of the
  program reads is normalised: a filter mode and a listen address are set, and the timeouts and the reload interval are
  in range.  And the reload goroutine, until it is stopped, ticks at the interval of the current configuration (or
  recovers from the panic of a ticker that cannot have this interval).
\<close>

theorem config_always_normal:
  assumes "NewManager unmarshal fs path = Inr m"
    and "StartAutoReload unmarshal evs (fold OnReload cbs m, w) = (st, m', w')"
  shows "normal (mgr_Get m') \<and> (st = Ended \<or> st = start_watch m')"
proof -
  have "normal (mgr_Get (fold OnReload cbs m))"
    using assms(1) by (auto simp: NewManager_def mgr_Get_def OnReload_fold split: sum.splits dest: loadFile_normal)
  then show ?thesis
    using watch_fold [of "(start_watch (fold OnReload cbs m), fold OnReload cbs m, w)" unmarshal evs] assms(2)
    by (simp add: StartAutoReload_def)
qed

text \<open>A decoder and a file for the examples: the first byte of the file is the connect timeout, an empty file does not parse.\<close>

definition toy_unmarshal :: unmarshal where
  "toy_unmarshal data cfg = (case data of [] \<Rightarrow> Inl ''unexpected end of JSON input''
     | b # _ \<Rightarrow> Inr (cfg\<lparr>ConnectTimeoutSec := uint b, ListenAddr := ''''\<rparr>))"

definition fs_at :: "int \<Rightarrow> byte list \<Rightarrow> fs_answers" where
  "fs_at t data = \<lparr>fs_check = Inr t, fs_stat = Inr t, fs_read = Inr data\<rparr>"

definition mgr_sample :: "unit Manager" where
  "mgr_sample = \<lparr>filePath = ''config.json'', currentCfg = Some DefaultConfig, lastMod = 1, callbacks = [],
     mgr_stopped = False\<rparr>"

lemma mgr_sample_new: "NewManager toy_unmarshal (fs_at 1 [0]) ''config.json'' = Inr mgr_sample"
  by (simp add: NewManager_def loadFile_def fs_at_def toy_unmarshal_def mgr_sample_def normalise_def DefaultConfig_def)

theorem config_always_normal_witness:
  "normal (mgr_Get (fst (snd (StartAutoReload toy_unmarshal [Ticker (fs_at 2 [7]), Ticker (fs_at 3 [])] (mgr_sample, ())))))
   \<and> ConnectTimeoutSec (mgr_Get (fst (snd (StartAutoReload toy_unmarshal [Ticker (fs_at 2 [7]), Ticker (fs_at 3 [])]
        (mgr_sample, ()))))) = 7"
proof -
  let ?r = "StartAutoReload toy_unmarshal [Ticker (fs_at 2 [7]), Ticker (fs_at 3 [])] (fold OnReload [] mgr_sample, ())"
  have "?r = (fst ?r, fst (snd ?r), snd (snd ?r))"
    by (simp only: prod.collapse)
  from config_always_normal [OF mgr_sample_new this] show ?thesis
    by simp code_simp
qed

text \<open>
  C38: refinement of the reload history.  Any sequence of checks leaves the manager with the last configuration of
  the abstract history, or unchanged when the history accepts none, in particular when the file cannot be read or
  decoded; and every registered callback has run once for each accepted configuration, in the order of registration
  within a reload and in the order of the reloads, even when callbacks panic.
\<close>

theorem reload_refines_history:
  "reloads unmarshal fss (m, w) =
     (let h = accepts unmarshal (lastMod m) fss
      in (if h = [] then m else m\<lparr>currentCfg := Some (fst (last h)), lastMod := snd (last h)\<rparr>,
          fold (\<lambda>(cfg, _) w. fold (\<lambda>cb w. fst (cb cfg w)) (callbacks m) w) h w))"
  using reloads_history [of unmarshal fss m w] by (simp add: run_callbacks_def [abs_def] Let_def)

text \<open>
  An interval of more than 9223372036 seconds overflows \<open>time.Duration\<close>; where the product is not positive the
  goroutine panics in \<open>NewTicker\<close>, recovers, and panics again, for ever: no event makes it check the file again or
  see the closed stop channel.
\<close>

theorem reload_interval_overflow_stuck:
  assumes "ReloadIntervalSec (mgr_Get m) = 10000000000"
  shows "StartAutoReload unmarshal evs (m, w) = (Recovering, m, w)"
proof -
  have start: "start_watch m = Recovering"
    using assms by (simp add: start_watch_def reload_interval_def dur_seconds_def int64_def second_def)
  then have "watch_step unmarshal ev (Recovering, m, w) = (Recovering, m, w)" for ev
    by (cases ev) auto
  then have "fold (watch_step unmarshal) evs (Recovering, m, w) = (Recovering, m, w)"
    by (induction evs) auto
  then show ?thesis
    by (simp add: StartAutoReload_def start)
qed

theorem reload_interval_overflow_stuck_witness:
  "StartAutoReload toy_unmarshal [Ticker (fs_at 2 [7]), SleepOver]
     (mgr_sample\<lparr>currentCfg := Some (DefaultConfig\<lparr>ReloadIntervalSec := 10000000000\<rparr>)\<rparr>, ())
   = (Recovering, mgr_sample\<lparr>currentCfg := Some (DefaultConfig\<lparr>ReloadIntervalSec := 10000000000\<rparr>)\<rparr>, ())"
  by (rule reload_interval_overflow_stuck) (simp add: mgr_Get_def)

end
