(* ===== verification/HostFilter.thy ===== *)
theory HostFilter
  imports GoNet
begin

text \<open>
  The allow/block lists, \<open>internal/filter/engine.go\<close>: \<open>UpdateRules\<close> compiles the configured
  domains and addresses into hash sets, suffix roots, patterns and networks, and \<open>ShouldBlock\<close>
  evaluates a destination against them in the active mode.

  The reference is \<open>rule_matches\<close>, what a configured line means for a host name, with \<open>glob\<close> for
  patterns, and \<open>addr_matches\<close> for addresses.  The lemmas show that the compiled structures
  decide exactly the reference, and what each mode makes of it.
\<close>

section \<open>Wildcards\<close>

text \<open>\<open>for len(pattern) > 1 && pattern[1] == '*'\<close>\<close>

fun collapse :: "string \<Rightarrow> string" where
  "collapse (c # d # r) = (if d = CHR ''*'' then collapse (d # r) else c # d # r)"
| "collapse r = r"

lemma length_collapse: "length (collapse p) \<le> length p"
  by (induction p rule: collapse.induct) auto

text \<open>
  \<open>matchWildcard\<close> and its loop, in which \<open>?\<close> and a literal consume one character and \<open>*\<close> tries
  every suffix by a recursive call.
\<close>

function matchWildcard :: "string \<Rightarrow> string \<Rightarrow> bool" and wild_loop :: "string \<Rightarrow> string \<Rightarrow> bool" where
  "matchWildcard pattern s =
     (if pattern = '''' then s = ''''
      else if pattern = ''*'' then True
      else wild_loop pattern s)"
| "wild_loop pattern s =
     (if pattern = [] then length s = 0
      else if pattern ! 0 = CHR ''*'' then
        (let pattern' = collapse pattern
         in if length pattern' = 1 then True
            else list_ex (\<lambda>i. matchWildcard (drop 1 pattern') (drop i s)) [0..<length s + 1])
      else if pattern ! 0 = CHR ''?'' then
        (if length s = 0 then False else wild_loop (drop 1 pattern) (drop 1 s))
      else
        (if length s = 0 \<or> pattern ! 0 \<noteq> s ! 0 then False
         else wild_loop (drop 1 pattern) (drop 1 s)))"
  by pat_completeness auto
termination
proof (relation "measure (\<lambda>x. case x of Inl (p, _) \<Rightarrow> 2 * length p + 1 | Inr (p, _) \<Rightarrow> 2 * length p)", goal_cases)
  case (3 pattern s pattern' i)
  then show ?case
    using length_collapse [of pattern] by (cases pattern) auto
qed auto

declare matchWildcard.simps [simp del] wild_loop.simps [simp del]

section \<open>Rules\<close>

record RuleSet =
  rs_mode :: string
  exactDomains :: "string set"
  suffixRoots :: "string set"
  wildcardPatterns :: "string list"
  rs_ips :: "string set"
  rs_cidrs :: "IPNet list"

record FilterEngine =
  fe_rules :: "RuleSet option"

text \<open>The bodies of the two loops of \<open>UpdateRules\<close>.\<close>

definition add_domain :: "unicode \<Rightarrow> string \<Rightarrow> RuleSet \<Rightarrow> RuleSet" where
  "add_domain U d rs =
     (let d = ToLower U (TrimSpace U d)
      in if d = '''' then rs
         else if HasPrefix d ''*.'' then
           (let root = drop 2 d
            in rs\<lparr>exactDomains := insert root (exactDomains rs),
                  suffixRoots := insert root (suffixRoots rs)\<rparr>)
         else if Contains d ''*'' then rs\<lparr>wildcardPatterns := wildcardPatterns rs @ [d]\<rparr>
         else rs\<lparr>exactDomains := insert d (exactDomains rs),
                 suffixRoots := insert d (suffixRoots rs)\<rparr>)"

definition strip_brackets :: "string \<Rightarrow> string" where
  "strip_brackets s =
     (if HasPrefix s ''['' \<and> HasSuffix s '']'' then take (length s - 1 - 1) (drop 1 s) else s)"

definition add_ip :: "unicode \<Rightarrow> string \<Rightarrow> RuleSet \<Rightarrow> RuleSet" where
  "add_ip U ipStr rs =
     (let ipStr = TrimSpace U ipStr
      in if ipStr = '''' then rs
         else let ipStr = strip_brackets ipStr
              in if Contains ipStr ''/'' then
                   (case ParseCIDR ipStr of
                      Some ipNet \<Rightarrow> rs\<lparr>rs_cidrs := rs_cidrs rs @ [ipNet]\<rparr>
                    | None \<Rightarrow> rs)
                 else
                   (case ParseIP ipStr of
                      Some parsedIP \<Rightarrow> rs\<lparr>rs_ips := insert (IP_String parsedIP) (rs_ips rs)\<rparr>
                    | None \<Rightarrow> rs))"

definition UpdateRules ::
  "unicode \<Rightarrow> string \<Rightarrow> string list \<Rightarrow> string list \<Rightarrow> FilterEngine \<Rightarrow> FilterEngine" where
  "UpdateRules U mode domains ips e =
     (let mode = (if mode = '''' then ''whitelist'' else mode);
          rs = \<lparr>rs_mode = ToLower U mode, exactDomains = {}, suffixRoots = {}, wildcardPatterns = [],
                rs_ips = {}, rs_cidrs = []\<rparr>;
          rs = fold (add_domain U) domains rs;
          rs = fold (add_ip U) ips rs
      in e\<lparr>fe_rules := Some rs\<rparr>)"

definition NewFilterEngine :: "unicode \<Rightarrow> string \<Rightarrow> string list \<Rightarrow> string list \<Rightarrow> FilterEngine" where
  "NewFilterEngine U mode domains ips = UpdateRules U mode domains ips \<lparr>fe_rules = None\<rparr>"

section \<open>Evaluation\<close>

text \<open>The host of a destination: the port and enclosing brackets removed.\<close>

definition host_part :: "string \<Rightarrow> string" where
  "host_part hostOrIP =
     (let h = (if IndexByte hostOrIP CHR '':'' \<noteq> None then
                 (case SplitHostPort hostOrIP of Some (host, _) \<Rightarrow> host | None \<Rightarrow> hostOrIP)
               else hostOrIP)
      in if length h \<ge> 2 \<and> h ! 0 = CHR ''['' \<and> h ! (length h - 1) = CHR '']''
         then take (length h - 1 - 1) (drop 1 h) else h)"

definition match_domain :: "RuleSet \<Rightarrow> string \<Rightarrow> bool" where
  "match_domain rs domain =
     (if domain \<in> exactDomains rs then True
      else if list_ex (\<lambda>i. domain ! i = CHR ''.'' \<and> drop (i + 1) domain \<in> suffixRoots rs) [0..<length domain]
      then True
      else list_ex (\<lambda>pattern. matchWildcard pattern domain) (wildcardPatterns rs))"

definition match_rules :: "unicode \<Rightarrow> RuleSet \<Rightarrow> string \<Rightarrow> bool" where
  "match_rules U rs hostOrIP =
     (let h = host_part hostOrIP
      in case ParseIP h of
           Some parsedIP \<Rightarrow>
             if IP_String parsedIP \<in> rs_ips rs then True
             else list_ex (\<lambda>cidr. IPNet_Contains cidr parsedIP) (rs_cidrs rs)
         | None \<Rightarrow> match_domain rs (ToLower U (TrimSuffix h ''.'')))"

definition ShouldBlock :: "unicode \<Rightarrow> FilterEngine \<Rightarrow> string \<Rightarrow> bool" where
  "ShouldBlock U e hostOrIP =
     (if hostOrIP = '''' then True
      else case fe_rules e of
        None \<Rightarrow> False
      | Some rs \<Rightarrow>
          if rs_mode rs \<in> {''none'', ''off'', ''disabled'', ''all'', ''passthrough''} then False
          else if rs_mode rs = ''blacklist'' then match_rules U rs hostOrIP
          else \<not> match_rules U rs hostOrIP)"

section \<open>Patterns mean globs\<close>

primrec glob :: "string \<Rightarrow> string \<Rightarrow> bool" where
  "glob [] s = (s = [])"
| "glob (c # p) s =
     (if c = CHR ''*'' then \<exists>a b. s = a @ b \<and> glob p b
      else if c = CHR ''?'' then \<exists>x b. s = x # b \<and> glob p b
      else \<exists>b. s = c # b \<and> glob p b)"

lemma glob_star_star: "glob (CHR ''*'' # CHR ''*'' # p) s = glob (CHR ''*'' # p) s"
  by (auto simp: append_assoc [symmetric] simp del: append_assoc) (metis append_Nil)

lemma glob_collapse: "p \<noteq> [] \<Longrightarrow> p ! 0 = CHR ''*'' \<Longrightarrow> glob (collapse p) s = glob p s"
proof (induction p rule: collapse.induct)
  case (1 c d r)
  then show ?case
    by (cases "d = CHR ''*''") (simp_all add: glob_star_star del: glob.simps)
qed simp_all

lemma collapse_star: "p \<noteq> [] \<Longrightarrow> p ! 0 = CHR ''*'' \<Longrightarrow> \<exists>r. collapse p = CHR ''*'' # r"
  by (induction p rule: collapse.induct) auto

lemma glob_star_drop: "glob (CHR ''*'' # p) s \<longleftrightarrow> (\<exists>i \<le> length s. glob p (drop i s))"
proof
  assume "glob (CHR ''*'' # p) s"
  then obtain a b where "s = a @ b" "glob p b"
    by auto
  then show "\<exists>i \<le> length s. glob p (drop i s)"
    by (intro exI [of _ "length a"]) simp
next
  assume "\<exists>i \<le> length s. glob p (drop i s)"
  then obtain i where "glob p (drop i s)"
    by blast
  moreover have "s = take i s @ drop i s"
    by simp
  ultimately show "glob (CHR ''*'' # p) s"
    by (auto simp del: append_take_drop_id)
qed

lemma matchWildcard_glob_both:
  "matchWildcard p s = glob p s" "wild_loop p s = glob p s"
proof (induction p s rule: matchWildcard_wild_loop.induct)
  case (1 pattern s)
  then show ?case
    by (subst matchWildcard.simps) auto
next
  case (2 pattern s)
  show ?case
  proof (cases pattern)
    case Nil
    then show ?thesis
      by (subst wild_loop.simps) simp
  next
    case (Cons c p)
    show ?thesis
    proof (cases "c = CHR ''*''")
      case True
      then obtain r where r: "collapse pattern = CHR ''*'' # r"
        using collapse_star [of pattern] Cons by auto
      have "glob pattern s = glob (CHR ''*'' # r) s"
        using glob_collapse [of pattern s] r Cons True by simp
      also have "\<dots> = (if r = [] then True else \<exists>i \<le> length s. glob r (drop i s))"
        using glob_star_drop [of r s] by auto
      also have "\<dots> = wild_loop pattern s"
        using 2(1) Cons True r
        by (subst wild_loop.simps) (auto simp: list_ex_iff less_Suc_eq_le simp del: upt_Suc)
      finally show ?thesis ..
    next
      case False
      with Cons 2 show ?thesis
        by (subst wild_loop.simps) (cases s, auto)
    qed
  qed
qed

text \<open>
  The recursive wildcard matcher of the filter decides exactly the declarative meaning of a
  pattern, for every pattern and every string: \<open>*\<close> stands for any run of characters, \<open>?\<close> for one
  character, anything else for itself.
\<close>

theorem matchWildcard_glob: "matchWildcard pattern s \<longleftrightarrow> glob pattern s"
  by (rule matchWildcard_glob_both)

section \<open>The compiled rules decide the configured rules\<close>

text \<open>What a line of the domain list means for a host name, and a line of the address list for an address.\<close>

definition rule_matches :: "unicode \<Rightarrow> string \<Rightarrow> string \<Rightarrow> bool" where
  "rule_matches U line domain =
     (let d = ToLower U (TrimSpace U line);
          below = (\<lambda>root. domain = root \<or> (\<exists>sub. domain = sub @ ''.'' @ root))
      in d \<noteq> ''''
         \<and> (if HasPrefix d ''*.'' then below (drop 2 d)
            else if CHR ''*'' \<in> set d then glob d domain
            else below d))"

definition addr_matches :: "unicode \<Rightarrow> string \<Rightarrow> netIP \<Rightarrow> bool" where
  "addr_matches U line ip =
     (let s = strip_brackets (TrimSpace U line)
      in TrimSpace U line \<noteq> ''''
         \<and> (if Contains s ''/'' then (case ParseCIDR s of Some n \<Rightarrow> IPNet_Contains n ip | None \<Rightarrow> False)
            else (case ParseIP s of Some q \<Rightarrow> IP_String q = IP_String ip | None \<Rightarrow> False)))"

lemma Contains_char: "Contains s [c] \<longleftrightarrow> c \<in> set s"
proof (induction s)
  case (Cons x s)
  then show ?case
    by (auto simp: Contains_def Index.simps [of "x # s"])
qed (simp add: Contains_def Index.simps)

lemma suffix_lookup:
  "list_ex (\<lambda>i. dn ! i = CHR ''.'' \<and> drop (i + 1) dn \<in> S) [0..<length dn]
   \<longleftrightarrow> (\<exists>r \<in> S. \<exists>sub. dn = sub @ ''.'' @ r)"
proof
  assume "list_ex (\<lambda>i. dn ! i = CHR ''.'' \<and> drop (i + 1) dn \<in> S) [0..<length dn]"
  then obtain i where i: "i < length dn" "dn ! i = CHR ''.''" "drop (i + 1) dn \<in> S"
    by (auto simp: list_ex_iff)
  then have "dn = take i dn @ ''.'' @ drop (i + 1) dn"
    using id_take_nth_drop [of i dn] by simp
  with i(3) show "\<exists>r \<in> S. \<exists>sub. dn = sub @ ''.'' @ r"
    by blast
next
  assume "\<exists>r \<in> S. \<exists>sub. dn = sub @ ''.'' @ r"
  then obtain r sub where "r \<in> S" "dn = sub @ ''.'' @ r"
    by blast
  then show "list_ex (\<lambda>i. dn ! i = CHR ''.'' \<and> drop (i + 1) dn \<in> S) [0..<length dn]"
    by (auto simp: list_ex_iff intro!: bexI [of _ "length sub"])
qed

lemma match_domain_iff:
  "match_domain rs dn \<longleftrightarrow> dn \<in> exactDomains rs \<or> (\<exists>r \<in> suffixRoots rs. \<exists>sub. dn = sub @ ''.'' @ r)
     \<or> (\<exists>p \<in> set (wildcardPatterns rs). glob p dn)"
  unfolding match_domain_def suffix_lookup by (auto simp: list_ex_iff matchWildcard_glob_both(1))

lemma match_add_domain:
  "match_domain (add_domain U d rs) dn \<longleftrightarrow> match_domain rs dn \<or> rule_matches U d dn"
  by (auto simp: match_domain_iff add_domain_def rule_matches_def Contains_char Let_def)

lemma add_ip_domain [simp]: "match_domain (add_ip U s rs) dn = match_domain rs dn" "rs_mode (add_ip U s rs) = rs_mode rs"
  by (auto simp: match_domain_iff add_ip_def Let_def split: option.splits)

lemma add_domain_ip [simp]: "rs_ips (add_domain U d rs) = rs_ips rs" "rs_cidrs (add_domain U d rs) = rs_cidrs rs"
  "rs_mode (add_domain U d rs) = rs_mode rs"
  by (auto simp: add_domain_def Let_def)

definition match_addr :: "RuleSet \<Rightarrow> netIP \<Rightarrow> bool" where
  "match_addr rs ip \<longleftrightarrow> IP_String ip \<in> rs_ips rs \<or> (\<exists>n \<in> set (rs_cidrs rs). IPNet_Contains n ip)"

lemma match_add_ip: "match_addr (add_ip U s rs) ip \<longleftrightarrow> match_addr rs ip \<or> addr_matches U s ip"
  by (auto simp: match_addr_def add_ip_def addr_matches_def Let_def split: option.splits)

lemma fold_add_domain:
  "match_domain (fold (add_domain U) ds rs) dn \<longleftrightarrow> match_domain rs dn \<or> (\<exists>d \<in> set ds. rule_matches U d dn)"
  "rs_ips (fold (add_domain U) ds rs) = rs_ips rs" "rs_cidrs (fold (add_domain U) ds rs) = rs_cidrs rs"
  "rs_mode (fold (add_domain U) ds rs) = rs_mode rs"
  by (induction ds arbitrary: rs) (auto simp: match_add_domain)

lemma fold_add_ip:
  "match_addr (fold (add_ip U) ips rs) ip \<longleftrightarrow> match_addr rs ip \<or> (\<exists>s \<in> set ips. addr_matches U s ip)"
  "match_domain (fold (add_ip U) ips rs) dn = match_domain rs dn"
  "rs_mode (fold (add_ip U) ips rs) = rs_mode rs"
  by (induction ips arbitrary: rs) (auto simp: match_add_ip)

text \<open>What the configured lists say of a destination.\<close>

definition listed :: "unicode \<Rightarrow> string list \<Rightarrow> string list \<Rightarrow> string \<Rightarrow> bool" where
  "listed U domains ips host =
     (case ParseIP (host_part host) of
        Some ip \<Rightarrow> \<exists>s \<in> set ips. addr_matches U s ip
      | None \<Rightarrow> \<exists>d \<in> set domains. rule_matches U d (ToLower U (TrimSuffix (host_part host) ''.'')))"

lemma match_rules_listed:
  assumes "fe_rules (UpdateRules U mode domains ips e) = Some rs"
  shows "match_rules U rs host \<longleftrightarrow> listed U domains ips host"
    and "rs_mode rs = ToLower U (if mode = '''' then ''whitelist'' else mode)"
proof -
  define rs0 where "rs0 = \<lparr>rs_mode = ToLower U (if mode = '''' then ''whitelist'' else mode), exactDomains = {},
    suffixRoots = {}, wildcardPatterns = [], rs_ips = {}, rs_cidrs = []\<rparr>"
  have rs: "rs = fold (add_ip U) ips (fold (add_domain U) domains rs0)"
    using assms by (simp add: UpdateRules_def rs0_def)
  have "match_rules U rs host = (case ParseIP (host_part host) of
      Some ip \<Rightarrow> match_addr rs ip | None \<Rightarrow> match_domain rs (ToLower U (TrimSuffix (host_part host) ''.'')))"
    by (auto simp: match_rules_def match_addr_def list_ex_iff Let_def split: option.splits)
  moreover have "\<not> match_domain rs0 dn" for dn
    by (simp add: rs0_def match_domain_iff)
  moreover have "\<not> match_addr (fold (add_domain U) domains rs0) ip" for ip
    by (simp add: match_addr_def fold_add_domain) (simp add: rs0_def)
  ultimately show "match_rules U rs host \<longleftrightarrow> listed U domains ips host"
    by (auto simp: listed_def rs fold_add_ip fold_add_domain split: option.splits)
  show "rs_mode rs = ToLower U (if mode = '''' then ''whitelist'' else mode)"
    by (simp add: rs fold_add_ip fold_add_domain) (simp add: rs0_def)
qed

text \<open>
  C14: after \<open>UpdateRules\<close>, whatever the engine held before, \<open>ShouldBlock\<close> blocks an empty
  destination; in the pass-through modes nothing else; in blacklist mode exactly the listed
  destinations; in every other mode exactly the unlisted ones.  A host name is listed when it is a
  configured domain or lies below one, or matches a pattern; an address when it equals a configured one
  or lies in a configured network.
\<close>

theorem ShouldBlock_correct:
  "ShouldBlock U (UpdateRules U mode domains ips e) host =
     (let m = ToLower U (if mode = '''' then ''whitelist'' else mode)
      in if host = '''' then True
         else if m \<in> {''none'', ''off'', ''disabled'', ''all'', ''passthrough''} then False
         else if m = ''blacklist'' then listed U domains ips host
         else \<not> listed U domains ips host)"
proof -
  obtain rs where rs: "fe_rules (UpdateRules U mode domains ips e) = Some rs"
    by (simp add: UpdateRules_def)
  show ?thesis
    unfolding ShouldBlock_def rs option.case match_rules_listed [OF rs] by (simp add: Let_def)
qed

end
