(* ===== verification/DnsEngine.thy ===== *)
theory DnsEngine
  imports DnsProbe DnsCoalesce ConfigManager HostFilter
begin

text \<open>
  The DNS interception engine, \<open>internal/dns/engine.go\<close>, over the parser, the cache, the table of servers and the
  coalescing group, and the DNS-over-HTTPS client, \<open>internal/dns/doh_client.go\<close>.  The HTTP exchange of the
  client is the parameter \<open>http\<close>.  The configuration is an argument of each call (\<open>e.cfgMgr.Get()\<close>), the
  filter is the interface \<open>FilterEvaluator\<close>: a function, or \<open>None\<close> for \<open>nil\<close>.

  The lemmas show that a query is always answered or passed through and never makes the engine panic, that a
  blocked name is answered without any upstream traffic, and that an answer obtained once serves the
  repetitions of the question for its lifetime.
\<close>

section \<open>The client\<close>

record DoHClient =
  doh_timeout :: int

definition clamp_timeout :: "int \<Rightarrow> int" where
  "clamp_timeout timeout = (if timeout \<le> 0 then 3 * second else timeout)"

definition NewDoHClient :: "int \<Rightarrow> DoHClient" where
  "NewDoHClient timeout = \<lparr>doh_timeout = clamp_timeout timeout\<rparr>"

definition SetTimeout :: "int \<Rightarrow> DoHClient \<Rightarrow> DoHClient" where
  "SetTimeout timeout c = c\<lparr>doh_timeout := clamp_timeout timeout\<rparr>"

text \<open>
  \<open>http url body\<close>: what the POST gives, an error of \<open>NewRequestWithContext\<close> or of \<open>client.Do\<close>, or the status and
  what reading the body gives.
\<close>

datatype post_result =
  RequestError string
| DoError string
| Response nat "string + byte list"

type_synonym http_post = "string \<Rightarrow> byte list \<Rightarrow> post_result"

definition QueryDoH :: "http_post \<Rightarrow> netIP \<Rightarrow> byte list \<Rightarrow> string + byte list" where
  "QueryDoH http dstIP queryWire =
     (let dohURL = BuildDoHURL dstIP
      in case http dohURL queryWire of
           RequestError err \<Rightarrow> Inl (''failed to create DoH request for '' @ dohURL @ '': '' @ err)
         | DoError err \<Rightarrow> Inl (''DoH query to '' @ dohURL @ '' failed: '' @ err)
         | Response status body \<Rightarrow>
             if status \<noteq> 200 then
               Inl (''DoH server '' @ dohURL @ '' returned HTTP status '' @ Itoa status @ '': ''
                 @ (case body of Inl _ \<Rightarrow> '''' | Inr b \<Rightarrow> str (take 512 b)))
             else
               (case body of
                  Inl err \<Rightarrow> Inl (''failed to read DoH response from '' @ dohURL @ '': '' @ err)
                | Inr b \<Rightarrow>
                    let respBytes = take 65535 b
                    in if length respBytes < 12 then
                         Inl (''DoH response from '' @ dohURL @ '' too short ('' @ Itoa (length respBytes) @ '' bytes)'')
                       else Inr respBytes))"

section \<open>The engine\<close>

record Engine =
  eng_client :: DoHClient
  eng_probe :: ProbeManager
  eng_cache :: "Cache option"

definition NewEngine :: "Config \<Rightarrow> int \<Rightarrow> Engine" where
  "NewEngine cfg now =
     (let dohTimeout = dur_seconds (DohTimeoutSec cfg);
          dohTimeout = (if dohTimeout \<le> 0 then 3 * second else dohTimeout)
      in \<lparr>eng_client = NewDoHClient dohTimeout, eng_probe = NewProbeManager now (1 * hour),
          eng_cache = (if DNSCacheEnabled cfg then Some (NewCache (dur_seconds (DNSCacheTTLSec cfg))) else None)\<rparr>)"

text \<open>The server a query is taken to, \<open>nil\<close> being the empty address.\<close>

definition target_ip :: "Config \<Rightarrow> netIP \<Rightarrow> netIP" where
  "target_ip cfg dstIP =
     (if dstIP = [] \<or> IsLoopback dstIP \<or> IsUnspecified dstIP \<or> (IsPrivate dstIP \<and> \<not> IsCustomDNS cfg) then
        (if dstIP \<noteq> [] \<and> To4 dstIP = None \<and> length dstIP = 16
         then (case ParseIP ''2606:4700:4700::1112'' of Some ip \<Rightarrow> ip | None \<Rightarrow> [])
         else IPv4 1 1 1 2)
      else dstIP)"

text \<open>
  The surroundings of one call: the clock at the moments it is read, and, for the coalescing group, the result of a
  call for the same key that is in flight, if there is one.  Without one the caller leads and runs its own query.
\<close>

record surroundings =
  at_lookup :: int
  at_check :: int
  at_locked :: int
  at_probed :: int
  at_store :: int
  in_flight :: "(string + byte list) option"

definition coalesced :: "surroundings \<Rightarrow> (string + byte list) \<Rightarrow> (string + byte list) \<times> bool" where
  "coalesced env own = (case in_flight env of None \<Rightarrow> (own, False) | Some r \<Rightarrow> (r, True))"

definition RCodeNXDomain :: uint8 where
  "RCodeNXDomain = 3"

definition RCodeServFail :: uint8 where
  "RCodeServFail = 2"

text \<open>Step 6 and what follows it: the query over HTTPS, the store of a leader's answer, the reply.\<close>

definition query_upstream ::
  "unicode \<Rightarrow> Config \<Rightarrow> doh_query \<Rightarrow> surroundings \<Rightarrow> Engine \<Rightarrow> netIP \<Rightarrow> Question \<Rightarrow> byte list
    \<Rightarrow> (Engine \<times> byte list option \<times> bool) option" where
  "query_upstream U cfg query env e targetIP q payload =
     (let (doh, shared) = coalesced env (query targetIP payload)
      in case doh of
           Inl dohErr \<Rightarrow>
             if FallbackToUDP cfg then Some (e, None, True)
             else do {
               resp \<leftarrow> BuildErrorResponse U payload RCodeServFail;
               Some (e, Some resp, False)
             }
         | Inr dohResp \<Rightarrow> do {
             e \<leftarrow> (case eng_cache e of
                     Some c \<Rightarrow>
                       if \<not> shared \<and> DNSCacheEnabled cfg then do {
                         c \<leftarrow> cache_Set U c (at_store env) targetIP (q_Name q) (q_Type q) dohResp;
                         Some (e\<lparr>eng_cache := Some c\<rparr>)
                       } else Some e
                   | None \<Rightarrow> Some e);
             clientResp \<leftarrow> (if length dohResp \<ge> 2 then do {
                 b0 \<leftarrow> go_index payload 0;
                 r \<leftarrow> go_set dohResp 0 b0;
                 b1 \<leftarrow> go_index payload 1;
                 go_set r 1 b1
               } else Some dohResp);
             Some (e, Some clientResp, False)
           })"

text \<open>Step 3: the look into the cache.\<close>

definition cached_answer ::
  "Config \<Rightarrow> surroundings \<Rightarrow> Engine \<Rightarrow> netIP \<Rightarrow> Question \<Rightarrow> uint16 \<Rightarrow> (Engine \<times> byte list option) option" where
  "cached_answer cfg env e targetIP q reqID =
     (case eng_cache e of
        Some c \<Rightarrow>
          if DNSCacheEnabled cfg then do {
            (c, hit) \<leftarrow> cache_Get c (at_lookup env) targetIP (q_Name q) (q_Type q) reqID;
            Some (e\<lparr>eng_cache := Some c\<rparr>, hit)
          } else Some (e, None)
      | None \<Rightarrow> Some (e, None))"

definition ProcessDNSQuery ::
  "unicode \<Rightarrow> Config \<Rightarrow> (string \<Rightarrow> bool) option \<Rightarrow> doh_query \<Rightarrow> surroundings \<Rightarrow> Engine \<Rightarrow> netIP \<Rightarrow> byte list
    \<Rightarrow> (Engine \<times> byte list option \<times> bool) option" where
  "ProcessDNSQuery U cfg filterEng query env e dstIP payload =
     (if \<not> DohEnabled cfg then Some (e, None, True)
      else do {
        parsed \<leftarrow> ParseQuery U payload;
        case parsed of
          Inl err \<Rightarrow> Some (e, None, True)
        | Inr msg \<Rightarrow>
            (case msg_Questions msg of
               [] \<Rightarrow> Some (e, None, True)
             | q # _ \<Rightarrow> do {
                 let targetIP = target_ip cfg dstIP;
                 if (case filterEng of Some blocks \<Rightarrow> blocks (q_Name q) | None \<Rightarrow> False) then do {
                   resp \<leftarrow> BuildErrorResponse U payload RCodeNXDomain;
                   Some (e, Some resp, False)
                 } else do {
                   (e, hit) \<leftarrow> cached_answer cfg env e targetIP q (dh_ID (msg_Header msg));
                   case hit of
                     Some cachedResp \<Rightarrow> Some (e, Some cachedResp, False)
                   | None \<Rightarrow> do {
                       let (pm, isDoHCapable) =
                         CheckOrProbe (eng_probe e) query (at_check env) (at_locked env) (at_probed env) targetIP;
                       let e = e\<lparr>eng_probe := pm\<rparr>;
                       if \<not> isDoHCapable then Some (e, None, True)
                       else query_upstream U cfg query env e targetIP q payload
                     }
                 }
               })
      })"

definition UpdateConfig :: "Config option \<Rightarrow> Engine \<Rightarrow> Engine" where
  "UpdateConfig newCfg e =
     (case newCfg of
        None \<Rightarrow> e
      | Some cfg \<Rightarrow>
          let dohTimeout = dur_seconds (DohTimeoutSec cfg);
              dohTimeout = (if dohTimeout \<le> 0 then 3 * second else dohTimeout);
              e = e\<lparr>eng_client := SetTimeout dohTimeout (eng_client e)\<rparr>;
              ttl = dur_seconds (DNSCacheTTLSec cfg)
          in case eng_cache e of
               Some c \<Rightarrow>
                 if \<not> DNSCacheEnabled cfg then e\<lparr>eng_cache := Some (cache_Purge c)\<rparr>
                 else e\<lparr>eng_cache := Some (cache_SetMaxTTL c ttl)\<rparr>
             | None \<Rightarrow>
                 if DNSCacheEnabled cfg then e\<lparr>eng_cache := Some (NewCache ttl)\<rparr> else e)"

section \<open>Invariant\<close>

definition engine_inv :: "Engine \<Rightarrow> bool" where
  "engine_inv e \<longleftrightarrow> 0 < doh_timeout (eng_client e) \<and> (case eng_cache e of Some c \<Rightarrow> cache_inv c | None \<Rightarrow> True)"

lemma clamp_timeout_pos: "0 < clamp_timeout t"
  by (simp add: clamp_timeout_def second_def)

lemma NewEngine_inv: "engine_inv (NewEngine cfg now)"
  by (simp add: engine_inv_def NewEngine_def NewDoHClient_def clamp_timeout_pos NewCache_facts Let_def)

lemma UpdateConfig_inv: "engine_inv e \<Longrightarrow> engine_inv (UpdateConfig cfg e)"
  by (auto simp: engine_inv_def UpdateConfig_def SetTimeout_def clamp_timeout_pos NewCache_facts Let_def
      cache_inv_def cache_Purge_def cache_SetMaxTTL_def NewCache_def split: option.splits)

text \<open>The parts of a call, on an engine with the invariant.\<close>

definition answer_ok :: "byte list \<Rightarrow> byte list option \<Rightarrow> bool \<Rightarrow> bool" where
  "answer_ok payload resp passthrough \<longleftrightarrow>
     (case resp of None \<Rightarrow> passthrough
      | Some r \<Rightarrow> \<not> passthrough \<and> 12 \<le> length r \<and> take 2 r = take 2 payload)"

definition flight_ok :: "surroundings \<Rightarrow> bool" where
  "flight_ok env \<longleftrightarrow> (case in_flight env of Some (Inr r) \<Rightarrow> 12 \<le> length r | _ \<Rightarrow> True)"

lemma QueryDoH_length: "QueryDoH http ip q = Inr r \<Longrightarrow> 12 \<le> length r"
  by (auto simp: QueryDoH_def Let_def split: post_result.splits sum.splits if_splits)

lemma error_response_answer:
  assumes "ParseQuery U payload = Some (Inr msg)" "msg_Questions msg \<noteq> []"
  shows "\<exists>r. BuildErrorResponse U payload rcode = Some r \<and> answer_ok payload (Some r) False"
proof -
  have "12 \<le> length payload"
    using assms(1) by (auto simp: ParseQuery_def split: if_split_asm)
  then have "take 2 payload = [payload ! 0, payload ! 1]"
    by (simp add: take_two)
  with error_response [OF assms, of rcode] show ?thesis
    by (auto simp: answer_ok_def numeral_eq_Suc)
qed

lemma parsed_ident:
  assumes "ParseQuery U payload = Some (Inr msg)"
  shows "12 \<le> length payload \<and> take 2 payload = [hi8 (dh_ID (msg_Header msg)), lo8 (dh_ID (msg_Header msg))]"
proof -
  have "12 \<le> length payload" and "dh_ID (msg_Header msg) = be16 (payload ! 0) (payload ! 1)"
    using assms by (auto simp: ParseQuery_def go_simps elim!: bind_SomeE split: if_split_asm sum.split_asm)
  moreover from this have "take 2 payload = [payload ! 0, payload ! 1]"
    by (simp add: take_two)
  ultimately show ?thesis
    by simp
qed

lemma cached_answer_ok:
  assumes "engine_inv e" and "take 2 payload = [hi8 reqID, lo8 reqID]"
  shows "\<exists>e' hit. cached_answer cfg env e ip q reqID = Some (e', hit) \<and> engine_inv e'
    \<and> (hit \<noteq> None \<longrightarrow> answer_ok payload hit False)"
proof (cases "eng_cache e")
  case (Some c)
  then have inv: "cache_inv c"
    using assms(1) by (simp add: engine_inv_def)
  let ?k = "makeCacheKey ip (q_Name q) (q_Type q)"
  have get: "cache_Get c (at_lookup env) ip (q_Name q) (q_Type q) reqID
      = Some (look_key c (at_lookup env) ?k, map_option (\<lambda>r. blit r 0 [hi8 reqID, lo8 reqID]) (find_key c (at_lookup env) ?k))"
    by (simp add: cache_Get_def get_key_eq [OF inv])
  have "cache_inv (look_key c (at_lookup env) ?k)"
    using inv by (simp add: look_key_eq drop_key_inv)
  moreover have "answer_ok payload (Some (blit r 0 [hi8 reqID, lo8 reqID])) False"
    if "find_key c (at_lookup env) ?k = Some r" for r
    using that cache_inv_response [OF inv, of ?k] assms(2)
    by (auto simp: find_key_def answer_ok_def take_two blit_def split: option.splits if_splits)
  ultimately show ?thesis
    using Some get assms(1) by (auto simp: cached_answer_def engine_inv_def)
qed (use assms in \<open>simp add: cached_answer_def\<close>)

lemma query_upstream_ok:
  assumes inv: "engine_inv e" and parsed: "ParseQuery U payload = Some (Inr msg)" "msg_Questions msg \<noteq> []"
    and query: "\<And>ip p r. query ip p = Inr r \<Longrightarrow> 12 \<le> length r" and flight: "flight_ok env"
  shows "\<exists>e' resp pass. query_upstream U cfg query env e ip q payload = Some (e', resp, pass)
    \<and> engine_inv e' \<and> answer_ok payload resp pass"
proof -
  obtain doh shared where c: "coalesced env (query ip payload) = (doh, shared)"
    by (cases "coalesced env (query ip payload)")
  show ?thesis
  proof (cases doh)
    case (Inl err)
    then show ?thesis
      using c error_response_answer [OF parsed, of RCodeServFail] inv
      by (auto simp: query_upstream_def answer_ok_def)
  next
    case (Inr r)
    then have r: "12 \<le> length r"
      using c query [of ip payload r] flight by (auto simp: coalesced_def flight_ok_def split: option.splits)
    let ?r = "blit (blit r 0 [payload ! 0]) 1 [payload ! 1]"
    have p: "12 \<le> length payload"
      using parsed_ident [OF parsed(1)] by simp
    then have p2: "take 2 payload = [payload ! 0, payload ! 1]"
      by (simp add: take_two)
    have "r \<noteq> []"
      using r by auto
    then have "take 2 ?r = [payload ! 0, payload ! 1]" "length ?r = length r"
      using r by (simp_all add: take_two nth_blit)
    then have ok: "answer_ok payload (Some ?r) False"
      using p2 r by (simp add: answer_ok_def)
    have set: "\<exists>c'. cache_Set U c (at_store env) ip (q_Name q) (q_Type q) r = Some c' \<and> cache_inv c'"
      if "eng_cache e = Some c" for c
      using returnsD [OF set_key_returns] set_key_inv inv that by (simp add: cache_Set_def engine_inv_def) blast
    have steps: "go_index payload 0 = Some (payload ! 0)" "go_index payload 1 = Some (payload ! 1)"
      "go_set r 0 (payload ! 0) = Some (blit r 0 [payload ! 0])" "go_set (blit r 0 [payload ! 0]) 1 (payload ! 1) = Some ?r"
      "length r \<ge> 2"
      using p r \<open>r \<noteq> []\<close> by (auto simp: go_index_def go_set_def)
    show ?thesis
      using Inr c set inv ok
      by (cases "eng_cache e") (auto simp: query_upstream_def steps engine_inv_def simp del: One_nat_def)
  qed
qed

definition blocked :: "(string \<Rightarrow> bool) option \<Rightarrow> string \<Rightarrow> bool" where
  "blocked filterEng name = (case filterEng of Some blocks \<Rightarrow> blocks name | None \<Rightarrow> False)"

text \<open>A call past the parser, in one equation.\<close>

lemma ProcessDNSQuery_run:
  assumes "DohEnabled cfg" "ParseQuery U payload = Some (Inr msg)" "msg_Questions msg = q # qs"
    and "cached_answer cfg env e (target_ip cfg dstIP) q (dh_ID (msg_Header msg)) = Some (e1, hit)"
    and "CheckOrProbe (eng_probe e1) query (at_check env) (at_locked env) (at_probed env) (target_ip cfg dstIP) = (pm, capable)"
  shows "ProcessDNSQuery U cfg filterEng query env e dstIP payload =
    (if blocked filterEng (q_Name q) then map_option (\<lambda>r. (e, Some r, False)) (BuildErrorResponse U payload RCodeNXDomain)
     else case hit of
         Some r \<Rightarrow> Some (e1, Some r, False)
       | None \<Rightarrow> if \<not> capable then Some (e1\<lparr>eng_probe := pm\<rparr>, None, True)
                 else query_upstream U cfg query env (e1\<lparr>eng_probe := pm\<rparr>) (target_ip cfg dstIP) q payload)"
  using assms unfolding ProcessDNSQuery_def blocked_def
  by (cases "BuildErrorResponse U payload RCodeNXDomain") (auto simp: Let_def split: option.splits)

lemma ProcessDNSQuery_unparsed:
  assumes "ParseQuery U payload = Some p"
    and "\<not> (\<exists>msg q qs. DohEnabled cfg \<and> p = Inr msg \<and> msg_Questions msg = q # qs)"
  shows "ProcessDNSQuery U cfg filterEng query env e dstIP payload = Some (e, None, True)"
proof (cases p)
  case (Inr msg)
  then show ?thesis
    using assms by (cases "msg_Questions msg") (simp_all add: ProcessDNSQuery_def)
qed (use assms in \<open>simp add: ProcessDNSQuery_def\<close>)

lemma answer_ok_pass [simp]: "answer_ok payload None True"
  by (simp add: answer_ok_def)

lemma process_ok:
  assumes inv: "engine_inv e" and flight: "flight_ok env"
  shows "\<exists>e' resp pass. ProcessDNSQuery U cfg filterEng (QueryDoH http) env e dstIP payload = Some (e', resp, pass)
    \<and> engine_inv e' \<and> answer_ok payload resp pass"
proof -
  obtain p where p: "ParseQuery U payload = Some p"
    using returnsD [OF ParseQuery_returns] by blast
  show ?thesis
  proof (cases "\<exists>msg q qs. DohEnabled cfg \<and> p = Inr msg \<and> msg_Questions msg = q # qs")
    case False
    from ProcessDNSQuery_unparsed [OF p this, of filterEng "QueryDoH http" env e dstIP] inv show ?thesis
      by (intro exI [of _ e] exI [of _ None] exI [of _ True]) simp
  next
    case True
    then obtain msg q qs where 4: "DohEnabled cfg" "ParseQuery U payload = Some (Inr msg)" "msg_Questions msg = q # qs"
      using p by blast
    have quest: "msg_Questions msg \<noteq> []"
      using 4(3) by simp
    have ident: "take 2 payload = [hi8 (dh_ID (msg_Header msg)), lo8 (dh_ID (msg_Header msg))]"
      using parsed_ident [OF 4(2)] by simp
    let ?ip = "target_ip cfg dstIP"
    from cached_answer_ok [OF inv ident, of cfg env ?ip q]
    obtain e1 hit where hit: "cached_answer cfg env e ?ip q (dh_ID (msg_Header msg)) = Some (e1, hit)" "engine_inv e1"
      "hit \<noteq> None \<longrightarrow> answer_ok payload hit False"
      by blast
    obtain pm capable where pm: "CheckOrProbe (eng_probe e1) (QueryDoH http) (at_check env) (at_locked env)
        (at_probed env) ?ip = (pm, capable)"
      by (cases "CheckOrProbe (eng_probe e1) (QueryDoH http) (at_check env) (at_locked env) (at_probed env) ?ip")
    have inv1: "engine_inv (e1\<lparr>eng_probe := pm\<rparr>)"
      using hit(2) by (simp add: engine_inv_def)
    have up: "\<exists>e' resp pass. query_upstream U cfg (QueryDoH http) env (e1\<lparr>eng_probe := pm\<rparr>) ?ip q payload
        = Some (e', resp, pass) \<and> engine_inv e' \<and> answer_ok payload resp pass"
      using QueryDoH_length by (rule query_upstream_ok [OF inv1 4(2) quest _ flight])
    note run = ProcessDNSQuery_run [OF 4 hit(1) pm, of filterEng]
    show ?thesis
    proof (cases "blocked filterEng (q_Name q)")
      case True
      obtain r where r: "BuildErrorResponse U payload RCodeNXDomain = Some r" "answer_ok payload (Some r) False"
        using error_response_answer [OF 4(2) quest] by blast
      with True inv show ?thesis
        by (intro exI [of _ e] exI [of _ "Some r"] exI [of _ False]) (simp add: run)
    next
      case unblocked: False
      show ?thesis
      proof (cases "hit = None \<and> capable")
        case True
        then show ?thesis
          using up unblocked by (simp add: run)
      next
        case False
        then show ?thesis
          using hit(2,3) inv1 unblocked
          by (intro exI [of _ "if hit = None then e1\<lparr>eng_probe := pm\<rparr> else e1"] exI [of _ hit] exI [of _ "hit = None"])
            (auto simp: run)
      qed
    qed
  qed
qed

text \<open>
  C9: whatever bytes a client sends to whatever server, and whatever the upstream servers answer or fail to answer,
  \<open>ProcessDNSQuery\<close> does not panic and keeps the engine's invariant, and it either passes the query through with no
  response or gives a response with a full header and the transaction ID of the query, coalesced and cached
  answers included.
\<close>

theorem dns_query_answered:
  assumes inv: "engine_inv e" and flight: "flight_ok env"
  shows "\<exists>e' resp pass. ProcessDNSQuery U cfg filterEng (QueryDoH http) env e dstIP payload = Some (e', resp, pass)
    \<and> engine_inv e' \<and> answer_ok payload resp pass"
  by (rule process_ok [OF assms])

text \<open>The surroundings and an upstream for the examples: the clock stands at \<open>t\<close>, nobody else asks.\<close>

definition calm :: "int \<Rightarrow> surroundings" where
  "calm t = \<lparr>at_lookup = t, at_check = t, at_locked = t, at_probed = t, at_store = t, in_flight = None\<rparr>"

definition http_sample :: http_post where
  "http_sample url body = Response 200 (Inr answer_sample)"

definition http_down :: http_post where
  "http_down url body = DoError ''timeout''"

theorem dns_query_answered_witness:
  "\<exists>e' resp pass. ProcessDNSQuery plain_unicode DefaultConfig None (QueryDoH http_sample) (calm 5)
      (NewEngine DefaultConfig 0) [8, 8, 8, 8] query_sample = Some (e', resp, pass)
    \<and> engine_inv e' \<and> answer_ok query_sample resp pass"
  by (rule dns_query_answered [OF NewEngine_inv]) (simp add: flight_ok_def calm_def)



lemma cached_answer_eq:
  assumes "cache_inv c" "eng_cache e = Some c" "DNSCacheEnabled cfg"
  shows "cached_answer cfg env e ip q reqID =
    Some (e\<lparr>eng_cache := Some (look_key c (at_lookup env) (makeCacheKey ip (q_Name q) (q_Type q)))\<rparr>,
      map_option (\<lambda>r. blit r 0 [hi8 reqID, lo8 reqID])
        (find_key c (at_lookup env) (makeCacheKey ip (q_Name q) (q_Type q))))"
  using assms by (simp add: cached_answer_def cache_Get_def get_key_eq)

lemma query_upstream_stores:
  assumes "eng_cache e = Some c" "DNSCacheEnabled cfg" "in_flight env = None" "query ip payload = Inr r"
    and "query_upstream U cfg query env e ip q payload = Some (e', resp, pass)"
  shows "eng_cache e' = Some (put_key U c (at_store env) (makeCacheKey ip (q_Name q) (q_Type q)) r)"
  using assms
  by (auto simp: query_upstream_def coalesced_def cache_Set_def put_key_def
      elim!: bind_SomeE split: if_split_asm)

text \<open>
  An answer obtained over HTTPS serves the repetitions of the question.  After a call that missed the cache, found
  the server capable and got an answer, any later query with the same name and type for the same server,
  within the lifetime of the answer, is answered with the same bytes under its own transaction ID, and no request
  goes upstream: the result is the same for every \<open>query'\<close>.
\<close>

theorem dns_answer_reused:
  assumes inv: "engine_inv e" and cfg: "DohEnabled cfg" "DNSCacheEnabled cfg" and c: "eng_cache e = Some c"
    and p: "ParseQuery U payload = Some (Inr msg)" "msg_Questions msg = q # qs"
    and p': "ParseQuery U payload' = Some (Inr msg')" "msg_Questions msg' = q' # qs'"
    and same: "q_Name q' = q_Name q" "q_Type q' = q_Type q" "target_ip cfg dstIP' = target_ip cfg dstIP"
    and free: "\<not> blocked filterEng (q_Name q)"
    and miss: "find_key c (at_lookup env) (makeCacheKey (target_ip cfg dstIP) (q_Name q) (q_Type q)) = None"
    and capable: "CheckOrProbe (eng_probe e) (QueryDoH http) (at_check env) (at_locked env) (at_probed env)
        (target_ip cfg dstIP) = (pm, True)"
    and lead: "in_flight env = None" "QueryDoH http (target_ip cfg dstIP) payload = Inr r"
    and first: "ProcessDNSQuery U cfg filterEng (QueryDoH http) env e dstIP payload = Some (e', resp, pass)"
    and time: "at_store env \<le> at_lookup env'" "at_lookup env' \<le> at_store env + answer_ttl U (c_maxTTL c) r"
  shows "\<exists>e''. ProcessDNSQuery U cfg filterEng query' env' e' dstIP' payload'
    = Some (e'', Some (blit r 0 [payload' ! 0, payload' ! 1]), False)"
proof -
  let ?ip = "target_ip cfg dstIP" and ?k = "makeCacheKey (target_ip cfg dstIP) (q_Name q) (q_Type q)"
  let ?c = "look_key c (at_lookup env) ?k"
  have c_inv: "cache_inv c"
    using inv c by (simp add: engine_inv_def)
  have look: "cache_inv ?c" "c_maxTTL ?c = c_maxTTL c"
    using answers.inv_look [of c "c_maxTTL c"] c_inv by simp_all
  have hit: "cached_answer cfg env e ?ip q (dh_ID (msg_Header msg)) = Some (e\<lparr>eng_cache := Some ?c\<rparr>, None)"
    by (simp add: cached_answer_eq [OF c_inv c cfg(2)] miss)
  have "query_upstream U cfg (QueryDoH http) env (e\<lparr>eng_cache := Some ?c, eng_probe := pm\<rparr>) ?ip q payload
      = Some (e', resp, pass)"
    using first free ProcessDNSQuery_run [OF cfg(1) p hit, of "QueryDoH http" pm True] capable by simp
  then have e': "eng_cache e' = Some (put_key U ?c (at_store env) ?k r)"
    by (rule query_upstream_stores [rotated 4]) (simp_all add: cfg lead)
  have found: "find_key (put_key U ?c (at_store env) ?k r) (at_lookup env') ?k = Some r"
    using find_put_key [OF look(1) QueryDoH_length [OF lead(2)] time(1)] time(2) look(2) by (simp add: alive_def)
  have put: "cache_inv (put_key U ?c (at_store env) ?k r)"
    using answers.inv_put [of ?c "c_maxTTL c"] look by blast
  have len: "12 \<le> length payload'" "take 2 payload' = [hi8 (dh_ID (msg_Header msg')), lo8 (dh_ID (msg_Header msg'))]"
    using parsed_ident [OF p'(1)] by simp_all
  then have ident: "[hi8 (dh_ID (msg_Header msg')), lo8 (dh_ID (msg_Header msg'))] = [payload' ! 0, payload' ! 1]"
    using take_two [of payload'] by simp
  obtain e2 where hit': "cached_answer cfg env' e' (target_ip cfg dstIP') q' (dh_ID (msg_Header msg'))
      = Some (e2, Some (blit r 0 [payload' ! 0, payload' ! 1]))"
    by (simp only: cached_answer_eq [OF put e' cfg(2)] same found ident option.map)
  obtain pm' cap where "CheckOrProbe (eng_probe e2) query' (at_check env') (at_locked env') (at_probed env')
      (target_ip cfg dstIP') = (pm', cap)"
    by (cases "CheckOrProbe (eng_probe e2) query' (at_check env') (at_locked env') (at_probed env') (target_ip cfg dstIP')")
  from ProcessDNSQuery_run [OF cfg(1) p' hit' this] show ?thesis
    using free same by simp
qed

definition first_call :: "Engine \<times> byte list option \<times> bool" where
  "first_call = the (ProcessDNSQuery plain_unicode DefaultConfig None (QueryDoH http_sample) (calm 5)
     (NewEngine DefaultConfig 0) [1, 1, 1, 2] query_sample)"

theorem dns_answer_reused_witness:
  "\<exists>e''. ProcessDNSQuery plain_unicode DefaultConfig None (QueryDoH http_down) (calm 6) (fst first_call) [1, 1, 1, 2]
      query_sample
    = Some (e'', Some (blit answer_sample 0 [query_sample ! 0, query_sample ! 1]), False)"
proof (rule dns_answer_reused [OF NewEngine_inv _ _ _ query_sample_parses _ query_sample_parses])
  let ?q = "\<lparr>q_Name = ''a.com'', q_Type = 1, q_Class = 1\<rparr>" and ?e = "NewEngine DefaultConfig 0"
  show "DohEnabled DefaultConfig" "DNSCacheEnabled DefaultConfig" "\<not> blocked None (q_Name ?q)"
    by (simp_all add: DefaultConfig_def blocked_def)
  show "eng_cache ?e = Some (the (eng_cache ?e))"
    by (simp add: NewEngine_def DefaultConfig_def Let_def)
  show "msg_Questions query_sample_msg = ?q # []" "msg_Questions query_sample_msg = ?q # []"
    by (simp_all add: query_sample_msg_def)
  show "find_key (the (eng_cache ?e)) (at_lookup (calm 5))
      (makeCacheKey (target_ip DefaultConfig [1, 1, 1, 2]) (q_Name ?q) (q_Type ?q)) = None"
    by code_simp
  show "CheckOrProbe (eng_probe ?e) (QueryDoH http_sample) (at_check (calm 5)) (at_locked (calm 5)) (at_probed (calm 5))
      (target_ip DefaultConfig [1, 1, 1, 2]) = (eng_probe ?e, True)"
    by code_simp
  show "QueryDoH http_sample (target_ip DefaultConfig [1, 1, 1, 2]) query_sample = Inr answer_sample"
    by (simp add: QueryDoH_def http_sample_def answer_sample_def Let_def)
  show "ProcessDNSQuery plain_unicode DefaultConfig None (QueryDoH http_sample) (calm 5) ?e [1, 1, 1, 2] query_sample
      = Some (fst first_call, fst (snd first_call), snd (snd first_call))"
    using process_ok [OF NewEngine_inv, of "calm 5" plain_unicode DefaultConfig None http_sample DefaultConfig 0
        "[1, 1, 1, 2]" query_sample]
    by (auto simp: first_call_def flight_ok_def calm_def)
  show "at_lookup (calm 6) \<le> at_store (calm 5)
      + answer_ttl plain_unicode (c_maxTTL (the (eng_cache ?e))) answer_sample"
    by code_simp
qed (simp_all add: calm_def)

end
