(* ===== verification/ShExp.thy ===== *)
theory ShExp
  imports GoStrings
begin

text \<open>
  Shell patterns of PAC scripts, \<open>MatchShExp\<close> and \<open>wildcardMatch\<close> of \<open>internal/pac/js_engine.go\<close>: a loop over two indices
  that goes back to the last star on a mismatch.  It works on code points, so the conversion \<open>[]rune(s)\<close> of the language
  is here too.  The reference is \<open>sh_glob\<close>, the declarative meaning of a pattern.
\<close>

section \<open>Code points\<close>

type_synonym rune = nat

definition cont_byte :: "nat \<Rightarrow> bool" where
  "cont_byte b = (0x80 \<le> b \<and> b \<le> 0xBF)"

text \<open>The second byte of a three- or four-byte sequence: no overlong forms, no surrogates, nothing above U+10FFFF.\<close>

definition second_ok :: "nat \<Rightarrow> nat \<Rightarrow> bool" where
  "second_ok b0 b1 =
     ((if b0 = 0xE0 then 0xA0 else if b0 = 0xF0 then 0x90 else 0x80) \<le> b1
      \<and> b1 \<le> (if b0 = 0xED then 0x9F else if b0 = 0xF4 then 0x8F else 0xBF))"

text \<open>One step of the decoder: code point and number of bytes; an invalid byte is U+FFFD of width one.\<close>

definition decode_rune :: "nat list \<Rightarrow> rune \<times> nat" where
  "decode_rune bs =
     (let b0 = bs ! 0; n = length bs
      in if b0 < 0x80 then (b0, 1)
         else if 0xC2 \<le> b0 \<and> b0 \<le> 0xDF \<and> 2 \<le> n \<and> cont_byte (bs ! 1) then ((b0 - 0xC0) * 0x40 + (bs ! 1 - 0x80), 2)
         else if 0xE0 \<le> b0 \<and> b0 \<le> 0xEF \<and> 3 \<le> n \<and> second_ok b0 (bs ! 1) \<and> cont_byte (bs ! 2)
         then ((b0 - 0xE0) * 0x1000 + (bs ! 1 - 0x80) * 0x40 + (bs ! 2 - 0x80), 3)
         else if 0xF0 \<le> b0 \<and> b0 \<le> 0xF4 \<and> 4 \<le> n \<and> second_ok b0 (bs ! 1) \<and> cont_byte (bs ! 2) \<and> cont_byte (bs ! 3)
         then ((b0 - 0xF0) * 0x40000 + (bs ! 1 - 0x80) * 0x1000 + (bs ! 2 - 0x80) * 0x40 + (bs ! 3 - 0x80), 4)
         else (0xFFFD, 1))"

lemma decode_rune_width: "0 < snd (decode_rune bs)"
  by (auto simp: decode_rune_def Let_def)

function decode_runes :: "nat list \<Rightarrow> rune list" where
  "decode_runes bs = (if bs = [] then [] else fst (decode_rune bs) # decode_runes (drop (snd (decode_rune bs)) bs))"
  by auto
termination
  using decode_rune_width by (relation "measure length") (auto simp: diff_less)

declare decode_runes.simps [simp del]

definition runes :: "string \<Rightarrow> rune list" where
  "runes s = decode_runes (map of_char s)"

lemma runes_ascii: "ascii s \<Longrightarrow> runes s = map of_char s"
proof -
  have "list_all (\<lambda>b. b < 128) bs \<Longrightarrow> decode_runes bs = bs" for bs
    by (induction bs) (simp_all add: decode_runes.simps decode_rune_def)
  then show "ascii s \<Longrightarrow> runes s = map of_char s"
    by (simp add: runes_def ascii_def list_all_length)
qed

section \<open>The matcher\<close>

text \<open>
  The loop \<open>for sIdx < sLen\<close>: \<open>None\<close> is \<open>return false\<close>, \<open>Some pIdx\<close> the position in the pattern when the loop ends.
  \<open>starIdx = -1\<close> is \<open>None\<close> here.
\<close>

function wm_loop :: "rune list \<Rightarrow> rune list \<Rightarrow> nat \<Rightarrow> nat \<Rightarrow> nat option \<Rightarrow> nat \<Rightarrow> nat option" where
  "wm_loop s p sIdx pIdx starIdx matchIdx =
     (if sIdx < length s then
        if pIdx < length p \<and> (p ! pIdx = of_char CHR ''?'' \<or> p ! pIdx = s ! sIdx)
        then wm_loop s p (sIdx + 1) (pIdx + 1) starIdx matchIdx
        else if pIdx < length p \<and> p ! pIdx = of_char CHR ''*''
        then wm_loop s p sIdx (pIdx + 1) (Some pIdx) sIdx
        else case starIdx of
          Some k \<Rightarrow> wm_loop s p (matchIdx + 1) (k + 1) starIdx (matchIdx + 1)
        | None \<Rightarrow> None
      else Some pIdx)"
  by auto

text \<open>
  It ends: a new star lies further right in the pattern; between two stars the place to resume moves right in the
  string; and between two resumptions both indices move.  The first component is for calls that the loop never makes, with
  a star to the right of the pattern position.
\<close>

termination
  by (relation "measures
      [\<lambda>(s, p, i, j, st, m). case st of Some k \<Rightarrow> if j \<le> k then 1 else 0 | None \<Rightarrow> 0,
       \<lambda>(s, p, i, j, st, m). length p + 1 - (case st of Some k \<Rightarrow> k + 1 | None \<Rightarrow> 0),
       \<lambda>(s, p, i, j, st, m). length s - m + (if i < length s then 1 else 0),
       \<lambda>(s, p, i, j, st, m). (length s - i) + (length p - j)]") (auto split: option.splits)

declare wm_loop.simps [simp del]

definition wildcardMatch :: "string \<Rightarrow> string \<Rightarrow> bool" where
  "wildcardMatch s p =
     (case wm_loop (runes s) (runes p) 0 0 None 0 of
        None \<Rightarrow> False
      | Some pIdx \<Rightarrow> pIdx + length (takeWhile (\<lambda>c. c = of_char CHR ''*'') (drop pIdx (runes p))) = length (runes p))"

definition MatchShExp :: "string \<Rightarrow> string \<Rightarrow> bool" where
  "MatchShExp s pattern = wildcardMatch s pattern"

section \<open>What a pattern means\<close>

abbreviation star :: rune where "star \<equiv> 42"
abbreviation quest :: rune where "quest \<equiv> 63"

primrec sh_glob :: "rune list \<Rightarrow> rune list \<Rightarrow> bool" where
  "sh_glob [] s = (s = [])"
| "sh_glob (c # p) s =
     (if c = star then \<exists>i \<le> length s. sh_glob p (drop i s)
      else s \<noteq> [] \<and> (c = quest \<or> c = hd s) \<and> sh_glob p (tl s))"

lemma sh_glob_stars: "sh_glob p [] \<longleftrightarrow> (\<forall>c \<in> set p. c = star)"
  by (induction p) auto

lemma sh_glob_star_mono: "sh_glob (star # p) (drop j s) \<Longrightarrow> i \<le> j \<Longrightarrow> j \<le> length s \<Longrightarrow> sh_glob (star # p) (drop i s)"
proof -
  assume a: "sh_glob (star # p) (drop j s)" "i \<le> j" "j \<le> length s"
  then obtain k where "k \<le> length s - j" "sh_glob p (drop (j + k) s)"
    by (auto simp: add.commute)
  with a(2,3) show "sh_glob (star # p) (drop i s)"
    by (auto intro!: exI [of _ "j + k - i"])
qed

text \<open>A piece of a pattern without stars consumes one code point for each of its own.\<close>

lemma sh_glob_seg:
  assumes "\<forall>c \<in> set seg. c \<noteq> star" "sh_glob (seg @ q) t"
  shows "length seg \<le> length t \<and> sh_glob q (drop (length seg) t)"
  using assms
proof (induction seg arbitrary: t)
  case (Cons c seg)
  then show ?case
    by (cases t) auto
qed simp

text \<open>
  The loop invariant: between the last star and the current position the pattern has no star and is as long as the
  part of the string between the place to resume and the current position.
\<close>

definition wm_inv :: "rune list \<Rightarrow> rune list \<Rightarrow> nat \<Rightarrow> nat \<Rightarrow> nat option \<Rightarrow> nat \<Rightarrow> bool" where
  "wm_inv s p i j st m \<longleftrightarrow> i \<le> length s \<and> j \<le> length p
     \<and> (\<forall>k. st = Some k \<longrightarrow> m \<le> i \<and> j = k + 1 + (i - m) \<and> star \<notin> set (take (i - m) (drop (k + 1) p)))"

text \<open>What the loop still has to decide: the rest from here, or the rest after the last star from a later place.\<close>

definition wm_goal :: "rune list \<Rightarrow> rune list \<Rightarrow> nat \<Rightarrow> nat \<Rightarrow> nat option \<Rightarrow> nat \<Rightarrow> bool" where
  "wm_goal s p i j st m \<longleftrightarrow> sh_glob (drop j p) (drop i s)
     \<or> (\<exists>k l. st = Some k \<and> m < l \<and> l \<le> length s \<and> sh_glob (drop (k + 1) p) (drop l s))"

lemma wm_later:
  assumes "wm_inv s p i j (Some k) m" "m < l" "l \<le> length s" "sh_glob (drop (k + 1) p) (drop l s)"
  shows "i < l + (i - m) \<and> l + (i - m) \<le> length s \<and> sh_glob (drop j p) (drop (l + (i - m)) s)"
proof -
  let ?seg = "take (i - m) (drop (k + 1) p)"
  have inv: "m \<le> i" "j = k + 1 + (i - m)" "\<forall>c \<in> set ?seg. c \<noteq> star" "j \<le> length p"
    using assms(1) by (auto simp: wm_inv_def)
  have split: "drop (k + 1) p = ?seg @ drop j p"
    using inv(2) by (metis append_take_drop_id drop_drop add.commute)
  have len: "length ?seg = i - m"
    using inv by simp
  have "length ?seg \<le> length (drop l s) \<and> sh_glob (drop j p) (drop (length ?seg) (drop l s))"
    by (rule sh_glob_seg [OF inv(3)]) (use assms(4) in \<open>simp only: split [symmetric]\<close>)
  then show ?thesis
    using assms(2,3) inv(1) unfolding len by (auto simp: add.commute)
qed

lemma wm_exit:
  assumes "wm_inv s p i j st m" "\<not> i < length s"
  shows "wm_goal s p i j st m \<longleftrightarrow> (\<forall>c \<in> set (drop j p). c = star)"
proof -
  have "i = length s"
    using assms by (auto simp: wm_inv_def)
  moreover have False if "st = Some k" "m < l" "l \<le> length s" "sh_glob (drop (k + 1) p) (drop l s)" for k l
    using wm_later [of s p i j k m l] assms(1) that \<open>i = length s\<close> by auto
  ultimately show ?thesis
    by (auto simp: wm_goal_def sh_glob_stars)
qed

lemma wm_step:
  assumes "wm_inv s p i j st m" "i < length s" "j < length p" "p ! j \<noteq> star" "p ! j = quest \<or> p ! j = s ! i"
  shows "wm_inv s p (i + 1) (j + 1) st m" "wm_goal s p (i + 1) (j + 1) st m = wm_goal s p i j st m"
proof -
  have "drop j p = p ! j # drop (j + 1) p" "drop i s = s ! i # drop (i + 1) s"
    using assms by (simp_all add: Cons_nth_drop_Suc)
  then show "wm_goal s p (i + 1) (j + 1) st m = wm_goal s p i j st m"
    using assms by (auto simp: wm_goal_def)
  show "wm_inv s p (i + 1) (j + 1) st m"
    using assms by (auto simp: wm_inv_def Suc_diff_le take_Suc_conv_app_nth)
qed

lemma wm_star:
  assumes "wm_inv s p i j st m" "i < length s" "j < length p" "p ! j = star"
  shows "wm_inv s p i (j + 1) (Some j) i" "wm_goal s p i (j + 1) (Some j) i = wm_goal s p i j st m"
proof -
  show "wm_inv s p i (j + 1) (Some j) i"
    using assms by (simp add: wm_inv_def)
  have d: "drop j p = star # drop (j + 1) p"
    using assms by (metis Cons_nth_drop_Suc Suc_eq_plus1)
  have shift: "(\<exists>n \<le> length (drop i s). P (drop n (drop i s))) \<longleftrightarrow> (\<exists>l. i \<le> l \<and> l \<le> length s \<and> P (drop l s))" for P
  proof safe
    fix n
    assume "n \<le> length (drop i s)" "P (drop n (drop i s))"
    then show "\<exists>l. i \<le> l \<and> l \<le> length s \<and> P (drop l s)"
      using assms(2) by (intro exI [of _ "i + n"]) (simp add: add.commute)
  next
    fix l
    assume "i \<le> l" "l \<le> length s" "P (drop l s)"
    then show "\<exists>n \<le> length (drop i s). P (drop n (drop i s))"
      by (intro exI [of _ "l - i"]) simp
  qed
  have "sh_glob (drop j p) (drop i s) \<longleftrightarrow> (\<exists>l. i \<le> l \<and> l \<le> length s \<and> sh_glob (drop (j + 1) p) (drop l s))"
    unfolding d sh_glob.simps if_True shift by simp
  then have e: "sh_glob (drop j p) (drop i s) \<longleftrightarrow> wm_goal s p i (j + 1) (Some j) i"
    using assms(2) by (auto simp: wm_goal_def le_less)
  have "sh_glob (drop j p) (drop i s)" if "st = Some k" "m < l" "l \<le> length s" "sh_glob (drop (k + 1) p) (drop l s)" for k l
    unfolding d
  proof (rule sh_glob_star_mono)
    show "sh_glob (star # drop (j + 1) p) (drop (l + (i - m)) s)" "i \<le> l + (i - m)" "l + (i - m) \<le> length s"
      using wm_later [of s p i j k m l] assms(1) that by (simp_all only: d [symmetric])
  qed
  then show "wm_goal s p i (j + 1) (Some j) i = wm_goal s p i j st m"
    unfolding e [symmetric] by (auto simp: wm_goal_def)
qed

lemma wm_mismatch:
  assumes "wm_inv s p i j st m" "i < length s" "\<not> (j < length p \<and> (p ! j = quest \<or> p ! j = s ! i))"
    "\<not> (j < length p \<and> p ! j = star)"
  shows "\<not> sh_glob (drop j p) (drop i s)"
proof (cases "j < length p")
  case True
  then have "drop j p = p ! j # drop (Suc j) p" "drop i s = s ! i # drop (Suc i) s"
    using assms by (simp_all add: Cons_nth_drop_Suc)
  with True assms show ?thesis
    by auto
next
  case False
  with assms(2) show ?thesis
    by simp
qed

lemma wm_resume:
  assumes "wm_inv s p i j (Some k) m" "i < length s" "\<not> sh_glob (drop j p) (drop i s)"
  shows "wm_inv s p (m + 1) (k + 1) (Some k) (m + 1)" "wm_goal s p (m + 1) (k + 1) (Some k) (m + 1) = wm_goal s p i j (Some k) m"
proof -
  have "m < length s" "k + 1 \<le> length p"
    using assms(1,2) by (auto simp: wm_inv_def)
  then show "wm_inv s p (m + 1) (k + 1) (Some k) (m + 1)"
    by (simp add: wm_inv_def)
  have "(\<exists>l. m < l \<and> l \<le> length s \<and> P l) \<longleftrightarrow> P (m + 1) \<or> (\<exists>l. m + 1 < l \<and> l \<le> length s \<and> P l)" for P
    using \<open>m < length s\<close> by (metis Suc_eq_plus1 Suc_leI Suc_lessI less_Suc_eq less_trans)
  with assms(3) show "wm_goal s p (m + 1) (k + 1) (Some k) (m + 1) = wm_goal s p i j (Some k) m"
    by (simp add: wm_goal_def)
qed

lemma wm_loop_correct:
  assumes "wm_inv s p i j st m" "star \<notin> set s"
  shows "(case wm_loop s p i j st m of None \<Rightarrow> False | Some j' \<Rightarrow> \<forall>c \<in> set (drop j' p). c = star) \<longleftrightarrow> wm_goal s p i j st m"
  using assms
proof (induction s p i j st m rule: wm_loop.induct)
  case (1 s p i j st m)
  have nostar: "s ! i \<noteq> star" if "i < length s"
    using that 1(5) by (metis nth_mem)
  consider (over) "\<not> i < length s"
    | (step) "i < length s" "j < length p" "p ! j = quest \<or> p ! j = s ! i"
    | (new) "i < length s" "\<not> (j < length p \<and> (p ! j = quest \<or> p ! j = s ! i))" "j < length p" "p ! j = star"
    | (resume) "i < length s" "\<not> (j < length p \<and> (p ! j = quest \<or> p ! j = s ! i))" "\<not> (j < length p \<and> p ! j = star)"
    by blast
  then show ?case
  proof cases
    case over
    then show ?thesis
      using wm_exit [OF 1(4)] by (subst wm_loop.simps) simp
  next
    case step
    then have "p ! j \<noteq> star"
      using nostar by auto
    with step show ?thesis
      using 1(1) wm_step [OF 1(4)] 1(5) by (subst wm_loop.simps) simp
  next
    case new
    then show ?thesis
      using 1(2) wm_star [OF 1(4)] 1(5) by (subst wm_loop.simps) simp
  next
    case resume
    have no: "\<not> sh_glob (drop j p) (drop i s)"
      using wm_mismatch [OF 1(4)] resume by blast
    show ?thesis
    proof (cases st)
      case None
      with resume no show ?thesis
        by (subst wm_loop.simps) (auto simp: wm_goal_def)
    next
      case (Some k)
      with resume no show ?thesis
        using 1(3) wm_resume [of s p i j k m] 1(4,5) by (subst wm_loop.simps) (auto split del: option.split)
    qed
  qed
qed

lemma takeWhile_all: "length (takeWhile P xs) = length xs \<longleftrightarrow> (\<forall>x \<in> set xs. P x)"
  by (induction xs) auto

lemma wm_loop_bound: "wm_loop s p i j st m = Some j' \<Longrightarrow> j \<le> length p \<Longrightarrow> (\<forall>k. st = Some k \<longrightarrow> k < length p) \<Longrightarrow> j' \<le> length p"
proof (induction s p i j st m rule: wm_loop.induct)
  case (1 s p i j st m)
  then show ?case
    by (subst (asm) (4) wm_loop.simps) (auto split: if_splits option.splits)
qed

lemma wildcardMatch_sh_glob:
  assumes "star \<notin> set (runes s)"
  shows "wildcardMatch s p \<longleftrightarrow> sh_glob (runes p) (runes s)"
proof -
  have inv: "wm_inv (runes s) (runes p) 0 0 None 0"
    by (simp add: wm_inv_def)
  have "j + length (takeWhile (\<lambda>c. c = star) (drop j p')) = length p' \<longleftrightarrow> (\<forall>c \<in> set (drop j p'). c = star)"
    if "j \<le> length p'" for j p'
    using takeWhile_all [of "\<lambda>c. c = star" "drop j p'"] that by auto
  then have "wildcardMatch s p \<longleftrightarrow> (case wm_loop (runes s) (runes p) 0 0 None 0 of None \<Rightarrow> False
      | Some j \<Rightarrow> \<forall>c \<in> set (drop j (runes p)). c = star)"
    using wm_loop_bound [of "runes s" "runes p" 0 0 None 0] by (auto simp: wildcardMatch_def split: option.splits)
  also have "\<dots> \<longleftrightarrow> wm_goal (runes s) (runes p) 0 0 None 0"
    by (rule wm_loop_correct [OF inv assms])
  finally show ?thesis
    by (simp add: wm_goal_def)
qed

text \<open>
  C36: \<open>shExpMatch\<close> decides the meaning of a pattern.  For every pattern, and every string without a literal star in it, the
  backtracking loop ends and its result is the declarative one: \<open>*\<close> stands for any run of code points, \<open>?\<close> for exactly
  one, every other code point for itself.
\<close>

theorem MatchShExp_glob:
  assumes "star \<notin> set (runes s)"
  shows "MatchShExp s pattern \<longleftrightarrow> sh_glob (runes pattern) (runes s)"
  unfolding MatchShExp_def by (rule wildcardMatch_sh_glob [OF assms])

theorem MatchShExp_glob_witness:
  "MatchShExp ''http://a.example.com/x'' ''*.example.com/?''
    \<longleftrightarrow> sh_glob (runes ''*.example.com/?'') (runes ''http://a.example.com/x'')"
  by (rule MatchShExp_glob) code_simp

text \<open>
  With a literal star in the string the loop takes the star of the pattern for that character and forgets that it
  may stand for more: \<open>*\<close> matches every string, but not \<open>*a\<close>.
\<close>

theorem MatchShExp_literal_star: "\<not> MatchShExp ''*a'' ''*'' \<and> sh_glob (runes ''*'') (runes ''*a'')"
  by code_simp

end
