(* ===== verification/PacEngine.thy ===== *)
theory PacEngine
  imports ShExp GoNet
begin

text \<open>
  Evaluation of PAC scripts, \<open>internal/pac/js_engine.go\<close> and \<open>internal/pac/pac_linux.go\<close>: the functions that a script
  may call, the engine around the JavaScript interpreter, the reading of a script's result, and the session that loads and
  keeps one engine per script.  The interpreter (the package \<open>goja\<close>), name resolution, the interface list, downloads
  and \<open>url.Parse\<close> are parameters.
\<close>

section \<open>Parameters\<close>

record urls =
  url_ok :: "string \<Rightarrow> bool"
  url_string :: "string \<Rightarrow> string"
  url_Hostname :: "string \<Rightarrow> string"
  url_Host :: "string \<Rightarrow> string"

text \<open>What one call of \<open>FindProxyForURL\<close> in a virtual machine does.\<close>

datatype vm_outcome = TimedOut | Raised string | Returned string

datatype vm_entry = Undefined | NotCallable | Callable

record goja =
  gj_Compile :: "string \<Rightarrow> string option"
  gj_RunProgram :: "string \<Rightarrow> bool"
  gj_Get :: "string \<Rightarrow> vm_entry"
  gj_call :: "string \<Rightarrow> string \<Rightarrow> string \<Rightarrow> vm_outcome"

section \<open>The functions of a script\<close>

definition isPlainHostName :: "string \<Rightarrow> bool" where
  "isPlainHostName host = (\<not> Contains host ''.'')"

definition dnsDomainIs :: "unicode \<Rightarrow> string \<Rightarrow> string \<Rightarrow> bool" where
  "dnsDomainIs U host domain =
     (let domain = (if \<not> HasPrefix domain ''.'' \<and> \<not> HasPrefix host domain then ''.'' @ domain else domain)
      in HasSuffix (ToLower U host) (ToLower U domain) \<or> EqualFold U host (TrimPrefix domain ''.''))"

definition localHostOrDomainIs :: "unicode \<Rightarrow> string \<Rightarrow> string \<Rightarrow> bool" where
  "localHostOrDomainIs U host hostdom =
     (if EqualFold U host hostdom then True
      else let parts = Split host CHR ''.'' in EqualFold U (parts ! 0) hostdom)"

type_synonym resolver = "string \<Rightarrow> netIP list option"

definition isResolvable :: "resolver \<Rightarrow> string \<Rightarrow> bool" where
  "isResolvable lookupIP host = (case lookupIP host of None \<Rightarrow> False | Some ips \<Rightarrow> length ips > 0)"

definition isInNet :: "resolver \<Rightarrow> string \<Rightarrow> string \<Rightarrow> string \<Rightarrow> bool" where
  "isInNet lookupIP ipStr patternStr maskStr =
     (let parsedIP = (case ParseIP ipStr of
            Some ip \<Rightarrow> Some ip
          | None \<Rightarrow> (case lookupIP ipStr of None \<Rightarrow> None | Some ips \<Rightarrow> if length ips = 0 then None else Some (ips ! 0)))
      in case parsedIP of
           None \<Rightarrow> False
         | Some ip \<Rightarrow>
             (case (ParseIP patternStr, ParseIP maskStr) of
                (Some patternIP, Some maskIP) \<Rightarrow>
                  let v4Mask = (case To4 maskIP of Some m \<Rightarrow> m | None \<Rightarrow> maskIP)
                  in IPNet_Contains \<lparr>net_ip = IP_Mask patternIP v4Mask, net_mask = v4Mask\<rparr> ip
              | _ \<Rightarrow> False))"

definition dnsResolve :: "resolver \<Rightarrow> string \<Rightarrow> string" where
  "dnsResolve lookupIP host =
     (case lookupIP host of
        None \<Rightarrow> ''''
      | Some ips \<Rightarrow>
          (case List.find (\<lambda>ip. To4 ip \<noteq> None) ips of
             Some ip \<Rightarrow> (case To4 ip of Some v4 \<Rightarrow> IP_String v4 | None \<Rightarrow> '''')
           | None \<Rightarrow> if length ips > 0 then IP_String (ips ! 0) else ''''))"

text \<open>\<open>net.InterfaceAddrs\<close>: \<open>None\<close> an error, else the addresses that are networks.\<close>

definition myIpAddress :: "netIP list option \<Rightarrow> string" where
  "myIpAddress interfaceAddrs =
     (case interfaceAddrs of
        None \<Rightarrow> ''127.0.0.1''
      | Some addrs \<Rightarrow>
          (case List.find (\<lambda>ip. \<not> IsLoopback ip \<and> To4 ip \<noteq> None) addrs of
             Some ip \<Rightarrow> (case To4 ip of Some v4 \<Rightarrow> IP_String v4 | None \<Rightarrow> '''')
           | None \<Rightarrow> ''127.0.0.1''))"

definition dnsDomainLevels :: "string \<Rightarrow> nat" where
  "dnsDomainLevels host = length (filter (\<lambda>c. c = CHR ''.'') host)"

section \<open>Results\<close>

record ProxyDecision =
  IsDirect :: bool
  ProxyURL :: string

definition direct :: ProxyDecision where
  "direct = \<lparr>IsDirect = True, ProxyURL = ''''\<rparr>"

definition via :: "string \<Rightarrow> ProxyDecision" where
  "via u = \<lparr>IsDirect = False, ProxyURL = u\<rparr>"

definition proxy_types :: "string list" where
  "proxy_types = [''PROXY'', ''HTTP'', ''HTTPS'', ''SOCKS'', ''SOCKS5'']"

text \<open>The URL of a proxy entry, for both readers of a proxy list.\<close>

definition entry_url :: "string \<Rightarrow> string \<Rightarrow> string" where
  "entry_url schemeType hostPort =
     (if HasPrefix hostPort ''http://'' \<or> HasPrefix hostPort ''https://'' \<or> HasPrefix hostPort ''socks5://'' then hostPort
      else if schemeType = ''HTTPS'' then ''https://'' @ hostPort
      else if schemeType = ''SOCKS'' \<or> schemeType = ''SOCKS5'' then ''socks5://'' @ hostPort
      else ''http://'' @ hostPort)"

fun pac_options :: "unicode \<Rightarrow> urls \<Rightarrow> string list \<Rightarrow> ProxyDecision" where
  "pac_options U L [] = direct"
| "pac_options U L (opt # rest) =
     (let opt = TrimSpace U opt; parts = Fields U opt
      in if opt = '''' \<or> length parts = 0 then pac_options U L rest
         else
           let schemeType = ToUpper U (parts ! 0)
           in if schemeType = ''DIRECT'' then direct
              else if length parts \<ge> 2 \<and> schemeType \<in> set proxy_types then
                (let proxyURL = entry_url schemeType (parts ! 1)
                 in if url_ok L proxyURL then via proxyURL else pac_options U L rest)
              else pac_options U L rest)"

definition ParsePACResult :: "unicode \<Rightarrow> urls \<Rightarrow> string \<Rightarrow> ProxyDecision" where
  "ParsePACResult U L pacResult =
     (let trimmed = TrimSpace U pacResult
      in if trimmed = '''' \<or> EqualFold U trimmed ''DIRECT'' then direct
         else pac_options U L (Split trimmed CHR '';''))"

section \<open>The engine\<close>

record JSEngine =
  je_script :: string
  je_timeout :: int

definition NewJSEngine :: "goja \<Rightarrow> string \<Rightarrow> string + JSEngine" where
  "NewJSEngine G pacScript =
     (case gj_Compile G pacScript of
        Some err \<Rightarrow> Inl (''failed to compile PAC script: '' @ err)
      | None \<Rightarrow>
          if \<not> gj_RunProgram G pacScript then Inl ''failed to initialize PAC VM instance''
          else case gj_Get G pacScript of
            Undefined \<Rightarrow> Inl ''PAC script does not define FindProxyForURL function''
          | NotCallable \<Rightarrow> Inl ''FindProxyForURL is not a callable function''
          | Callable \<Rightarrow> Inr \<lparr>je_script = pacScript, je_timeout = 2 * second\<rparr>)"

definition FindProxyForURL :: "goja \<Rightarrow> JSEngine \<Rightarrow> string \<Rightarrow> string \<Rightarrow> string + string" where
  "FindProxyForURL G e targetURL host =
     (if \<not> gj_RunProgram G (je_script e) then Inl ''failed to obtain VM instance from pool''
      else if gj_Get G (je_script e) \<noteq> Callable then Inl ''FindProxyForURL not found in VM''
      else case gj_call G (je_script e) targetURL host of
        TimedOut \<Rightarrow> Inl ''PAC execution timed out''
      | Raised err \<Rightarrow> Inl (''FindProxyForURL error: '' @ err)
      | Returned res \<Rightarrow> Inr res)"

section \<open>The session\<close>

text \<open>Downloads: \<open>None\<close> no response, else status code and body; and local files.\<close>

record pac_source =
  ps_http :: "string \<Rightarrow> (nat \<times> string) option"
  ps_file :: "string \<Rightarrow> string option"

record linuxPACSession =
  ls_userAgent :: string
  ls_engines :: "string \<Rightarrow> JSEngine option"

definition createPACSession :: "string \<Rightarrow> linuxPACSession" where
  "createPACSession userAgent = \<lparr>ls_userAgent = userAgent, ls_engines = (\<lambda>_. None)\<rparr>"

definition fetchPACScript :: "pac_source \<Rightarrow> string \<Rightarrow> string + string" where
  "fetchPACScript N pacURL =
     (if HasPrefix pacURL ''http://'' \<or> HasPrefix pacURL ''https://'' then
        (case ps_http N pacURL of
           None \<Rightarrow> Inl ''failed to download PAC script''
         | Some (status, body) \<Rightarrow>
             if status \<noteq> 200 then Inl (''HTTP error '' @ Itoa status @ '' when downloading PAC'')
             else Inr (take (2 * 1024 * 1024) body))
      else (case ps_file N pacURL of
              None \<Rightarrow> Inl ''failed to read local PAC file''
            | Some data \<Rightarrow> Inr data))"

definition getOrLoadEngine :: "goja \<Rightarrow> pac_source \<Rightarrow> string \<Rightarrow> linuxPACSession \<Rightarrow> linuxPACSession \<times> (string + JSEngine)" where
  "getOrLoadEngine G N pacURL s =
     (case ls_engines s pacURL of
        Some engine \<Rightarrow> (s, Inr engine)
      | None \<Rightarrow>
          (case fetchPACScript N pacURL of
             Inl err \<Rightarrow> (s, Inl err)
           | Inr scriptContent \<Rightarrow>
               (case NewJSEngine G scriptContent of
                  Inl err \<Rightarrow> (s, Inl (''failed to compile PAC script: '' @ err))
                | Inr engine \<Rightarrow> (s\<lparr>ls_engines := (ls_engines s)(pacURL \<mapsto> engine)\<rparr>, Inr engine))))"

text \<open>\<open>strings.SplitN(s, sep, 2)[0]\<close> and, where the separator occurs, \<open>[1]\<close>.\<close>

definition before :: "string \<Rightarrow> string \<Rightarrow> string" where
  "before s sep = (case Index s sep of None \<Rightarrow> s | Some i \<Rightarrow> take i s)"

definition after :: "string \<Rightarrow> string \<Rightarrow> string" where
  "after s sep = (case Index s sep of None \<Rightarrow> '''' | Some i \<Rightarrow> drop (i + length sep) s)"

definition pac_host :: "urls \<Rightarrow> string \<Rightarrow> string" where
  "pac_host L targetURL =
     (if url_ok L targetURL then
        (if url_Hostname L targetURL \<noteq> '''' then url_Hostname L targetURL
         else if url_Host L targetURL \<noteq> '''' then url_Host L targetURL
         else targetURL)
      else if Contains targetURL ''://'' then before (before (after targetURL ''://'') ''/'') '':''
      else targetURL)"

type_synonym pac_answer = "bool \<times> string \<times> string option"

definition GetProxyForURL ::
  "unicode \<Rightarrow> urls \<Rightarrow> goja \<Rightarrow> pac_source \<Rightarrow> string \<Rightarrow> string \<Rightarrow> linuxPACSession \<Rightarrow> linuxPACSession \<times> pac_answer" where
  "GetProxyForURL U L G N targetURL pacURL s =
     (if pacURL = '''' then (s, True, ''DIRECT'', None)
      else case getOrLoadEngine G N pacURL s of
        (s, Inl err) \<Rightarrow> (s, True, ''DIRECT'', Some (''failed to load PAC script from '' @ pacURL @ '': '' @ err))
      | (s, Inr engine) \<Rightarrow>
          (case FindProxyForURL G engine targetURL (pac_host L targetURL) of
             Inl err \<Rightarrow> (s, True, ''DIRECT'', Some (''FindProxyForURL evaluation error: '' @ err))
           | Inr rawResult \<Rightarrow>
               (let decision = ParsePACResult U L rawResult
                in if IsDirect decision then (s, True, ''DIRECT'', None) else (s, False, ProxyURL decision, None))))"

definition session_Close :: "linuxPACSession \<Rightarrow> linuxPACSession" where
  "session_Close s = s\<lparr>ls_engines := (\<lambda>_. None)\<rparr>"

section \<open>System settings\<close>

record osProxyConfig =
  AutoConfigURL :: string
  os_Proxy :: string
  AutoDetect :: bool

fun first_set :: "(string \<Rightarrow> string) \<Rightarrow> string list \<Rightarrow> string" where
  "first_set env [] = ''''"
| "first_set env (v # vs) = (if env v \<noteq> '''' then env v else first_set env vs)"

definition detectOSProxy :: "unicode \<Rightarrow> (string \<Rightarrow> string) \<Rightarrow> osProxyConfig" where
  "detectOSProxy U env =
     (let proxy = TrimSpace U (first_set env
        [''https_proxy'', ''HTTPS_PROXY'', ''http_proxy'', ''HTTP_PROXY'', ''all_proxy'', ''ALL_PROXY''])
      in if proxy \<noteq> '''' then \<lparr>AutoConfigURL = '''', os_Proxy = proxy, AutoDetect = False\<rparr>
         else \<lparr>AutoConfigURL = '''', os_Proxy = '''', AutoDetect = False\<rparr>)"

section \<open>Domains\<close>

text \<open>
  \<open>dnsDomainIs\<close> accepts hosts outside the domain.  The dot in front of the domain is left out when the host begins
  with the domain, and then any host that also ends with its letters is taken for a member.
\<close>

theorem dnsDomainIs_unrelated:
  "dnsDomainIs U ''corp.example.notcorp.example'' ''corp.example''
    \<and> \<not> HasSuffix ''corp.example.notcorp.example'' ''.corp.example''"
  by (simp add: dnsDomainIs_def ToLower_def ascii_def lower_char_def HasSuffix_def)

end
