(* ===== verification/PacResolver.thy ===== *)
theory PacResolver
  imports PacEngine "HOL-Library.AList"
begin

text \<open>
  The routing resolver, \<open>internal/pac/resolver.go\<close>: configuration, decision cache and the choice between a direct
  connection and an upstream proxy.  The evaluation session is an interface of the source (\<open>pacSession\<close>, with
  \<open>createPACSession\<close> and \<open>detectOSProxy\<close> per platform), here the record \<open>backend\<close>; what the resolver relies on is the
  locale \<open>pac_backend\<close>, and the Linux session of the theory \<open>PacEngine\<close> is shown to provide it.
\<close>

section \<open>State\<close>

record 's backend =
  pb_create :: "string \<Rightarrow> string + 's"
  pb_get :: "string \<Rightarrow> string \<Rightarrow> 's \<Rightarrow> 's \<times> pac_answer"
  pb_close :: "'s \<Rightarrow> 's"
  pb_detect :: "osProxyConfig option"

record cachedEntry =
  ce_decision :: ProxyDecision
  ce_expiresAt :: int

record 's Resolver =
  rs_pacURL :: string
  rs_staticProxy :: string
  rs_isPACMode :: bool
  rs_session :: "'s option"
  rs_cache :: "(string \<times> cachedEntry) list"
  rs_cacheSize :: int
  rs_stopped :: bool

definition maxCacheEntries :: int where
  "maxCacheEntries = 2000"

definition cacheTTL :: int where
  "cacheTTL = 600 * second"

section \<open>Reading proxy strings\<close>

fun first_option :: "unicode \<Rightarrow> string list \<Rightarrow> string" where
  "first_option U [] = ''''"
| "first_option U (opt # rest) =
     (let opt = TrimSpace U opt; parts = Fields U opt
      in if opt = '''' \<or> length parts = 0 then first_option U rest
         else
           let schemeType = ToUpper U (parts ! 0)
           in if schemeType = ''DIRECT'' then ''DIRECT''
              else if length parts \<ge> 2 \<and> schemeType \<in> set proxy_types then entry_url schemeType (parts ! 1)
              else opt)"

definition parseFirstProxy :: "unicode \<Rightarrow> string \<Rightarrow> string" where
  "parseFirstProxy U proxyList = first_option U (Split proxyList CHR '';'')"

definition normalizeProxyURL :: "unicode \<Rightarrow> urls \<Rightarrow> string \<Rightarrow> string" where
  "normalizeProxyURL U L p =
     (let p = TrimSpace U p
      in if \<not> Contains p ''://'' then ''http://'' @ p
         else if \<not> url_ok L p then ''http://'' @ p
         else url_string L p)"

section \<open>Configuration\<close>

text \<open>A static proxy that is a PAC file in disguise.\<close>

definition auto_pac :: "unicode \<Rightarrow> string \<Rightarrow> string \<Rightarrow> string \<times> string" where
  "auto_pac U pacURL staticProxy =
     (if pacURL = '''' \<and> staticProxy \<noteq> '''' then
        let lower = ToLower U staticProxy
        in if HasSuffix lower ''.pac'' \<or> HasSuffix lower ''.dat'' \<or> HasPrefix lower ''pac+''
           then (TrimPrefix staticProxy ''pac+'', '''') else (pacURL, staticProxy)
      else (pacURL, staticProxy))"

definition applyOSProxyConfig :: "osProxyConfig option \<Rightarrow> 's Resolver \<Rightarrow> 's Resolver" where
  "applyOSProxyConfig detected r =
     (case detected of
        None \<Rightarrow> r
      | Some cfg \<Rightarrow>
          if AutoConfigURL cfg \<noteq> '''' then r\<lparr>rs_pacURL := AutoConfigURL cfg, rs_isPACMode := True\<rparr>
          else if os_Proxy cfg \<noteq> '''' then r\<lparr>rs_staticProxy := os_Proxy cfg, rs_isPACMode := False\<rparr>
          else r)"

definition choose_mode :: "'s backend \<Rightarrow> 's Resolver \<Rightarrow> 's Resolver" where
  "choose_mode B r =
     (if rs_pacURL r = '''' \<and> rs_staticProxy r = '''' then applyOSProxyConfig (pb_detect B) r
      else if rs_pacURL r \<noteq> '''' then r\<lparr>rs_isPACMode := True\<rparr>
      else r)"

definition NewResolver :: "unicode \<Rightarrow> 's backend \<Rightarrow> string \<Rightarrow> string \<Rightarrow> string + 's Resolver" where
  "NewResolver U B pacURL staticProxy =
     (let (pac, static) = auto_pac U (TrimSpace U pacURL) (TrimSpace U staticProxy);
          r = choose_mode B \<lparr>rs_pacURL = pac, rs_staticProxy = static, rs_isPACMode = False, rs_session = None,
                rs_cache = [], rs_cacheSize = 0, rs_stopped = False\<rparr>
      in if rs_isPACMode r then
           (case pb_create B ''tproxy-pac/1.0'' of
              Inl err \<Rightarrow> Inl (''failed to initialize PAC session: '' @ err)
            | Inr session \<Rightarrow> Inr (r\<lparr>rs_session := Some session\<rparr>))
         else Inr r)"

definition pac_UpdateConfig :: "unicode \<Rightarrow> 's backend \<Rightarrow> string \<Rightarrow> string \<Rightarrow> 's Resolver \<Rightarrow> 's Resolver" where
  "pac_UpdateConfig U B pacURL staticProxy r =
     (let (pac, static) = auto_pac U (TrimSpace U pacURL) (TrimSpace U staticProxy);
          r = choose_mode B (r\<lparr>rs_pacURL := pac, rs_staticProxy := static, rs_isPACMode := False\<rparr>);
          r = r\<lparr>rs_cache := [], rs_cacheSize := 0\<rparr>
      in if rs_isPACMode r then
           (case rs_session r of
              Some _ \<Rightarrow> r
            | None \<Rightarrow>
                (case pb_create B ''tproxy-pac/1.0'' of
                   Inl err \<Rightarrow> r
                 | Inr session \<Rightarrow> r\<lparr>rs_session := Some session\<rparr>))
         else r\<lparr>rs_session := None\<rparr>)"

section \<open>Resolution\<close>

definition storeCache :: "string \<Rightarrow> cachedEntry \<Rightarrow> 's Resolver \<Rightarrow> 's Resolver" where
  "storeCache targetURL entry r =
     (if map_of (rs_cache r) targetURL = None then
        let r = r\<lparr>rs_cache := AList.update targetURL entry (rs_cache r), rs_cacheSize := rs_cacheSize r + 1\<rparr>
        in if rs_cacheSize r > maxCacheEntries then
             let r = r\<lparr>rs_cache := [], rs_cacheSize := 0\<rparr>
             in r\<lparr>rs_cache := AList.update targetURL entry (rs_cache r), rs_cacheSize := rs_cacheSize r + 1\<rparr>
           else r
      else r\<lparr>rs_cache := AList.update targetURL entry (rs_cache r)\<rparr>)"

definition static_decision :: "unicode \<Rightarrow> urls \<Rightarrow> string \<Rightarrow> ProxyDecision" where
  "static_decision U L staticProxy =
     (if staticProxy \<noteq> '''' then via (normalizeProxyURL U L staticProxy) else direct)"

definition target_url :: "string \<Rightarrow> uint16 \<Rightarrow> string" where
  "target_url targetHost targetPort =
     (let scheme = (if targetPort = 80 then ''http'' else ''https'');
          hostOnly = (case SplitHostPort targetHost of Some (h, _) \<Rightarrow> h | None \<Rightarrow> targetHost)
      in scheme @ ''://'' @ JoinHostPort hostOnly (Itoa (unat targetPort)))"

definition list_decision :: "unicode \<Rightarrow> urls \<Rightarrow> bool \<Rightarrow> string \<Rightarrow> ProxyDecision" where
  "list_decision U L isDirect rawProxyList =
     (if isDirect \<or> rawProxyList = '''' then direct
      else let firstProxy = parseFirstProxy U rawProxyList
           in if firstProxy = '''' \<or> EqualFold U firstProxy ''DIRECT'' then direct
              else via (normalizeProxyURL U L firstProxy))"

text \<open>The part of \<open>Resolve\<close> after a miss: evaluation, decision and the new cache entry.\<close>

definition resolve_fresh ::
  "unicode \<Rightarrow> urls \<Rightarrow> 's backend \<Rightarrow> int \<Rightarrow> string \<Rightarrow> 's \<Rightarrow> 's Resolver \<Rightarrow> 's Resolver \<times> ProxyDecision" where
  "resolve_fresh U L B now targetURL session r =
     (case pb_get B targetURL (rs_pacURL r) session of
        (session, isDirect, rawProxyList, err) \<Rightarrow>
          let r = r\<lparr>rs_session := Some session\<rparr>
          in if err \<noteq> None then
               let fallbackDecision = static_decision U L (rs_staticProxy r)
               in (storeCache targetURL \<lparr>ce_decision = fallbackDecision, ce_expiresAt = now + 60 * second\<rparr> r, fallbackDecision)
             else
               let decision = list_decision U L isDirect rawProxyList
               in (storeCache targetURL \<lparr>ce_decision = decision, ce_expiresAt = now + cacheTTL\<rparr> r, decision))"

definition Resolve ::
  "unicode \<Rightarrow> urls \<Rightarrow> 's backend \<Rightarrow> int \<Rightarrow> string \<Rightarrow> uint16 \<Rightarrow> 's Resolver \<Rightarrow> 's Resolver \<times> ProxyDecision" where
  "Resolve U L B now targetHost targetPort r =
     (if \<not> rs_isPACMode r then (r, static_decision U L (rs_staticProxy r))
      else case rs_session r of
        None \<Rightarrow> (r, static_decision U L (rs_staticProxy r))
      | Some session \<Rightarrow>
          let targetURL = target_url targetHost targetPort
          in case map_of (rs_cache r) targetURL of
               Some entry \<Rightarrow>
                 if now < ce_expiresAt entry then (r, ce_decision entry)
                 else resolve_fresh U L B now targetURL session r
             | None \<Rightarrow> resolve_fresh U L B now targetURL session r)"

definition ResolveRouting ::
  "unicode \<Rightarrow> urls \<Rightarrow> 's backend \<Rightarrow> int \<Rightarrow> string \<Rightarrow> uint16 \<Rightarrow> 's Resolver \<Rightarrow> 's Resolver \<times> bool \<times> string" where
  "ResolveRouting U L B now targetHost targetPort r =
     (case Resolve U L B now targetHost targetPort r of (r, d) \<Rightarrow> (r, IsDirect d, ProxyURL d))"

text \<open>One tick of \<open>cacheCleanupLoop\<close>.\<close>

definition cacheCleanup :: "int \<Rightarrow> 's Resolver \<Rightarrow> 's Resolver" where
  "cacheCleanup now r =
     (let old = filter (\<lambda>(k, entry). now > ce_expiresAt entry) (rs_cache r);
          keep = filter (\<lambda>(k, entry). \<not> now > ce_expiresAt entry) (rs_cache r)
      in if rs_stopped r then r
         else r\<lparr>rs_cache := keep, rs_cacheSize := rs_cacheSize r - int (length old)\<rparr>)"

definition pac_Close :: "'s Resolver \<Rightarrow> 's Resolver" where
  "pac_Close r = r\<lparr>rs_stopped := True, rs_session := None\<rparr>"

section \<open>Operations in sequence\<close>

datatype pac_op = OpResolve int string uint16 | OpUpdate string string | OpCleanup int | OpClose

fun pac_step :: "unicode \<Rightarrow> urls \<Rightarrow> 's backend \<Rightarrow> pac_op \<Rightarrow> 's Resolver \<Rightarrow> 's Resolver" where
  "pac_step U L B (OpResolve now host port) r = fst (Resolve U L B now host port r)"
| "pac_step U L B (OpUpdate p q) r = pac_UpdateConfig U B p q r"
| "pac_step U L B (OpCleanup now) r = cacheCleanup now r"
| "pac_step U L B OpClose r = pac_Close r"

section \<open>The cache\<close>

text \<open>The counter counts the entries, and there are never more than the limit.\<close>

definition cache_ok :: "'s Resolver \<Rightarrow> bool" where
  "cache_ok r \<longleftrightarrow> distinct (map fst (rs_cache r)) \<and> rs_cacheSize r = int (length (rs_cache r))
     \<and> rs_cacheSize r \<le> maxCacheEntries"

lemma update_new: "map_of al k = None \<Longrightarrow> AList.update k v al = al @ [(k, v)]"
  by (induction al) (auto split: if_splits)

lemma length_update_old: "map_of al k \<noteq> None \<Longrightarrow> length (AList.update k v al) = length al"
  by (induction al) (auto split: if_splits)

lemma storeCache_ok: "cache_ok r \<Longrightarrow> cache_ok (storeCache u e r)"
  by (auto simp: cache_ok_def storeCache_def Let_def update_new length_update_old distinct_update maxCacheEntries_def
      map_of_eq_None_iff)

lemma cacheCleanup_ok: "cache_ok r \<Longrightarrow> cache_ok (cacheCleanup now r)"
proof -
  assume r: "cache_ok r"
  let ?old = "\<lambda>(k, entry). now > ce_expiresAt entry" and ?c = "rs_cache r"
  have "int (length (filter (\<lambda>(k, e). \<not> now > ce_expiresAt e) ?c)) = int (length ?c) - int (length (filter ?old ?c))"
    using sum_length_filter_compl [of ?old ?c] by (simp add: case_prod_beta')
  moreover have "distinct (map fst (filter P ?c))" for P
    using r by (simp add: cache_ok_def distinct_map_filter)
  ultimately show ?thesis
    using r by (auto simp: cache_ok_def cacheCleanup_def Let_def)
qed

lemma map_of_storeCache:
  "map_of (rs_cache (storeCache u e r)) v = Some e' \<Longrightarrow> (v = u \<and> e' = e) \<or> map_of (rs_cache r) v = Some e'"
  by (auto simp: storeCache_def Let_def update_conv' split: if_splits)

lemma storeCache_fields [simp]:
  "rs_pacURL (storeCache u e r) = rs_pacURL r" "rs_staticProxy (storeCache u e r) = rs_staticProxy r"
  "rs_isPACMode (storeCache u e r) = rs_isPACMode r" "rs_session (storeCache u e r) = rs_session r"
  by (simp_all add: storeCache_def Let_def)

section \<open>What the resolver relies on\<close>

text \<open>
  A session is as good as a function from script and destination to an answer: its state (the scripts it has loaded) makes
  no difference to the answers, as long as the scripts themselves do not change.  With such a function, \<open>decide\<close> is the decision for
  a destination, and \<open>uncached\<close> what a resolver without a cache would return.
\<close>

definition decide :: "(string \<Rightarrow> string \<Rightarrow> pac_answer) \<Rightarrow> unicode \<Rightarrow> urls \<Rightarrow> string \<Rightarrow> string \<Rightarrow> string \<Rightarrow> ProxyDecision" where
  "decide answer U L pac static u =
     (case answer pac u of (isDirect, raw, err) \<Rightarrow>
        if err \<noteq> None then static_decision U L static else list_decision U L isDirect raw)"

definition uncached ::
  "(string \<Rightarrow> string \<Rightarrow> pac_answer) \<Rightarrow> unicode \<Rightarrow> urls \<Rightarrow> string \<Rightarrow> uint16 \<Rightarrow> 's Resolver \<Rightarrow> ProxyDecision" where
  "uncached answer U L host port r =
     (if rs_isPACMode r \<and> rs_session r \<noteq> None
      then decide answer U L (rs_pacURL r) (rs_staticProxy r) (target_url host port)
      else static_decision U L (rs_staticProxy r))"

locale pac_backend =
  fixes B :: "'s backend" and sess_ok :: "'s \<Rightarrow> bool" and answer :: "string \<Rightarrow> string \<Rightarrow> pac_answer"
  assumes create_ok: "pb_create B ua = Inr s \<Longrightarrow> sess_ok s"
    and get_ok: "sess_ok s \<Longrightarrow> sess_ok (fst (pb_get B u p s))"
    and get_answer: "sess_ok s \<Longrightarrow> snd (pb_get B u p s) = answer p u"
begin

definition resolver_ok :: "unicode \<Rightarrow> urls \<Rightarrow> 's Resolver \<Rightarrow> bool" where
  "resolver_ok U L r \<longleftrightarrow> cache_ok r \<and> (\<forall>s. rs_session r = Some s \<longrightarrow> sess_ok s)
     \<and> (\<forall>u e. map_of (rs_cache r) u = Some e \<longrightarrow> ce_decision e = decide answer U L (rs_pacURL r) (rs_staticProxy r) u)"

lemma store_ok:
  assumes "resolver_ok U L r" "sess_ok s" "ce_decision e = decide answer U L (rs_pacURL r) (rs_staticProxy r) u"
  shows "resolver_ok U L (storeCache u e (r\<lparr>rs_session := Some s\<rparr>))"
proof -
  have "cache_ok (r\<lparr>rs_session := Some s\<rparr>)"
    using assms(1) by (simp add: resolver_ok_def cache_ok_def)
  then show ?thesis
    using assms by (auto simp: resolver_ok_def storeCache_ok dest!: map_of_storeCache)
qed

lemma resolve_fresh_spec:
  assumes "resolver_ok U L r" "rs_session r = Some s"
  shows "snd (resolve_fresh U L B now u s r) = decide answer U L (rs_pacURL r) (rs_staticProxy r) u"
    and "resolver_ok U L (fst (resolve_fresh U L B now u s r))"
proof -
  obtain s' d raw err where g: "pb_get B u (rs_pacURL r) s = (s', d, raw, err)"
    using prod_cases4 by blast
  have s: "sess_ok s'" and a: "answer (rs_pacURL r) u = (d, raw, err)"
    using assms get_ok [of s u "rs_pacURL r"] get_answer [of s u "rs_pacURL r"] g by (auto simp: resolver_ok_def)
  then show "snd (resolve_fresh U L B now u s r) = decide answer U L (rs_pacURL r) (rs_staticProxy r) u"
    by (simp add: resolve_fresh_def g decide_def Let_def)
  show "resolver_ok U L (fst (resolve_fresh U L B now u s r))"
    using store_ok [OF assms(1) s] a by (simp add: resolve_fresh_def g decide_def Let_def)
qed

lemma Resolve_spec:
  assumes "resolver_ok U L r"
  shows "snd (Resolve U L B now host port r) = uncached answer U L host port r"
    and "resolver_ok U L (fst (Resolve U L B now host port r))"
  using assms resolve_fresh_spec [OF assms]
  by (auto simp: Resolve_def uncached_def resolver_ok_def Let_def split: option.splits)

lemma update_ok: "resolver_ok U L r \<Longrightarrow> resolver_ok U L (pac_UpdateConfig U' B p q r)"
  using create_ok
  by (auto simp: resolver_ok_def pac_UpdateConfig_def cache_ok_def maxCacheEntries_def choose_mode_def applyOSProxyConfig_def
      Let_def split: prod.splits option.splits sum.splits if_splits)

lemma new_ok: "NewResolver U' B p q = Inr r \<Longrightarrow> resolver_ok U L r"
  using create_ok
  by (auto simp: resolver_ok_def NewResolver_def cache_ok_def maxCacheEntries_def choose_mode_def applyOSProxyConfig_def
      Let_def split: prod.splits option.splits sum.splits if_splits)

lemma cleanup_ok: "resolver_ok U L r \<Longrightarrow> resolver_ok U L (cacheCleanup now r)"
proof -
  assume r: "resolver_ok U L r"
  then have "map_of (filter P (rs_cache r)) u = Some e \<Longrightarrow> map_of (rs_cache r) u = Some e" for P u e
    by (auto simp: resolver_ok_def cache_ok_def map_of_eq_Some_iff distinct_map_filter)
  with r show ?thesis
    using cacheCleanup_ok [of r now] by (auto simp: resolver_ok_def cacheCleanup_def Let_def)
qed

lemma close_ok: "resolver_ok U L r \<Longrightarrow> resolver_ok U L (pac_Close r)"
  by (simp add: resolver_ok_def pac_Close_def cache_ok_def)

lemma step_ok: "resolver_ok U L r \<Longrightarrow> resolver_ok U L (pac_step U L B op r)"
  by (cases op) (simp_all add: Resolve_spec update_ok cleanup_ok close_ok)

lemma run_ok: "resolver_ok U L r \<Longrightarrow> resolver_ok U L (fold (pac_step U L B) ops r)"
  by (induction ops arbitrary: r) (simp_all add: step_ok)

end

section \<open>The Linux session provides it\<close>

definition linux_backend :: "unicode \<Rightarrow> urls \<Rightarrow> goja \<Rightarrow> pac_source \<Rightarrow> (string \<Rightarrow> string) \<Rightarrow> linuxPACSession backend" where
  "linux_backend U L G N env =
     \<lparr>pb_create = (\<lambda>ua. Inr (createPACSession ua)), pb_get = GetProxyForURL U L G N, pb_close = session_Close,
      pb_detect = Some (detectOSProxy U env)\<rparr>"

text \<open>Every engine of the session is the one its script gives.\<close>

definition linux_ok :: "goja \<Rightarrow> pac_source \<Rightarrow> linuxPACSession \<Rightarrow> bool" where
  "linux_ok G N s \<longleftrightarrow> (\<forall>p e. ls_engines s p = Some e \<longrightarrow>
     (\<exists>script. fetchPACScript N p = Inr script \<and> NewJSEngine G script = Inr e))"

definition linux_answer :: "unicode \<Rightarrow> urls \<Rightarrow> goja \<Rightarrow> pac_source \<Rightarrow> string \<Rightarrow> string \<Rightarrow> pac_answer" where
  "linux_answer U L G N p u = snd (GetProxyForURL U L G N u p (createPACSession ''''))"

lemma getOrLoadEngine_pure:
  assumes "linux_ok G N s"
  shows "snd (getOrLoadEngine G N p s) = snd (getOrLoadEngine G N p (createPACSession ua))"
    and "linux_ok G N (fst (getOrLoadEngine G N p s))"
proof -
  have known: "\<exists>script. fetchPACScript N p = Inr script \<and> NewJSEngine G script = Inr e" if "ls_engines s p = Some e" for e
    using assms that by (simp add: linux_ok_def)
  show "snd (getOrLoadEngine G N p s) = snd (getOrLoadEngine G N p (createPACSession ua))"
    using known by (cases "ls_engines s p")
      (auto simp: getOrLoadEngine_def createPACSession_def split: sum.splits)
  show "linux_ok G N (fst (getOrLoadEngine G N p s))"
    using assms by (auto simp: getOrLoadEngine_def linux_ok_def split: option.splits sum.splits)
qed

lemma GetProxyForURL_split:
  "GetProxyForURL U L G N u p s =
     (if p = '''' then (s, True, ''DIRECT'', None)
      else (fst (getOrLoadEngine G N p s),
        case snd (getOrLoadEngine G N p s) of
          Inl err \<Rightarrow> (True, ''DIRECT'', Some (''failed to load PAC script from '' @ p @ '': '' @ err))
        | Inr engine \<Rightarrow>
            (case FindProxyForURL G engine u (pac_host L u) of
               Inl err \<Rightarrow> (True, ''DIRECT'', Some (''FindProxyForURL evaluation error: '' @ err))
             | Inr rawResult \<Rightarrow>
                 (let decision = ParsePACResult U L rawResult
                  in if IsDirect decision then (True, ''DIRECT'', None) else (False, ProxyURL decision, None)))))"
  by (auto simp: GetProxyForURL_def Let_def split: prod.splits sum.splits)

interpretation linux: pac_backend "linux_backend U L G N env" "linux_ok G N" "linux_answer U L G N" for U L G N env
proof
  fix ua s u p
  show "pb_create (linux_backend U L G N env) ua = Inr s \<Longrightarrow> linux_ok G N s"
    by (auto simp: linux_backend_def createPACSession_def linux_ok_def)
  assume s: "linux_ok G N s"
  then show "linux_ok G N (fst (pb_get (linux_backend U L G N env) u p s))"
    using getOrLoadEngine_pure(2) [OF s] by (simp add: linux_backend_def GetProxyForURL_split)
  show "snd (pb_get (linux_backend U L G N env) u p s) = linux_answer U L G N p u"
    using getOrLoadEngine_pure(1) [OF s, of p "''''"]
    by (simp add: linux_backend_def linux_answer_def GetProxyForURL_split)
qed


definition sample_urls :: urls where
  "sample_urls = \<lparr>url_ok = (\<lambda>_. True), url_string = id, url_Hostname = (\<lambda>_. ''h''), url_Host = (\<lambda>_. ''h'')\<rparr>"

definition sample_goja :: goja where
  "sample_goja = \<lparr>gj_Compile = (\<lambda>_. None), gj_RunProgram = (\<lambda>_. True), gj_Get = (\<lambda>_. Callable),
     gj_call = (\<lambda>_ _ _. Returned ''PROXY proxy:8080; DIRECT'')\<rparr>"

definition sample_source :: pac_source where
  "sample_source = \<lparr>ps_http = (\<lambda>_. Some (200, ''script'')), ps_file = (\<lambda>_. None)\<rparr>"

definition sample_backend :: "linuxPACSession backend" where
  "sample_backend = linux_backend plain_unicode sample_urls sample_goja sample_source (\<lambda>_. '''')"

definition sample_resolver :: "linuxPACSession Resolver" where
  "sample_resolver = (case NewResolver plain_unicode sample_backend ''http://wpad/p.pac'' '''' of Inr r \<Rightarrow> r)"


end
