(* ===== verification/ServerParts.thy ===== *)
theory ServerParts
  imports GoNet ConfigManager Sessions
begin

text \<open>
  The parts of the proxy server, \<open>internal/proxy/server.go\<close>, that need no connection: the choice of the listening port, the
  lists of well-known services, and the check that an explicit proxy client is local, with its cache of interfaces.
\<close>

section \<open>The listening port\<close>

definition maxFallbackAttempts :: nat where
  "maxFallbackAttempts = 100"

text \<open>
  \<open>listen\<close> is \<open>net.Listen("tcp", addr)\<close>: \<open>None\<close> an error, else the port of the listener's own address.  The loop over the
  offsets; the result is the port of the listener.
\<close>

fun fallback_ports :: "(string \<Rightarrow> int option) \<Rightarrow> string \<Rightarrow> int \<Rightarrow> nat list \<Rightarrow> uint16 option" where
  "fallback_ports listen bindHost preferredPort [] = None"
| "fallback_ports listen bindHost preferredPort (offset # offsets) =
     (let candidatePort = preferredPort + int offset;
          candidatePort = (if candidatePort > 65535 then 18000 + int offset else candidatePort)
      in if candidatePort \<ge> uint OutboundPortMin \<and> candidatePort \<le> uint OutboundPortMax
         then fallback_ports listen bindHost preferredPort offsets
         else if listen (JoinHostPort bindHost (Itoa (nat candidatePort))) \<noteq> None then Some (word_of_int candidatePort)
         else fallback_ports listen bindHost preferredPort offsets)"

definition preferred_port :: "string \<Rightarrow> int" where
  "preferred_port portStr =
     (case Atoi portStr of Some p \<Rightarrow> if p \<ge> 0 \<and> p \<le> 65535 then p else 18080 | None \<Rightarrow> 18080)"

definition AcquireListener :: "(string \<Rightarrow> int option) \<Rightarrow> string \<Rightarrow> uint16 option" where
  "AcquireListener listen preferredAddr =
     (let (listenHost, portStr) = (case SplitHostPort preferredAddr of Some hp \<Rightarrow> hp | None \<Rightarrow> ('''', ''18080''));
          preferredPort = preferred_port portStr;
          bindHost = (if listenHost \<noteq> '''' \<and> listenHost \<noteq> ''127.0.0.1'' \<and> listenHost \<noteq> ''0.0.0.0'' \<and> listenHost \<noteq> ''localhost''
                      then listenHost else '''')
      in case listen (JoinHostPort bindHost (Itoa (nat preferredPort))) of
           Some port \<Rightarrow>
             (let actualPort = (word_of_int preferredPort :: uint16)
              in Some (if actualPort = 0 then word_of_int port else actualPort))
         | None \<Rightarrow> fallback_ports listen bindHost preferredPort [1..<maxFallbackAttempts + 1])"

section \<open>Well-known services\<close>

definition isServerFirstPort :: "uint16 \<Rightarrow> bool" where
  "isServerFirstPort port =
     (port \<in> {21, 22, 23, 25, 110, 143, 587, 993, 995, 1433, 1521, 3306, 3389, 5432, 5900, 6379, 27017})"

definition isInteractiveService :: "unicode \<Rightarrow> string \<Rightarrow> uint16 \<Rightarrow> string \<Rightarrow> bool" where
  "isInteractiveService U protoType port domain =
     (if protoType \<in> {''RDP'', ''SSH'', ''VNC''} then True
      else if port \<in> {22, 23, 3389, 5900, 5901, 5938, 7070, 1433, 1521, 3306, 5432, 6379, 27017} then True
      else if domain \<noteq> '''' then
        list_ex (Contains (ToLower U domain))
          [''remotedesktop'', ''wvd.microsoft.com'', ''anydesk.com'', ''teamviewer.com'', ''splashtop.com'', ''logmein.com'']
      else False)"

section \<open>Local clients\<close>

record iface =
  if_Name :: string
  if_Addrs :: "IPNet list option"

record iface_cache =
  localIPsCache :: "netIP list"
  localSubnetsCache :: "IPNet list"
  lastCacheUpdate :: int

definition virtual_wsl :: "unicode \<Rightarrow> string \<Rightarrow> bool" where
  "virtual_wsl U name = list_ex (Contains (ToLower U name)) [''wsl'', ''hyper-v'', ''vethernet'']"

definition iface_nets :: "iface \<Rightarrow> IPNet list" where
  "iface_nets i = (case if_Addrs i of Some addrs \<Rightarrow> addrs | None \<Rightarrow> [])"

definition updateLocalInterfaceCache :: "unicode \<Rightarrow> int \<Rightarrow> iface list option \<Rightarrow> iface_cache \<Rightarrow> iface_cache" where
  "updateLocalInterfaceCache U now ifaces c =
     (if now - lastCacheUpdate c < 30 * second \<and> (length (localIPsCache c) > 0 \<or> length (localSubnetsCache c) > 0) then c
      else case ifaces of
        None \<Rightarrow> c
      | Some ifs \<Rightarrow>
          \<lparr>localIPsCache = concat (map (\<lambda>i. map net_ip (iface_nets i)) ifs),
           localSubnetsCache = concat (map (\<lambda>i. if virtual_wsl U (if_Name i) then iface_nets i else []) ifs),
           lastCacheUpdate = now\<rparr>)"

text \<open>\<open>net.Addr.String\<close> of a TCP or UDP address.\<close>

definition addr_string :: "net_addr \<Rightarrow> string" where
  "addr_string a =
     (case a of
        TCPAddr ip port \<Rightarrow> JoinHostPort (if ip = [] then '''' else IP_String ip) (Itoa (nat port))
      | UDPAddr ip port \<Rightarrow> JoinHostPort (if ip = [] then '''' else IP_String ip) (Itoa (nat port))
      | OtherAddr \<Rightarrow> '''')"

definition isAuthorizedLocalClient ::
  "unicode \<Rightarrow> int \<Rightarrow> iface list option \<Rightarrow> string \<Rightarrow> iface_cache \<Rightarrow> iface_cache \<times> bool" where
  "isAuthorizedLocalClient U now ifaces remoteAddr c =
     (let host = (case SplitHostPort remoteAddr of Some (h, _) \<Rightarrow> h | None \<Rightarrow> remoteAddr)
      in case ParseIP host of
           None \<Rightarrow> (c, False)
         | Some ip \<Rightarrow>
             if IsLoopback ip then (c, True)
             else
               let c = updateLocalInterfaceCache U now ifaces c
               in (c, list_ex (\<lambda>localIP. IP_Equal localIP ip) (localIPsCache c)
                      \<or> list_ex (\<lambda>subnet. IPNet_Contains subnet ip) (localSubnetsCache c)))"

section \<open>The port that is found\<close>

definition reserved :: "uint16 \<Rightarrow> bool" where
  "reserved port \<longleftrightarrow> OutboundPortMin \<le> port \<and> port \<le> OutboundPortMax"

text \<open>The port that an offset stands for.\<close>

definition candidate :: "int \<Rightarrow> nat \<Rightarrow> int" where
  "candidate p offset = (if p + int offset > 65535 then 18000 + int offset else p + int offset)"

lemma fallback_ports_Cons:
  "fallback_ports listen h p (offset # offsets) =
     (if uint OutboundPortMin \<le> candidate p offset \<and> candidate p offset \<le> uint OutboundPortMax
         \<or> listen (JoinHostPort h (Itoa (nat (candidate p offset)))) = None
      then fallback_ports listen h p offsets else Some (word_of_int (candidate p offset)))"
  by (simp add: candidate_def Let_def)

declare fallback_ports.simps(2) [simp del]

lemma candidate_port:
  assumes "0 \<le> p" "p \<le> 65535" "offset \<in> {1..100}"
  shows "unat (word_of_int (candidate p offset) :: uint16) = nat (candidate p offset)"
    "uint (word_of_int (candidate p offset) :: uint16) = candidate p offset" "0 < candidate p offset"
proof -
  have "0 < candidate p offset" "candidate p offset \<le> 65535"
    using assms by (auto simp: candidate_def)
  then show "0 < candidate p offset" "uint (word_of_int (candidate p offset) :: uint16) = candidate p offset"
    by (simp_all add: uint_word_of_int)
  then show "unat (word_of_int (candidate p offset) :: uint16) = nat (candidate p offset)"
    by (simp add: unat_eq_nat_uint)
qed

lemma fallback_ports_found:
  assumes "fallback_ports listen h p offsets = Some port" "0 \<le> p" "p \<le> 65535" "set offsets \<subseteq> {1..100}"
  shows "port \<noteq> 0 \<and> \<not> reserved port \<and> listen (JoinHostPort h (Itoa (unat port))) \<noteq> None"
  using assms
proof (induction offsets)
  case (Cons offset offsets)
  let ?c = "candidate p offset"
  show ?case
  proof (cases "uint OutboundPortMin \<le> ?c \<and> ?c \<le> uint OutboundPortMax \<or> listen (JoinHostPort h (Itoa (nat ?c))) = None")
    case True
    with Cons show ?thesis
      by (simp add: fallback_ports_Cons)
  next
    case False
    with Cons.prems(1) have port: "port = word_of_int ?c"
      by (simp add: fallback_ports_Cons split: if_splits)
    have c: "unat port = nat ?c" "uint port = ?c" "0 < ?c"
      using candidate_port [of p offset] Cons.prems(2-4) unfolding port by auto
    then have "port \<noteq> 0"
      by auto
    with False c show ?thesis
      by (auto simp: word_le_def reserved_def)
  qed
qed simp

lemma fallback_ports_none:
  assumes "fallback_ports listen h p offsets = None" "offset \<in> set offsets"
  shows "(uint OutboundPortMin \<le> candidate p offset \<and> candidate p offset \<le> uint OutboundPortMax)
    \<or> listen (JoinHostPort h (Itoa (nat (candidate p offset)))) = None"
  using assms by (induction offsets) (auto simp: fallback_ports_Cons split: if_splits)

lemma preferred_port_range: "0 \<le> preferred_port s \<and> preferred_port s \<le> 65535"
  by (auto simp: preferred_port_def split: option.splits)

text \<open>Host and preferred port of a configured address.\<close>

definition listen_host :: "string \<Rightarrow> string" where
  "listen_host addr =
     (case SplitHostPort addr of
        Some (h, _) \<Rightarrow> if h \<noteq> '''' \<and> h \<noteq> ''127.0.0.1'' \<and> h \<noteq> ''0.0.0.0'' \<and> h \<noteq> ''localhost'' then h else ''''
      | None \<Rightarrow> '''')"

definition listen_port :: "string \<Rightarrow> int" where
  "listen_port addr = preferred_port (case SplitHostPort addr of Some (_, p) \<Rightarrow> p | None \<Rightarrow> ''18080'')"

lemma AcquireListener_eq:
  "AcquireListener listen addr =
     (case listen (JoinHostPort (listen_host addr) (Itoa (nat (listen_port addr)))) of
        Some port \<Rightarrow> Some (if (word_of_int (listen_port addr) :: uint16) = 0 then word_of_int port else word_of_int (listen_port addr))
      | None \<Rightarrow> fallback_ports listen (listen_host addr) (listen_port addr) [1..<maxFallbackAttempts + 1])"
  by (auto simp: AcquireListener_def listen_host_def listen_port_def Let_def split: option.splits prod.splits)

text \<open>
  The search for a listening port.  The configured port is taken if it can be bound.  Otherwise a port is found whenever
  one of the hundred candidates outside the range of outbound ports can be bound; it is then a port that has been bound, it
  is not zero and not in that range, also where the search wraps around at 65535.
\<close>

theorem listener_port_search:
  assumes "listen (JoinHostPort (listen_host addr) (Itoa (nat (listen_port addr)))) = None"
  shows "case AcquireListener listen addr of
      Some port \<Rightarrow> port \<noteq> 0 \<and> \<not> reserved port \<and> listen (JoinHostPort (listen_host addr) (Itoa (unat port))) \<noteq> None
    | None \<Rightarrow> \<forall>offset \<in> {1..100}. reserved (word_of_int (candidate (listen_port addr) offset))
        \<or> listen (JoinHostPort (listen_host addr) (Itoa (nat (candidate (listen_port addr) offset)))) = None"
proof -
  have r: "0 \<le> listen_port addr" "listen_port addr \<le> 65535"
    using preferred_port_range by (auto simp: listen_port_def)
  have eq: "AcquireListener listen addr = fallback_ports listen (listen_host addr) (listen_port addr) [1..<101]"
    using assms by (simp add: AcquireListener_eq maxFallbackAttempts_def)
  show ?thesis
  proof (cases "AcquireListener listen addr")
    case None
    have "reserved (word_of_int (candidate (listen_port addr) offset))
        \<or> listen (JoinHostPort (listen_host addr) (Itoa (nat (candidate (listen_port addr) offset)))) = None"
      if "offset \<in> {1..100}" for offset
      using fallback_ports_none [of listen "listen_host addr" "listen_port addr" "[1..<101]" offset] None that
        candidate_port [OF r that]
      unfolding eq by (auto simp: reserved_def word_le_def)
    with None show ?thesis
      by simp
  next
    case (Some port)
    have "set [1..<101] \<subseteq> {1..100 :: nat}"
      by auto
    with Some fallback_ports_found [of listen "listen_host addr" "listen_port addr" "[1..<101]" port] r show ?thesis
      unfolding eq by auto
  qed
qed

theorem listener_port_search_witness:
  "case AcquireListener (\<lambda>a. if a = '':83'' then Some 83 else None) '':80'' of
      Some port \<Rightarrow> port \<noteq> 0 \<and> \<not> reserved port
        \<and> (if JoinHostPort (listen_host '':80'') (Itoa (unat port)) = '':83'' then Some 83 else None) \<noteq> (None :: int option)
    | None \<Rightarrow> \<forall>offset \<in> {1..100}. reserved (word_of_int (candidate (listen_port '':80'') offset))
        \<or> (if JoinHostPort (listen_host '':80'') (Itoa (nat (candidate (listen_port '':80'') offset))) = '':83''
            then Some 83 else None) = (None :: int option)"
proof -
  have "(if JoinHostPort (listen_host '':80'') (Itoa (nat (listen_port '':80''))) = '':83'' then Some 83 else None) = (None :: int option)"
    by code_simp
  then show ?thesis
    by (rule listener_port_search)
qed

end
