(* ===== verification/Logger.thy ===== *)
theory Logger
  imports GoStrings
begin

text \<open>
  The asynchronous log writer, \<open>internal/logger/logger.go\<close>, as a state machine: callers of \<open>Write\<close>, the worker and \<open>Close\<close> run
  concurrently, and a step is what happens between two points where another of them can intervene.  Channels are queues
  with a flag for \<open>close\<close>; the destination of the buffered writer is a list of bytes and accepts all that is written to it.
\<close>

section \<open>The buffered writer\<close>

definition buf_size :: nat where
  "buf_size = 64 * 1024"

text \<open>\<open>bufio.Writer.Write\<close>: what is in the buffer, what has been written out, and the new bytes.\<close>

function buf_write :: "byte list \<Rightarrow> byte list \<Rightarrow> byte list \<Rightarrow> byte list \<times> byte list" where
  "buf_write buf out p =
     (if length p \<le> buf_size - length buf then (buf @ p, out)
      else if buf = [] then ([], out @ p)
      else let n = buf_size - length buf in buf_write [] (out @ buf @ take n p) (drop n p))"
  by pat_completeness auto
termination
  by (relation "measure (\<lambda>(buf, out, p). if buf = [] then 0 else 1)") auto

declare buf_write.simps [simp del]

section \<open>State\<close>

datatype closer = Open | Marked | QueueClosed | Closed

text \<open>Where the worker is: at the select, in \<open>drainQueue\<close> for a flush request or at the end, or returned.\<close>

datatype worker = Selecting | Draining bool | Returned

record AsyncWriter =
  lw_queue :: "byte list list"
  lw_worker :: worker
  lw_file :: bool
  lw_buf :: "byte list"
  lw_out :: "byte list"
  lw_dropped :: nat
  lw_closer :: closer
  lw_pending :: "byte list list"
  lw_panic :: bool

definition queue_cap :: nat where
  "queue_cap = 32768"

definition NewAsyncWriter :: "string \<Rightarrow> bool \<Rightarrow> string + AsyncWriter" where
  "NewAsyncWriter filePath can_open =
     (if filePath \<noteq> '''' \<and> \<not> can_open then Inl ''failed to open log file''
      else Inr \<lparr>lw_queue = [], lw_worker = Selecting, lw_file = (filePath \<noteq> ''''), lw_buf = [], lw_out = [], lw_dropped = 0, lw_closer = Open,
             lw_pending = [], lw_panic = False\<rparr>)"

definition emit :: "byte list \<Rightarrow> AsyncWriter \<Rightarrow> AsyncWriter" where
  "emit msg w = (case buf_write (lw_buf w) (lw_out w) msg of (buf, out) \<Rightarrow> w\<lparr>lw_buf := buf, lw_out := out\<rparr>)"

definition flush :: "AsyncWriter \<Rightarrow> AsyncWriter" where
  "flush w = w\<lparr>lw_buf := [], lw_out := lw_out w @ lw_buf w\<rparr>"

definition notice :: "nat \<Rightarrow> byte list" where
  "notice d = map (\<lambda>c. of_nat (of_char c)) (''[LOGGER] Dropped '' @ Itoa d @ '' log messages due to queue saturation'' @ [CHR 0x0A])"

section \<open>Steps\<close>

text \<open>
  \<open>CallWrite\<close> is the test of \<open>closed\<close> in \<open>Write\<close>, \<open>Send\<close> the select that follows, of one of the callers that are between
  the two.  \<open>Receive\<close>, \<open>Tick\<close>, \<open>FlushRequest\<close> and \<open>Ended\<close> are the branches of the worker's select, \<open>DrainOne\<close> and
  \<open>DrainEnd\<close> the loop of \<open>drainQueue\<close> and what comes after it; the other three are the parts of \<open>Close\<close>.
\<close>

datatype log_event = CallWrite "byte list" | Send nat | Receive | Tick | FlushRequest | Ended | DrainOne | DrainEnd
  | MarkClosed | CloseQueue | CloseFile

definition Write_check :: "byte list \<Rightarrow> AsyncWriter \<Rightarrow> AsyncWriter" where
  "Write_check p w = (if lw_closer w \<noteq> Open then w else w\<lparr>lw_pending := lw_pending w @ [p]\<rparr>)"

definition Write_send :: "nat \<Rightarrow> AsyncWriter \<Rightarrow> AsyncWriter" where
  "Write_send i w =
     (let p = lw_pending w ! i; w = w\<lparr>lw_pending := take i (lw_pending w) @ drop (Suc i) (lw_pending w)\<rparr>
      in if lw_closer w \<in> {QueueClosed, Closed} then w\<lparr>lw_panic := True\<rparr>
         else if length (lw_queue w) < queue_cap then w\<lparr>lw_queue := lw_queue w @ [p]\<rparr>
         else w\<lparr>lw_dropped := lw_dropped w + 1\<rparr>)"

definition worker_receive :: "AsyncWriter \<Rightarrow> AsyncWriter" where
  "worker_receive w =
     (let msg = hd (lw_queue w); w = w\<lparr>lw_queue := tl (lw_queue w)\<rparr>;
          d = lw_dropped w; w = w\<lparr>lw_dropped := 0\<rparr>;
          w = (if d > 0 then emit (notice d) w else w);
          w = emit msg w
      in if length (lw_queue w) = 0 then flush w else w)"

definition drain_one :: "AsyncWriter \<Rightarrow> AsyncWriter" where
  "drain_one w = emit (hd (lw_queue w)) (w\<lparr>lw_queue := tl (lw_queue w)\<rparr>)"

fun log_step :: "log_event \<Rightarrow> AsyncWriter \<Rightarrow> AsyncWriter option" where
  "log_step (CallWrite p) w = Some (Write_check p w)"
| "log_step (Send i) w = (if i < length (lw_pending w) then Some (Write_send i w) else None)"
| "log_step Receive w = (if lw_queue w \<noteq> [] \<and> lw_worker w = Selecting then Some (worker_receive w) else None)"
| "log_step Tick w = (if lw_worker w = Selecting then Some (flush w) else None)"
| "log_step FlushRequest w = (if lw_worker w = Selecting then Some (w\<lparr>lw_worker := Draining False\<rparr>) else None)"
| "log_step Ended w =
     (if lw_queue w = [] \<and> lw_closer w = QueueClosed \<and> lw_worker w = Selecting then Some (w\<lparr>lw_worker := Draining True\<rparr>) else None)"
| "log_step DrainOne w = (if lw_queue w \<noteq> [] \<and> lw_worker w \<in> {Draining False, Draining True} then Some (drain_one w) else None)"
| "log_step DrainEnd w =
     (if lw_queue w = [] then
        (case lw_worker w of
           Draining final \<Rightarrow> Some ((flush w)\<lparr>lw_worker := (if final then Returned else Selecting)\<rparr>)
         | _ \<Rightarrow> None)
      else None)"
| "log_step MarkClosed w = (if lw_closer w = Open then Some (w\<lparr>lw_closer := Marked\<rparr>) else None)"
| "log_step CloseQueue w = (if lw_closer w = Marked then Some (w\<lparr>lw_closer := QueueClosed\<rparr>) else None)"
| "log_step CloseFile w = (if lw_closer w = QueueClosed \<and> lw_worker w = Returned then Some (w\<lparr>lw_closer := Closed, lw_file := False\<rparr>) else None)"

text \<open>What a step does for its caller: the message it has put into the queue, and whether it has dropped one.\<close>

definition accepted :: "log_event \<Rightarrow> AsyncWriter \<Rightarrow> byte list list" where
  "accepted e w = (case e of Send i \<Rightarrow> if lw_closer w \<in> {Open, Marked} \<and> length (lw_queue w) < queue_cap then [lw_pending w ! i] else [] | _ \<Rightarrow> [])"

definition lost :: "log_event \<Rightarrow> AsyncWriter \<Rightarrow> nat" where
  "lost e w = (case e of Send i \<Rightarrow> if lw_closer w \<in> {Open, Marked} \<and> \<not> length (lw_queue w) < queue_cap then 1 else 0 | _ \<Rightarrow> 0)"

text \<open>A run, with all messages accepted in their order and the number of those dropped.\<close>

inductive log_run :: "AsyncWriter \<Rightarrow> AsyncWriter \<Rightarrow> byte list list \<Rightarrow> nat \<Rightarrow> bool" for w0 where
  start: "log_run w0 w0 [] 0"
| step: "log_run w0 w acc n \<Longrightarrow> log_step e w = Some w' \<Longrightarrow> log_run w0 w' (acc @ accepted e w) (n + lost e w)"

section \<open>The global logger\<close>

text \<open>
  Writers have numbers; \<open>gl_output\<close> is the writer that package \<open>log\<close> was last given, \<open>None\<close> before the first.  \<open>can_open\<close> tells
  whether the file of a path can be opened.
\<close>

record log_global =
  gl_writer :: "(nat \<times> string) option"
  gl_output :: "nat option"
  gl_closed :: "nat list"
  gl_next :: nat
  gl_verbose :: bool

definition SetupGlobalLogger :: "(string \<Rightarrow> bool) \<Rightarrow> string \<Rightarrow> log_global \<Rightarrow> log_global \<times> string option" where
  "SetupGlobalLogger can_open logPath g =
     (if (case gl_writer g of Some (_, path) \<Rightarrow> path = logPath | None \<Rightarrow> False) then (g, None)
      else
        let g = (case gl_writer g of Some (n, _) \<Rightarrow> g\<lparr>gl_closed := n # gl_closed g, gl_writer := None\<rparr> | None \<Rightarrow> g)
        in case NewAsyncWriter logPath (can_open logPath) of
             Inl err \<Rightarrow> (g, Some err)
           | Inr w \<Rightarrow> (g\<lparr>gl_writer := Some (gl_next g, logPath), gl_output := Some (gl_next g), gl_next := gl_next g + 1\<rparr>, None))"

definition CloseGlobal :: "log_global \<Rightarrow> log_global" where
  "CloseGlobal g = (case gl_writer g of Some (n, _) \<Rightarrow> g\<lparr>gl_writer := None, gl_closed := n # gl_closed g\<rparr> | None \<Rightarrow> g)"

definition SetVerbose :: "bool \<Rightarrow> log_global \<Rightarrow> log_global" where
  "SetVerbose v g = g\<lparr>gl_verbose := v\<rparr>"

text \<open>Whether what is logged goes to a writer that still takes messages.\<close>

definition logs_kept :: "log_global \<Rightarrow> bool" where
  "logs_kept g \<longleftrightarrow> (case gl_output g of Some n \<Rightarrow> n \<notin> set (gl_closed g) | None \<Rightarrow> True)"

lemma failed_setup_silences:
  assumes "gl_writer g = Some (n, path)" "gl_output g = Some n" "path \<noteq> logPath" "logPath \<noteq> ''''" "\<not> can_open logPath"
  shows "\<not> logs_kept (fst (SetupGlobalLogger can_open logPath g))" "snd (SetupGlobalLogger can_open logPath g) \<noteq> None"
  using assms by (simp_all add: SetupGlobalLogger_def NewAsyncWriter_def logs_kept_def)

section \<open>Nothing accepted is lost\<close>

datatype log_item = Message "byte list" | Dropped nat

fun render :: "log_item \<Rightarrow> byte list" where
  "render (Message m) = m"
| "render (Dropped d) = notice d"

definition messages :: "log_item list \<Rightarrow> byte list list" where
  "messages items = concat (map (\<lambda>i. case i of Message m \<Rightarrow> [m] | Dropped d \<Rightarrow> []) items)"

definition announced :: "log_item list \<Rightarrow> nat" where
  "announced items = sum_list (map (\<lambda>i. case i of Message m \<Rightarrow> 0 | Dropped d \<Rightarrow> d) items)"

lemma items_simps [simp]:
  "messages [] = []" "messages (xs @ ys) = messages xs @ messages ys" "messages [Message m] = [m]" "messages [Dropped d] = []"
  "announced [] = 0" "announced (xs @ ys) = announced xs + announced ys" "announced [Message m] = 0" "announced [Dropped d] = d"
  by (simp_all add: messages_def announced_def)

lemma buf_write_empty: "buf_write [] out p = (if length p \<le> buf_size then (p, out) else ([], out @ p))"
  by (subst buf_write.simps) simp

lemma buf_write_content:
  assumes "length buf \<le> buf_size"
  shows "snd (buf_write buf out p) @ fst (buf_write buf out p) = out @ buf @ p" "length (fst (buf_write buf out p)) \<le> buf_size"
proof -
  have "buf_write buf out p =
      (if length p \<le> buf_size - length buf then (buf @ p, out)
       else if buf = [] then ([], out @ p)
       else buf_write [] (out @ buf @ take (buf_size - length buf) p) (drop (buf_size - length buf) p))"
    by (subst buf_write.simps) (simp add: Let_def)
  then show "snd (buf_write buf out p) @ fst (buf_write buf out p) = out @ buf @ p" "length (fst (buf_write buf out p)) \<le> buf_size"
    using assms by (auto simp: buf_write_empty)
qed

text \<open>What has been written in all, and the condition on the buffer.\<close>

definition content :: "AsyncWriter \<Rightarrow> byte list" where
  "content w = lw_out w @ lw_buf w"

definition buf_ok :: "AsyncWriter \<Rightarrow> bool" where
  "buf_ok w \<longleftrightarrow> length (lw_buf w) \<le> buf_size"

lemma emit_content:
  assumes "buf_ok w"
  shows "content (emit m w) = content w @ m" "buf_ok (emit m w)"
  using buf_write_content [of "lw_buf w" "lw_out w" m] assms by (auto simp: emit_def content_def buf_ok_def split: prod.splits)

lemma emit_fields [simp]:
  "lw_queue (emit m w) = lw_queue w" "lw_worker (emit m w) = lw_worker w" "lw_dropped (emit m w) = lw_dropped w"
  "lw_closer (emit m w) = lw_closer w" "lw_pending (emit m w) = lw_pending w" "lw_panic (emit m w) = lw_panic w" "lw_file (emit m w) = lw_file w"
  by (simp_all add: emit_def split: prod.splits)

lemma flush_props [simp]: "content (flush w) = content w" "buf_ok (flush w)" "lw_buf (flush w) = []" "lw_queue (flush w) = lw_queue w"
  "lw_dropped (flush w) = lw_dropped w" "lw_closer (flush w) = lw_closer w" "lw_worker (flush w) = lw_worker w"
  by (simp_all add: flush_def content_def buf_ok_def)

lemma content_updates [simp]:
  "content (w\<lparr>lw_queue := q\<rparr>) = content w" "content (w\<lparr>lw_dropped := d\<rparr>) = content w" "content (w\<lparr>lw_worker := k\<rparr>) = content w"
  "content (w\<lparr>lw_closer := c\<rparr>) = content w" "content (w\<lparr>lw_pending := ps\<rparr>) = content w" "content (w\<lparr>lw_panic := b\<rparr>) = content w"
  "content (w\<lparr>lw_file := b\<rparr>) = content w"
  "buf_ok (w\<lparr>lw_queue := q\<rparr>) = buf_ok w" "buf_ok (w\<lparr>lw_dropped := d\<rparr>) = buf_ok w" "buf_ok (w\<lparr>lw_worker := k\<rparr>) = buf_ok w"
  "buf_ok (w\<lparr>lw_closer := c\<rparr>) = buf_ok w" "buf_ok (w\<lparr>lw_pending := ps\<rparr>) = buf_ok w" "buf_ok (w\<lparr>lw_panic := b\<rparr>) = buf_ok w"
  "buf_ok (w\<lparr>lw_file := b\<rparr>) = buf_ok w"
  by (simp_all add: content_def buf_ok_def)

text \<open>The invariant: what has been written are the accepted messages but for those in the queue, with notices among them.\<close>

definition log_inv :: "AsyncWriter \<Rightarrow> byte list list \<Rightarrow> nat \<Rightarrow> bool" where
  "log_inv w acc n \<longleftrightarrow> buf_ok w
     \<and> (lw_worker w \<in> {Draining True, Returned} \<longrightarrow> lw_queue w = [] \<and> lw_closer w \<in> {QueueClosed, Closed})
     \<and> (lw_worker w = Returned \<longrightarrow> lw_buf w = [])
     \<and> (\<exists>items. content w = concat (map render items) \<and> messages items @ lw_queue w = acc \<and> announced items + lw_dropped w = n)"

lemma log_inv_start: "NewAsyncWriter path can_open = Inr w \<Longrightarrow> log_inv w [] 0"
  by (auto simp: NewAsyncWriter_def log_inv_def buf_ok_def content_def buf_size_def intro!: exI [of _ "[]"] split: if_splits)

text \<open>A step that writes the items \<open>items2\<close> and leaves the accounts balanced.\<close>

lemma log_inv_step:
  assumes "log_inv w acc n" "buf_ok w'" "content w' = content w @ concat (map render items2)"
    "messages items2 @ lw_queue w' = lw_queue w @ new" "announced items2 + lw_dropped w' = lw_dropped w + d"
    "lw_worker w' \<in> {Draining True, Returned} \<longrightarrow> lw_queue w' = [] \<and> lw_closer w' \<in> {QueueClosed, Closed}"
    "lw_worker w' = Returned \<longrightarrow> lw_buf w' = []"
  shows "log_inv w' (acc @ new) (n + d)"
proof -
  obtain items where i: "content w = concat (map render items)" "messages items @ lw_queue w = acc" "announced items + lw_dropped w = n"
    using assms(1) by (auto simp: log_inv_def)
  have "messages (items @ items2) @ lw_queue w' = acc @ new"
    using i(2) assms(4) by (metis append_assoc items_simps(2))
  with i assms show ?thesis
    unfolding log_inv_def by (intro conjI exI [of _ "items @ items2"]) auto
qed

lemma receive_inv:
  assumes "log_inv w acc n" "lw_queue w \<noteq> []" "lw_worker w = Selecting"
  shows "log_inv (worker_receive w) acc n"
proof -
  let ?items2 = "(if lw_dropped w > 0 then [Dropped (lw_dropped w)] else []) @ [Message (hd (lw_queue w))]"
  obtain m q where "lw_queue w = m # q"
    using assms(2) by (cases "lw_queue w") auto
  moreover have "buf_ok w"
    using assms(1) by (simp add: log_inv_def)
  ultimately show ?thesis
    using log_inv_step [of w acc n "worker_receive w" ?items2 "[]" 0] assms(1,3)
    by (auto simp: worker_receive_def Let_def emit_content)
qed

lemma send_inv:
  assumes "log_inv w acc n" "i < length (lw_pending w)"
  shows "log_inv (Write_send i w) (acc @ accepted (Send i) w) (n + lost (Send i) w)"
proof (cases "lw_closer w \<in> {QueueClosed, Closed}")
  case True
  then show ?thesis
    using log_inv_step [OF assms(1), of "Write_send i w" "[]" "[]" 0] assms(1)
    by (auto simp: Write_send_def Let_def accepted_def lost_def log_inv_def)
next
  case False
  then have o: "lw_closer w \<in> {Open, Marked}" "lw_worker w \<notin> {Draining True, Returned}" "buf_ok w"
    using assms(1) by (cases "lw_closer w"; auto simp: log_inv_def)+
  show ?thesis
  proof (cases "length (lw_queue w) < queue_cap")
    case True
    with False o show ?thesis
      using log_inv_step [OF assms(1), of "Write_send i w" "[]" "[lw_pending w ! i]" 0]
      by (simp add: Write_send_def Let_def accepted_def lost_def)
  next
    case False
    with \<open>lw_closer w \<notin> {QueueClosed, Closed}\<close> o show ?thesis
      using log_inv_step [OF assms(1), of "Write_send i w" "[]" "[]" 1]
      by (simp add: Write_send_def Let_def accepted_def lost_def)
  qed
qed

lemma drain_one_inv:
  assumes "log_inv w acc n" "lw_queue w \<noteq> []"
  shows "log_inv (drain_one w) acc n"
proof -
  obtain m q where "lw_queue w = m # q"
    using assms(2) by (cases "lw_queue w") auto
  moreover have "buf_ok w" "lw_worker w \<notin> {Draining True, Returned}"
    using assms by (auto simp: log_inv_def)
  ultimately show ?thesis
    using log_inv_step [OF assms(1), of "drain_one w" "[Message m]" "[]" 0]
    by (simp add: drain_one_def emit_content)
qed

lemma log_inv_step_event:
  assumes "log_inv w acc n" "log_step e w = Some w'"
  shows "log_inv w' (acc @ accepted e w) (n + lost e w)"
proof (cases e)
  case (Send i)
  then show ?thesis
    using send_inv [OF assms(1), of i] assms(2) by (simp split: if_splits)
next
  case Receive
  then show ?thesis
    using receive_inv [OF assms(1)] assms(2) by (simp add: accepted_def lost_def split: if_splits)
next
  case DrainOne
  then show ?thesis
    using drain_one_inv [OF assms(1)] assms(2) by (simp add: accepted_def lost_def split: if_splits)
next
  case DrainEnd
  then obtain final where f: "lw_worker w = Draining final" "lw_queue w = []"
      "w' = (flush w)\<lparr>lw_worker := (if final then Returned else Selecting)\<rparr>"
    using assms(2) by (auto split: if_splits worker.splits)
  then have "final \<longrightarrow> lw_closer w \<in> {QueueClosed, Closed}"
    using assms(1) by (auto simp: log_inv_def)
  with DrainEnd f show ?thesis
    using log_inv_step [OF assms(1), of w' "[]" "[]" 0] by (auto simp: accepted_def lost_def)
qed (use assms in \<open>auto simp: accepted_def lost_def log_inv_def Write_check_def flush_def content_def buf_ok_def split: if_splits\<close>)

lemma log_run_inv:
  assumes "log_run w0 w acc n" "NewAsyncWriter path can_open = Inr w0"
  shows "log_inv w acc n"
  using assms by (induction rule: log_run.induct) (auto intro: log_inv_start log_inv_step_event)

section \<open>Closing ends\<close>

lemma log_run_trans: "log_run w1 w2 acc2 n2 \<Longrightarrow> log_run w0 w1 acc1 n1 \<Longrightarrow> log_run w0 w2 (acc1 @ acc2) (n1 + n2)"
proof (induction rule: log_run.induct)
  case (step w acc n e w')
  then show ?case
    using log_run.step [of w0 w "acc1 @ acc" "n1 + n" e w'] by (simp add: add.assoc)
qed simp

lemma log_run_one: "log_step e w = Some w' \<Longrightarrow> accepted e w = [] \<Longrightarrow> lost e w = 0 \<Longrightarrow> log_run w w' [] 0"
  using log_run.step [OF log_run.start, of e w w'] by simp

text \<open>The worker alone empties the queue and returns.\<close>

lemma worker_finishes:
  assumes "lw_closer w = QueueClosed" "lw_worker w = Draining True \<longrightarrow> lw_queue w = []"
  shows "\<exists>w'. log_run w w' [] 0 \<and> lw_worker w' = Returned"
  using assms
proof (induction "length (lw_queue w) * 3 + (case lw_worker w of Draining False \<Rightarrow> 3 | Selecting \<Rightarrow> 2 | Draining True \<Rightarrow> 1 | Returned \<Rightarrow> 0)"
    arbitrary: w rule: less_induct)
  case less
  have one: "\<exists>w'. log_run w w' [] 0 \<and> lw_worker w' = Returned"
    if prems: "log_step e w = Some w1" "e \<in> {Receive, Ended, DrainOne, DrainEnd}" "lw_closer w1 = QueueClosed"
      "lw_worker w1 = Draining True \<longrightarrow> lw_queue w1 = []"
      "length (lw_queue w1) * 3 + (case lw_worker w1 of Draining False \<Rightarrow> 3 | Selecting \<Rightarrow> 2 | Draining True \<Rightarrow> 1 | Returned \<Rightarrow> 0)
        < length (lw_queue w) * 3 + (case lw_worker w of Draining False \<Rightarrow> 3 | Selecting \<Rightarrow> 2 | Draining True \<Rightarrow> 1 | Returned \<Rightarrow> (0 :: nat))"
    for e w1
  proof -
    obtain w' where w': "log_run w1 w' [] 0" "lw_worker w' = Returned"
      using less.hyps [OF prems(5,3,4)] by blast
    have "log_run w w1 [] 0"
      using prems(1,2) by (intro log_run_one) (auto simp: accepted_def lost_def)
    with log_run_trans [OF w'(1)] w'(2) show ?thesis
      by fastforce
  qed
  show ?case
  proof (cases "lw_worker w")
    case Returned
    then show ?thesis
      using log_run.start by blast
  next
    case Selecting
    then show ?thesis
    proof (cases "lw_queue w = []")
      case True
      with Selecting less.prems show ?thesis
        by (intro one [of Ended "w\<lparr>lw_worker := Draining True\<rparr>"]) auto
    next
      case False
      with Selecting less.prems show ?thesis
        by (intro one [of Receive "worker_receive w"]) (auto simp: worker_receive_def Let_def neq_Nil_conv)
    qed
  next
    case (Draining final)
    then show ?thesis
    proof (cases "lw_queue w = []")
      case True
      with Draining less.prems show ?thesis
        by (intro one [of DrainEnd "(flush w)\<lparr>lw_worker := (if final then Returned else Selecting)\<rparr>"]) (auto split: bool.splits)
    next
      case False
      with Draining less.prems show ?thesis
        by (intro one [of DrainOne "drain_one w"]) (auto simp: drain_one_def neq_Nil_conv split: bool.splits)
    qed
  qed
qed


text \<open>
  A caller can panic.  From every new writer a state is reachable in which a caller of \<open>Write\<close> has sent to a closed channel:
  the caller has tested \<open>closed\<close>, then \<open>Close\<close> sets it and closes the queue, and the caller goes on to send.
\<close>

theorem logger_send_on_closed:
  assumes "NewAsyncWriter path can_open = Inr w0"
  shows "\<exists>w acc n. log_run w0 w acc n \<and> lw_panic w"
proof -
  let ?w1 = "w0\<lparr>lw_pending := [[]]\<rparr>"
  have o: "lw_closer w0 = Open" "lw_pending w0 = []"
    using assms by (auto simp: NewAsyncWriter_def split: if_splits)
  have "log_run w0 ?w1 [] 0"
    using o by (intro log_run_one [of "CallWrite []"]) (simp_all add: Write_check_def accepted_def lost_def)
  moreover have "log_run ?w1 (?w1\<lparr>lw_closer := Marked\<rparr>) [] 0"
    using o by (intro log_run_one [of MarkClosed]) (simp_all add: accepted_def lost_def)
  moreover have "log_run (?w1\<lparr>lw_closer := Marked\<rparr>) (?w1\<lparr>lw_closer := QueueClosed\<rparr>) [] 0"
    by (intro log_run_one [of CloseQueue]) (simp_all add: accepted_def lost_def)
  moreover have "log_run (?w1\<lparr>lw_closer := QueueClosed\<rparr>) (w0\<lparr>lw_pending := [], lw_closer := QueueClosed, lw_panic := True\<rparr>) [] 0"
    by (intro log_run_one [of "Send 0"]) (simp_all add: Write_send_def accepted_def lost_def Let_def)
  ultimately have "log_run w0 (w0\<lparr>lw_pending := [], lw_closer := QueueClosed, lw_panic := True\<rparr>) ([] @ [] @ [] @ []) (0 + (0 + (0 + 0)))"
    by (intro log_run_trans)
  then show ?thesis
    by (intro exI conjI, assumption) simp
qed

definition sample_writer :: AsyncWriter where
  "sample_writer = \<lparr>lw_queue = [], lw_worker = Selecting, lw_file = False, lw_buf = [], lw_out = [], lw_dropped = 0, lw_closer = Open,
     lw_pending = [], lw_panic = False\<rparr>"

lemma sample_writer_new: "NewAsyncWriter '''' True = Inr sample_writer"
  by (simp add: NewAsyncWriter_def sample_writer_def)

theorem logger_send_on_closed_witness: "\<exists>w acc n. log_run sample_writer w acc n \<and> lw_panic w"
  by (rule logger_send_on_closed [OF sample_writer_new])

definition sample_closing :: AsyncWriter where
  "sample_closing = sample_writer\<lparr>lw_queue := [[65, 66]], lw_closer := QueueClosed\<rparr>"

lemma sample_closing_run: "log_run sample_writer sample_closing [[65, 66]] 0"
proof -
  let ?w1 = "sample_writer\<lparr>lw_pending := [[65, 66]]\<rparr>" and ?w2 = "sample_writer\<lparr>lw_queue := [[65, 66]]\<rparr>"
  have "log_run sample_writer ?w1 [] 0"
    by (intro log_run_one [of "CallWrite [65, 66]"]) (simp_all add: Write_check_def accepted_def lost_def sample_writer_def)
  moreover have "log_run ?w1 ?w2 [[65, 66]] 0"
    using log_run.step [OF log_run.start, of "Send 0" ?w1 ?w2]
    by (simp add: Write_send_def accepted_def lost_def sample_writer_def queue_cap_def)
  moreover have "log_run ?w2 (?w2\<lparr>lw_closer := Marked\<rparr>) [] 0"
    by (intro log_run_one [of MarkClosed]) (simp_all add: accepted_def lost_def sample_writer_def)
  moreover have "log_run (?w2\<lparr>lw_closer := Marked\<rparr>) sample_closing [] 0"
    by (intro log_run_one [of CloseQueue]) (simp_all add: accepted_def lost_def sample_closing_def)
  ultimately have "log_run sample_writer sample_closing ([] @ [[65, 66]] @ [] @ []) (0 + (0 + (0 + 0)))"
    by (intro log_run_trans)
  then show ?thesis
    by simp
qed


section \<open>Closing ends\<close>

text \<open>The work that is left for the worker, and the steps that do it.\<close>

definition work_left :: "AsyncWriter \<Rightarrow> nat" where
  "work_left w = length (lw_queue w) + (case lw_worker w of Returned \<Rightarrow> 0 | Draining True \<Rightarrow> 1 | Selecting \<Rightarrow> 2 | Draining False \<Rightarrow> 3)"

definition worker_steps :: "log_event set" where
  "worker_steps = {Receive, Ended, DrainOne, DrainEnd}"

fun log_steps :: "log_event list \<Rightarrow> AsyncWriter \<Rightarrow> AsyncWriter option" where
  "log_steps [] w = Some w"
| "log_steps (e # es) w = Option.bind (log_step e w) (log_steps es)"

lemma emit_keeps [simp]:
  "lw_queue (emit msg w) = lw_queue w" "lw_worker (emit msg w) = lw_worker w" "lw_closer (emit msg w) = lw_closer w"
  by (simp_all add: emit_def split: prod.split)

lemma flush_keeps [simp]:
  "lw_queue (flush w) = lw_queue w" "lw_worker (flush w) = lw_worker w" "lw_closer (flush w) = lw_closer w"
  by (simp_all add: flush_def)

lemma worker_receive_keeps [simp]:
  "lw_queue (worker_receive w) = tl (lw_queue w)" "lw_worker (worker_receive w) = lw_worker w" "lw_closer (worker_receive w) = lw_closer w"
  by (simp_all add: worker_receive_def Let_def)

lemma drain_one_keeps [simp]:
  "lw_queue (drain_one w) = tl (lw_queue w)" "lw_worker (drain_one w) = lw_worker w" "lw_closer (drain_one w) = lw_closer w"
  by (simp_all add: drain_one_def)

lemma worker_step_progress:
  assumes "e \<in> worker_steps" "log_step e w = Some w'"
  shows "work_left w' < work_left w \<and> lw_closer w' = lw_closer w"
  using assms
  by (cases "lw_queue w") (auto simp: worker_steps_def work_left_def split: if_splits worker.splits bool.splits)

lemma worker_step_enabled:
  assumes "lw_closer w = QueueClosed" "lw_worker w \<noteq> Returned"
  shows "\<exists>e \<in> worker_steps. log_step e w \<noteq> None"
  using assms by (cases "lw_queue w"; cases "lw_worker w") (auto simp: worker_steps_def)

lemma worker_returns:
  assumes "lw_closer w = QueueClosed"
  shows "\<exists>es w'. set es \<subseteq> worker_steps \<and> length es \<le> work_left w \<and> log_steps es w = Some w'
    \<and> lw_worker w' = Returned \<and> lw_closer w' = QueueClosed"
  using assms
proof (induction "work_left w" arbitrary: w rule: less_induct)
  case less
  show ?case
  proof (cases "lw_worker w = Returned")
    case True
    then show ?thesis
      using less.prems by (intro exI [of _ "[]"]) simp
  next
    case False
    obtain e w1 where e: "e \<in> worker_steps" "log_step e w = Some w1"
      using worker_step_enabled [OF less.prems False] by auto
    have w1: "work_left w1 < work_left w" "lw_closer w1 = QueueClosed"
      using worker_step_progress [OF e] less.prems by simp_all
    obtain es w' where "set es \<subseteq> worker_steps" "length es \<le> work_left w1" "log_steps es w1 = Some w'"
      "lw_worker w' = Returned" "lw_closer w' = QueueClosed"
      using less.hyps [OF w1] by blast
    then show ?thesis
      using e w1(1) by (intro exI [of _ "e # es"] exI [of _ w']) simp
  qed
qed

text \<open>
  C25: \<open>Close\<close> returns.  Once the queue is closed, whatever it holds and wherever the worker is, the worker is never stuck before it
  returns; each of its steps that takes a message or moves on leaves less work; at most three steps more than there are messages
  take it to its end; and then \<open>Close\<close> goes on and closes the file.
\<close>

theorem logger_close_terminates:
  assumes "lw_closer w = QueueClosed"
  shows "(lw_worker w \<noteq> Returned \<longrightarrow> (\<exists>e \<in> worker_steps. log_step e w \<noteq> None))
    \<and> (\<forall>e \<in> worker_steps. \<forall>w'. log_step e w = Some w' \<longrightarrow> work_left w' < work_left w)
    \<and> (\<exists>es w'. set es \<subseteq> worker_steps \<and> length es \<le> length (lw_queue w) + 3 \<and> log_steps es w = Some w'
        \<and> lw_worker w' = Returned \<and> log_step CloseFile w' \<noteq> None)"
proof (intro conjI)
  have "work_left w \<le> length (lw_queue w) + 3"
    by (simp add: work_left_def split: worker.split bool.split)
  then show "\<exists>es w'. set es \<subseteq> worker_steps \<and> length es \<le> length (lw_queue w) + 3 \<and> log_steps es w = Some w'
      \<and> lw_worker w' = Returned \<and> log_step CloseFile w' \<noteq> None"
    using worker_returns [OF assms] by fastforce
qed (use worker_step_enabled [OF assms] worker_step_progress in blast)+

theorem logger_close_terminates_witness:
  "\<exists>es w'. set es \<subseteq> worker_steps \<and> length es \<le> 4 \<and> log_steps es (sample_writer\<lparr>lw_queue := [[42]], lw_closer := QueueClosed\<rparr>) = Some w'
    \<and> lw_worker w' = Returned"
  using logger_close_terminates [of "sample_writer\<lparr>lw_queue := [[42]], lw_closer := QueueClosed\<rparr>"] by auto

end
