(* ===== verification/TProxy.thy ===== *)
theory TProxy
  imports RedirectorRules DnsEngine PacResolver ServerParts Logger
begin

text \<open>
  The program entry, \<open>cmd/tproxy/main.go\<close>: how the configuration reaches the components at the start and on a reload, with the
  Windows redirector.  The flag package, which delivers the values of the flags, and the operating system are parameters.
\<close>

section \<open>Options\<close>

record flag_values =
  fv_c :: string
  fv_v :: bool
  fv_verbose :: bool
  fv_version :: bool
  fv_V :: bool
  fv_dry_run :: bool
  fv_d :: bool
  fv_log :: string
  fv_l :: string
  fv_cleanup :: bool

record cliOptions =
  co_configPath :: string
  co_isVerbose :: bool
  co_isVersion :: bool
  co_isDryRun :: bool
  co_logPath :: string
  co_isCleanup :: bool

definition parseCLIFlags :: "(string list \<Rightarrow> string + flag_values) \<Rightarrow> string list \<Rightarrow> string + cliOptions" where
  "parseCLIFlags Parse args =
     (case Parse args of
        Inl err \<Rightarrow> Inl err
      | Inr v \<Rightarrow>
          let logPath = fv_log v; logPath = (if logPath = '''' then fv_l v else logPath)
          in Inr \<lparr>co_configPath = fv_c v, co_isVerbose = (fv_v v \<or> fv_verbose v), co_isVersion = (fv_version v \<or> fv_V v),
               co_isDryRun = (fv_dry_run v \<or> fv_d v), co_logPath = logPath, co_isCleanup = fv_cleanup v\<rparr>)"

section \<open>What the filter is built from\<close>

definition isAllPass :: "unicode \<Rightarrow> string \<Rightarrow> bool" where
  "isAllPass U mode = (ToLower U mode \<in> {''none'', ''off'', ''disabled'', ''all'', ''passthrough''})"

text \<open>Mode, domains and addresses; the same text at the start and in the reload callback.\<close>

definition active_rules :: "unicode \<Rightarrow> Config \<Rightarrow> string \<times> string list \<times> string list" where
  "active_rules U cfg =
     (let filterMode = (if FilterMode cfg = '''' then ''whitelist'' else FilterMode cfg)
      in (filterMode,
          if isAllPass U filterMode then ([], [])
          else if filterMode = ''blacklist'' then (BlockedDomains cfg, BlockedIPs cfg)
          else (AllowedDomains cfg, AllowedIPs cfg)))"

definition start_filter :: "unicode \<Rightarrow> Config \<Rightarrow> FilterEngine" where
  "start_filter U cfg = (case active_rules U cfg of (mode, domains, ips) \<Rightarrow> NewFilterEngine U mode domains ips)"

text \<open>The port that the redirector is given; \<open>None\<close> where no listener can be had.\<close>

definition local_port :: "(string \<Rightarrow> int option) \<Rightarrow> bool \<Rightarrow> Config \<Rightarrow> uint16 option" where
  "local_port listen isDryRun cfg =
     (if \<not> isDryRun then AcquireListener listen (ListenAddr cfg)
      else
        let portStr = (case SplitHostPort (ListenAddr cfg) of Some (_, p) \<Rightarrow> p | None \<Rightarrow> '''')
        in Some (case Atoi portStr of Some p \<Rightarrow> if p > 0 then word_of_int p else 18080 | None \<Rightarrow> 18080))"

section \<open>The running program\<close>

record 's app =
  ap_filter :: FilterEngine
  ap_resolver :: "'s Resolver"
  ap_dns :: Engine
  ap_redirector :: Redirector
  ap_forwardCond :: string
  ap_cliLogFile :: string
  ap_logPath :: string
  ap_log :: log_global

definition setLoggerOutput :: "(string \<Rightarrow> bool) \<Rightarrow> string \<Rightarrow> 's app \<Rightarrow> 's app" where
  "setLoggerOutput can_open targetPath ap =
     (if targetPath = ap_logPath ap \<and> ap_logPath ap \<noteq> '''' then ap
      else ap\<lparr>ap_logPath := targetPath, ap_log := fst (SetupGlobalLogger can_open targetPath (ap_log ap))\<rparr>)"

text \<open>The redirector as \<open>main\<close> configures it after \<open>NewRedirector\<close>, up to the DNS engine.\<close>

definition configure_redirector ::
  "unicode \<Rightarrow> bool \<Rightarrow> string \<Rightarrow> FilterEngine \<Rightarrow> routing_evaluator option \<Rightarrow> dns_evaluator option \<Rightarrow> Config \<Rightarrow> Redirector \<Rightarrow> Redirector" where
  "configure_redirector U isDryRun forwardCond filterEng routing dnsEng cfg r =
     SetDNSEngine dnsEng
       (SetUDPFilter (FilterUDP cfg) (Some (ShouldBlock U filterEng))
         (SetDNSServers (DNSServers cfg) (SetDryRun isDryRun forwardCond (Some (ShouldBlock U filterEng)) routing r)))"

text \<open>The reload callback; the filter engine, which other components hold by reference, is also put into the redirector.\<close>

definition on_reload :: "unicode \<Rightarrow> 's backend \<Rightarrow> (string \<Rightarrow> bool) \<Rightarrow> Config \<Rightarrow> 's app \<Rightarrow> 's app" where
  "on_reload U B can_open newCfg ap =
     (let (mode, d, ips) = active_rules U newCfg;
          filterEng = UpdateRules U mode d ips (ap_filter ap);
          blocks = Some (ShouldBlock U filterEng);
          ap = ap\<lparr>ap_filter := filterEng, ap_resolver := pac_UpdateConfig U B (PacURL newCfg) (UpstreamProxy newCfg) (ap_resolver ap),
                 ap_dns := UpdateConfig (Some newCfg) (ap_dns ap)\<rparr>;
          r = SetDNSServers (DNSServers newCfg) (ap_redirector ap);
          r = SetDryRun (DryRun newCfg) (ap_forwardCond ap) blocks (rd_routingEng r) r;
          r = SetUDPFilter (FilterUDP newCfg) blocks r;
          ap = ap\<lparr>ap_redirector := r\<rparr>
      in if ap_cliLogFile ap = '''' \<and> LogFile newCfg \<noteq> ap_logPath ap then setLoggerOutput can_open (LogFile newCfg) ap else ap)"

section \<open>Reloading is like restarting\<close>

lemma setLoggerOutput_fields [simp]:
  "ap_filter (setLoggerOutput f p ap) = ap_filter ap" "ap_redirector (setLoggerOutput f p ap) = ap_redirector ap"
  "ap_resolver (setLoggerOutput f p ap) = ap_resolver ap" "ap_dns (setLoggerOutput f p ap) = ap_dns ap"
  by (simp_all add: setLoggerOutput_def)

lemma UpdateRules_fresh: "UpdateRules U mode d ips e = NewFilterEngine U mode d ips"
  by (simp add: UpdateRules_def NewFilterEngine_def)


definition sample_app :: "linuxPACSession app" where
  "sample_app = \<lparr>ap_filter = \<lparr>fe_rules = None\<rparr>, ap_resolver = sample_resolver, ap_dns = NewEngine DefaultConfig 0,
     ap_redirector = sample_rd\<lparr>rd_dryRun := True, rd_sniffMode := True\<rparr>, ap_forwardCond = '''', ap_cliLogFile = '''', ap_logPath = ''a.log'',
     ap_log = \<lparr>gl_writer = Some (0, ''a.log''), gl_output = Some 0, gl_closed = [], gl_next = 1, gl_verbose = False\<rparr>\<rparr>"

text \<open>The rules do not depend on the mode.\<close>

lemma add_mode:
  "add_domain U d (rs\<lparr>rs_mode := m\<rparr>) = (add_domain U d rs)\<lparr>rs_mode := m\<rparr>" "add_ip U i (rs\<lparr>rs_mode := m\<rparr>) = (add_ip U i rs)\<lparr>rs_mode := m\<rparr>"
  by (simp_all add: add_domain_def add_ip_def Let_def split: option.split)

lemma fold_add_mode:
  "fold (add_domain U) ds (rs\<lparr>rs_mode := m\<rparr>) = (fold (add_domain U) ds rs)\<lparr>rs_mode := m\<rparr>"
  "fold (add_ip U) ips (rs\<lparr>rs_mode := m\<rparr>) = (fold (add_ip U) ips rs)\<lparr>rs_mode := m\<rparr>"
  by (induction ds arbitrary: rs; simp add: add_mode) (induction ips arbitrary: rs; simp add: add_mode)

definition compiled :: "unicode \<Rightarrow> string list \<Rightarrow> string list \<Rightarrow> RuleSet" where
  "compiled U ds ips = fold (add_ip U) ips (fold (add_domain U) ds
     \<lparr>rs_mode = '''', exactDomains = {}, suffixRoots = {}, wildcardPatterns = [], rs_ips = {}, rs_cidrs = []\<rparr>)"

lemma NewFilterEngine_compiled:
  "NewFilterEngine U mode ds ips = \<lparr>fe_rules = Some ((compiled U ds ips)\<lparr>rs_mode := ToLower U (if mode = '''' then ''whitelist'' else mode)\<rparr>)\<rparr>"
  unfolding NewFilterEngine_def UpdateRules_def compiled_def fold_add_mode [symmetric] by (simp add: Let_def)

lemma match_rules_mode [simp]: "match_rules U (rs\<lparr>rs_mode := m\<rparr>) h = match_rules U rs h"
  by (simp add: match_rules_def match_domain_def Let_def split: option.split)

text \<open>
  A mode that is not written in lower case turns the policy around.  With the mode \<open>Blacklist\<close> the program hands the lists of
  what is allowed to a filter engine that takes the mode for \<open>blacklist\<close>: exactly what the configuration allows is blocked.
\<close>

theorem mixed_case_blacklist_inverted:
  assumes "host \<noteq> ''''"
  shows "ShouldBlock U (start_filter U (cfg\<lparr>FilterMode := ''Blacklist''\<rparr>)) host
    \<longleftrightarrow> \<not> ShouldBlock U (start_filter U (cfg\<lparr>FilterMode := ''whitelist''\<rparr>)) host"
proof -
  have "ToLower U ''Blacklist'' = ''blacklist''" "ToLower U ''whitelist'' = ''whitelist''"
    by code_simp+
  then show ?thesis
    using assms by (simp add: start_filter_def active_rules_def isAllPass_def Let_def NewFilterEngine_compiled ShouldBlock_def)
qed

theorem mixed_case_blacklist_inverted_witness:
  "ShouldBlock plain_unicode (start_filter plain_unicode (DefaultConfig\<lparr>FilterMode := ''Blacklist''\<rparr>)) ''example.com''
    \<longleftrightarrow> \<not> ShouldBlock plain_unicode (start_filter plain_unicode (DefaultConfig\<lparr>FilterMode := ''whitelist''\<rparr>)) ''example.com''"
  by (rule mixed_case_blacklist_inverted) simp

text \<open>
  A reload forgets the flag for a dry run.  However the program was started, after a reload with a configuration that
  does not ask for a dry run the redirector translates packets, while a handle that was opened for sniffing still is one.
\<close>

theorem reload_forgets_dry_run:
  assumes "\<not> DryRun newCfg"
  shows "\<not> rd_dryRun (ap_redirector (on_reload U B can_open newCfg ap))
    \<and> rd_sniffMode (ap_redirector (on_reload U B can_open newCfg ap)) = rd_sniffMode (ap_redirector ap)
    \<and> rd_handle (ap_redirector (on_reload U B can_open newCfg ap)) = rd_handle (ap_redirector ap)"
  using assms by (auto simp: on_reload_def Let_def SetDNSServers_def SetDryRun_def SetUDPFilter_def split: prod.splits)

theorem reload_forgets_dry_run_witness:
  "\<not> rd_dryRun (ap_redirector (on_reload plain_unicode sample_backend (\<lambda>_. True) DefaultConfig sample_app))
    \<and> rd_sniffMode (ap_redirector (on_reload plain_unicode sample_backend (\<lambda>_. True) DefaultConfig sample_app))
      = rd_sniffMode (ap_redirector sample_app)
    \<and> rd_handle (ap_redirector (on_reload plain_unicode sample_backend (\<lambda>_. True) DefaultConfig sample_app)) = rd_handle (ap_redirector sample_app)"
  by (rule reload_forgets_dry_run) (simp add: DefaultConfig_def)

text \<open>
  A log file that cannot be opened silences the log.  If a reload names another log file, which cannot be opened, then the
  writer in use has been closed and is still the one that package \<open>log\<close> writes to: every later message is discarded, the
  warning about it included.
\<close>

theorem reload_silences_log:
  assumes "ap_cliLogFile ap = ''''" "LogFile newCfg \<noteq> ap_logPath ap" "LogFile newCfg \<noteq> ''''" "\<not> can_open (LogFile newCfg)"
    "gl_writer (ap_log ap) = Some (n, path)" "path \<noteq> LogFile newCfg" "gl_output (ap_log ap) = Some n"
  shows "\<not> logs_kept (ap_log (on_reload U B can_open newCfg ap))"
proof -
  have "ap_log (on_reload U B can_open newCfg ap) = fst (SetupGlobalLogger can_open (LogFile newCfg) (ap_log ap))"
    using assms(1-3) by (auto simp: on_reload_def Let_def setLoggerOutput_def split: prod.splits)
  then show ?thesis
    using failed_setup_silences(1) [OF assms(5,7,6,3), of can_open] assms(4) by simp
qed

theorem reload_silences_log_witness:
  "\<not> logs_kept (ap_log (on_reload plain_unicode sample_backend (\<lambda>_. False) (DefaultConfig\<lparr>LogFile := ''b.log''\<rparr>) sample_app))"
  by (rule reload_silences_log [where path = "''a.log''" and n = 0]) (simp_all add: sample_app_def)

end
