(* ===== verification/MainRun.thy ===== *)
theory MainRun
  imports TProxy
begin

text \<open>
  The run of the program, \<open>main\<close> of \<open>cmd/tproxy/main.go\<close>, as the sequence of what it does to the resources of the process: the log,
  the proxy resolver, the listener, the watch on the configuration, the server, the redirector and the port guard.  What the
  rest of the program and the system answer is the record \<open>host_env\<close>; \<open>log.Fatalf\<close> and \<open>os.Exit\<close> end the process without the
  deferred calls.
\<close>

section \<open>The sequence\<close>

datatype main_act =
  Cleanup_rules | Print_version | Exit_code nat | Fatal
  | Open_log string | Open_resolver | Open_listener uint16 | Watch_config | Serve | Start_redirector | Start_guard
  | Await_signal | Cancel | Close_redirector | Close_server | Flush_log
  | Stop_guard | Stop_config | Close_listener | Close_resolver | Close_log

text \<open>
  \<open>he_panic\<close> is \<open>Some n\<close> when the main goroutine panics after \<open>n\<close> of the actions that follow the installation of the recovery
  handler.
\<close>

record host_env =
  he_cleanup :: bool
  he_config :: "Config option"
  he_resolver :: bool
  he_listen :: "string \<Rightarrow> int option"
  he_redirector :: "string \<Rightarrow> string \<Rightarrow> bool"
  he_serve :: bool
  he_start :: bool
  he_panic :: "nat option"

text \<open>From the server on, to the end of the function.\<close>

definition running :: "host_env \<Rightarrow> bool \<Rightarrow> main_act list" where
  "running E isDryRun =
     (if isDryRun then [] else [Serve]) @
     (if \<not> isDryRun \<and> \<not> he_serve E then [Fatal]
      else if \<not> he_start E then (if isDryRun then [] else [Close_server]) @ [Fatal]
      else [Start_redirector, Start_guard, Await_signal, Cancel, Close_redirector, Close_server, Flush_log, Flush_log])"

text \<open>The deferred calls, the last first: of a return, and of a panic, which the handler ends with \<open>os.Exit\<close>.\<close>

definition deferred :: "bool \<Rightarrow> main_act list" where
  "deferred isDryRun =
     [Stop_guard, Cancel, Stop_config] @ (if isDryRun then [] else [Close_listener]) @ [Close_resolver, Close_log]"

definition on_panic :: "main_act list \<Rightarrow> main_act list" where
  "on_panic acts = (if Start_guard \<in> set acts then [Stop_guard] else []) @ [Cancel, Close_redirector, Exit_code 1]"

definition guarded :: "host_env \<Rightarrow> bool \<Rightarrow> main_act list" where
  "guarded E isDryRun =
     (let acts = running E isDryRun;
          before = (case he_panic E of Some n \<Rightarrow> take n acts | None \<Rightarrow> acts)
      in if Fatal \<in> set before then before
         else if length before < length acts then before @ on_panic before
         else acts @ deferred isDryRun)"

definition main_run :: "host_env \<Rightarrow> string + cliOptions \<Rightarrow> main_act list" where
  "main_run E parsed =
     (case parsed of
        Inl err \<Rightarrow> [Exit_code 2]
      | Inr opts \<Rightarrow>
          if co_isCleanup opts then (if he_cleanup E then [Cleanup_rules] else [Cleanup_rules, Exit_code 1])
          else if co_isVersion opts then [Print_version]
          else case he_config E of
            None \<Rightarrow> [Fatal]
          | Some cfg \<Rightarrow>
              let isDryRun = (co_isDryRun opts \<or> DryRun cfg);
                  initialLogPath = (if co_logPath opts = '''' then LogFile cfg else co_logPath opts)
              in Open_log initialLogPath #
                (if \<not> he_resolver E then [Fatal]
                 else Open_resolver #
                   (case local_port (he_listen E) isDryRun cfg of
                      None \<Rightarrow> [Fatal]
                    | Some localPort \<Rightarrow>
                        (if isDryRun then [] else [Open_listener localPort]) @
                        (if \<not> he_redirector E (''0.0.0.0:'' @ Itoa (unat localPort)) (snd (BuildDivertFilter cfg localPort))
                         then (if isDryRun then [] else [Close_listener]) @ [Fatal]
                         else Watch_config # guarded E isDryRun))))"

section \<open>What is undone\<close>

text \<open>\<open>follows a b acts\<close>: after the first \<open>a\<close> there is a \<open>b\<close>.\<close>

definition follows :: "main_act \<Rightarrow> main_act \<Rightarrow> main_act list \<Rightarrow> bool" where
  "follows a b acts \<longleftrightarrow> b \<in> set (dropWhile (\<lambda>x. x \<noteq> a) acts)"

lemma follows_Cons: "follows a b (x # acts) \<longleftrightarrow> (if x = a then b \<in> set (x # acts) else follows a b acts)"
  by (simp add: follows_def)

text \<open>The two ways of the guarded part: until a fatal error, or with the redirector closed.\<close>

lemma guarded_redirector:
  "Start_redirector \<in> set (guarded E dry) \<Longrightarrow> follows Start_redirector Close_redirector (guarded E dry)"
  "Fatal \<in> set (guarded E dry) \<Longrightarrow> Start_redirector \<notin> set (guarded E dry)"
  by (cases "he_panic E"; cases dry; cases "he_serve E"; cases "he_start E";
      auto simp: guarded_def running_def deferred_def on_panic_def follows_def Let_def take_Cons' split: if_splits)+

lemma guarded_returns:
  assumes "he_panic E = None" "Fatal \<notin> set (guarded E dry)"
  shows "guarded E dry = (if dry then [] else [Serve])
    @ [Start_redirector, Start_guard, Await_signal, Cancel, Close_redirector, Close_server, Flush_log, Flush_log] @ deferred dry"
  using assms by (auto simp: guarded_def running_def Let_def split: if_splits)

text \<open>Every run is a fatal error or a message, or ends with the guarded part.\<close>

lemma main_run_cases:
  obtains (short) "Start_redirector \<notin> set (main_run E parsed)" "Await_signal \<notin> set (main_run E parsed)"
  | (guarded) path dry port where "main_run E parsed = Open_log path # Open_resolver # (if dry then [] else [Open_listener port])
      @ Watch_config # guarded E dry"
proof (cases "Start_redirector \<in> set (main_run E parsed) \<or> Await_signal \<in> set (main_run E parsed)")
  case True
  then obtain opts cfg where p: "parsed = Inr opts" "\<not> co_isCleanup opts" "\<not> co_isVersion opts" "he_config E = Some cfg"
    by (auto simp: main_run_def split: sum.splits option.splits if_splits)
  let ?dry = "co_isDryRun opts \<or> DryRun cfg"
  obtain port where "he_resolver E" "local_port (he_listen E) ?dry cfg = Some port"
    "he_redirector E (''0.0.0.0:'' @ Itoa (unat port)) (snd (BuildDivertFilter cfg port))"
    using True p by (auto simp: main_run_def Let_def split: option.splits if_splits)
  then have "main_run E parsed = Open_log (if co_logPath opts = '''' then LogFile cfg else co_logPath opts)
      # Open_resolver # (if ?dry then [] else [Open_listener port]) @ Watch_config # guarded E ?dry"
    using p by (simp add: main_run_def Let_def)
  then show ?thesis
    by (rule that(2))
qed (use that(1) in blast)


definition sample_host :: host_env where
  "sample_host = \<lparr>he_cleanup = True, he_config = Some DefaultConfig, he_resolver = True, he_listen = (\<lambda>_. Some 18080),
     he_redirector = (\<lambda>_ _. True), he_serve = True, he_start = True, he_panic = None\<rparr>"

definition sample_options :: cliOptions where
  "sample_options = \<lparr>co_configPath = '''', co_isVerbose = False, co_isVersion = False, co_isDryRun = True, co_logPath = ''a.log'', co_isCleanup = False\<rparr>"

lemma sample_run:
  "main_run sample_host (Inr sample_options) = [Open_log ''a.log'', Open_resolver, Watch_config, Start_redirector, Start_guard, Await_signal,
     Cancel, Close_redirector, Close_server, Flush_log, Flush_log, Stop_guard, Cancel, Stop_config, Close_resolver, Close_log]"
  by (simp add: main_run_def sample_host_def sample_options_def local_port_def guarded_def running_def deferred_def Let_def)


section \<open>Fatal errors and the log\<close>

lemma guarded_fatal:
  "Fatal \<in> set (guarded E dry) \<Longrightarrow> last (guarded E dry) = Fatal \<and> Flush_log \<notin> set (guarded E dry) \<and> Close_log \<notin> set (guarded E dry)"
  by (cases "he_panic E"; cases dry; cases "he_serve E"; cases "he_start E";
      auto simp: guarded_def running_def deferred_def on_panic_def Let_def take_Cons' split: if_splits)

text \<open>
  The message of a fatal error can be lost.  A fatal error after the log was opened is the last action of the run, and the
  log is neither flushed nor closed; and of every fresh writer there is a run in which the message has been accepted while
  nothing has been written when the process ends.
\<close>

theorem fatal_message_unflushed:
  assumes "main_run E (Inr opts) = Open_log path # acts" "Fatal \<in> set acts" "NewAsyncWriter path True = Inr w"
  shows "last acts = Fatal \<and> Flush_log \<notin> set acts \<and> Close_log \<notin> set acts
    \<and> (\<exists>w'. log_run w w' [msg] 0 \<and> lw_out w' = [] \<and> \<not> lw_panic w')"
proof -
  have "last acts = Fatal \<and> Flush_log \<notin> set acts \<and> Close_log \<notin> set acts"
    using assms(1,2) guarded_fatal [of E]
    by (auto simp: main_run_def Let_def split: option.splits if_splits)
  moreover have "log_step (CallWrite msg) w = Some (w\<lparr>lw_pending := [msg]\<rparr>)"
    "log_step (Send 0) (w\<lparr>lw_pending := [msg]\<rparr>) = Some (w\<lparr>lw_queue := [msg]\<rparr>)" "lw_out w = []" "\<not> lw_panic w"
    using assms(3) by (auto simp: NewAsyncWriter_def Write_check_def Write_send_def queue_cap_def split: if_splits)
  moreover have "log_run w (w\<lparr>lw_queue := [msg]\<rparr>) [msg] 0"
    using log_run.step [OF log_run.step [OF log_run.start calculation(2)] calculation(3)] assms(3)
    by (auto simp: accepted_def lost_def NewAsyncWriter_def queue_cap_def split: if_splits)
  ultimately show ?thesis
    by (intro conjI exI [of _ "w\<lparr>lw_queue := [msg]\<rparr>"]) simp_all
qed


theorem fatal_message_unflushed_witness:
  "main_run (sample_host\<lparr>he_start := False\<rparr>) (Inr sample_options) = [Open_log ''a.log'', Open_resolver, Watch_config, Fatal]
    \<and> (\<exists>w w'. NewAsyncWriter ''a.log'' True = Inr w \<and> log_run w w' [[42]] 0 \<and> lw_out w' = [])"
proof -
  have run: "main_run (sample_host\<lparr>he_start := False\<rparr>) (Inr sample_options) = [Open_log ''a.log'', Open_resolver, Watch_config, Fatal]"
    by (simp add: main_run_def sample_host_def sample_options_def local_port_def guarded_def running_def Let_def)
  obtain w where w: "NewAsyncWriter ''a.log'' True = Inr w"
    by (simp add: NewAsyncWriter_def)
  from fatal_message_unflushed [OF run _ w, of "[42]"] run w show ?thesis
    by auto
qed

end
