(* ===== verification/RedirectorReach.thy ===== *)
theory RedirectorReach
  imports RedirectorRules
begin

text \<open>
  The redirector of \<open>internal/interceptor/redirector.go\<close> as a state machine: every operation on its state as a step, in any order,
  from a new redirector on; and the types of what its tables and its queue hold in every state that can be reached.
\<close>

section \<open>Steps\<close>

text \<open>
  The packet loop, the DNS workers, the sweeper and the clock, the calls of the proxy server (lookup and deletion of sessions),
  and the calls of the program entry (start, end and settings).
\<close>

inductive rd_step :: "Redirector \<Rightarrow> Redirector \<Rightarrow> bool" where
  Packet: "packet_step U D now raw addr r = Some (r', out) \<Longrightarrow> rd_step r r'"
| Worker: "rd_step r (fst (dnsWorker r))"
| Sweep: "rd_step r (gc_tick now r)"
| Clock: "rd_step r (clock_tick now r)"
| Lookup: "rd_step r (r\<lparr>rd_sessions := fst (LookupOriginalDestination now client (rd_sessions r))\<rparr>)"
| Delete: "rd_step r (r\<lparr>rd_sessions := DeleteSession client (rd_sessions r)\<rparr>)"
| Start: "rd_step r (fst (rd_Start dll_Open now r))"
| Close: "rd_step r (fst (rd_Close dll_Close r))"
| DryRun: "rd_step r (SetDryRun dry cond filterEng routingEng r)"
| Dns: "rd_step r (SetDNSEngine dnsEng r)"
| Servers: "rd_step r (SetDNSServers servers r)"
| Udp: "rd_step r (SetUDPFilter filterUDP filterEng r)"

inductive rd_reachable :: "Redirector \<Rightarrow> bool" where
  new: "NewRedirector None now listenAddr customFilter = Inr r \<Longrightarrow> rd_reachable r"
| step: "rd_reachable r \<Longrightarrow> rd_step r r' \<Longrightarrow> rd_reachable r'"

section \<open>Types\<close>

definition is_v4 :: "netIP \<Rightarrow> bool" where
  "is_v4 ip \<longleftrightarrow> To4 ip \<noteq> None"

text \<open>A session key holds 16 bytes and a session an address of 16 bytes; a key of an IPv4 client has a session with an IPv4 address.\<close>

definition typed_sessions :: "sessions \<Rightarrow> bool" where
  "typed_sessions t \<longleftrightarrow> (\<forall>k info. t k = Some info \<longrightarrow>
     length (sk_IP k) = 16 \<and> length (OriginalDstIP info) = 16 \<and> (\<not> sk_IsV6 k \<longrightarrow> is_v4 (OriginalDstIP info)))"

definition typed_task :: "dnsTask \<Rightarrow> bool" where
  "typed_task task \<longleftrightarrow> (\<exists>ip port. dt_clientAddr task = UDPAddr ip port \<and> length ip = 16 \<and> length (dt_targetIP task) = 16
     \<and> (\<not> dt_isIPv6 task \<longrightarrow> is_v4 ip \<and> is_v4 (dt_targetIP task)))
     \<and> dt_dstPort task = 53 \<and> length (dt_rawPacket task) \<le> 65535"

definition typed_rd :: "Redirector \<Rightarrow> bool" where
  "typed_rd r \<longleftrightarrow> typed_sessions (rd_sessions r) \<and> list_all typed_task (rd_dnsQueue r)
     \<and> length (rd_dnsQueue r) \<le> dns_queue_cap \<and> (rd_closed r \<longrightarrow> rd_handle r = None)"

lemma net_IPv4_typed [simp]: "length (net_IPv4 b) = 16" "is_v4 (net_IPv4 b)"
  by (simp_all add: net_IPv4_def IPv4_def is_v4_def To4_def v4InV6Prefix_def)

lemma key_length [simp]: "length (sk_IP (MakeSessionKeyIPv4 ip port)) = 16" "length (sk_IP (MakeSessionKeyIPv6 ip port)) = 16"
  "\<not> sk_IsV6 (MakeSessionKeyIPv4 ip port)" "sk_IsV6 (MakeSessionKeyIPv6 ip port)"
  by (simp_all add: MakeSessionKeyIPv4_def MakeSessionKeyIPv6_def)

lemma typed_sessions_upd:
  assumes "typed_sessions t" "length (sk_IP k) = 16" "length (OriginalDstIP info) = 16" "\<not> sk_IsV6 k \<longrightarrow> is_v4 (OriginalDstIP info)"
  shows "typed_sessions (t(k \<mapsto> info))"
  using assms by (auto simp: typed_sessions_def)

text \<open>Touching a session, deleting one, and sweeping keep the types.\<close>

lemma typed_sessions_touch:
  assumes "typed_sessions t" "t k = Some info" "OriginalDstIP info' = OriginalDstIP info"
  shows "typed_sessions (t(k \<mapsto> info'))"
  using assms by (auto simp: typed_sessions_def)

lemma typed_sessions_less:
  assumes "typed_sessions t" "\<And>k info. t' k = Some info \<Longrightarrow> t k = Some info"
  shows "typed_sessions t'"
  unfolding typed_sessions_def using assms unfolding typed_sessions_def by blast

lemma typed_forward_session:
  assumes "typed_sessions t" "length (sk_IP k) = 16" "length ip = 16" "\<not> sk_IsV6 k \<longrightarrow> is_v4 ip"
  shows "typed_sessions (forward_session now nowNano addr k ip port flags t)"
  using assms by (auto simp: forward_session_def Let_def split: option.split intro: typed_sessions_upd typed_sessions_touch)

section \<open>Packets\<close>

text \<open>What a packet may change.\<close>

definition typed_out :: "(Redirector \<times> effect list) option option \<Rightarrow> bool" where
  "typed_out m \<longleftrightarrow> (\<forall>r out. m = Some (Some (r, out)) \<longrightarrow> typed_rd r)"

lemma typed_rd_sessions: "typed_rd r \<Longrightarrow> typed_sessions t \<Longrightarrow> typed_rd (r\<lparr>rd_sessions := t\<rparr>)"
  by (simp add: typed_rd_def)

lemma typed_forward4:
  assumes "typed_rd r" "forward_nat4 D now raw addr srcIP dstIP sp dp flags r = Some (r', out)"
  shows "typed_rd r'"
proof -
  have "r' = r\<lparr>rd_sessions := forward_session now (rd_coarseNano r) addr (MakeSessionKeyIPv4 srcIP sp) (net_IPv4 dstIP) dp flags (rd_sessions r)\<rparr>"
    using assms(2) by (auto simp: forward_nat4_def Let_def split: Option.bind_splits prod.splits)
  then show ?thesis
    using assms(1) by (auto intro!: typed_rd_sessions typed_forward_session simp: typed_rd_def)
qed

lemma typed_forward6:
  assumes "typed_rd r" "length dstIP6 = 16" "forward_nat6 D now raw addr srcIP6 dstIP6 sp dp flags r = Some (r', out)"
  shows "typed_rd r'"
proof -
  have "r' = r\<lparr>rd_sessions := forward_session now (rd_coarseNano r) addr (MakeSessionKeyIPv6 srcIP6 sp) dstIP6 dp flags (rd_sessions r)\<rparr>"
    using assms(3) by (auto simp: forward_nat6_def Let_def split: Option.bind_splits prod.splits)
  then show ?thesis
    using assms(1,2) by (auto intro!: typed_rd_sessions typed_forward_session simp: typed_rd_def)
qed

lemma typed_reverse:
  assumes "typed_rd r"
  shows "reverse_nat4 D raw addr dstIP dp r = Some (Some (r', out)) \<Longrightarrow> typed_rd r'"
    "reverse_nat6 D raw addr dstIP6 dp r = Some (Some (r', out)) \<Longrightarrow> typed_rd r'"
  using assms
  by (auto simp: reverse_nat4_def reverse_nat6_def Let_def typed_rd_def split: option.splits Option.bind_splits prod.splits if_splits
      intro!: typed_sessions_touch)

lemma typed_dry_run:
  assumes "typed_rd r" "dry_run_tcp U now raw addr c ip port off r = Some (r', out)"
  shows "typed_rd r'"
proof -
  have "yields (handleDryRunTCP U now c ip port payload r) (\<lambda>r' out. typed_rd r')" for payload
    unfolding handleDryRunTCP_def Let_def
    by (intro yields_intros) (use assms(1) in \<open>simp_all add: typed_rd_def split: option.split\<close>)
  then show ?thesis
    using assms(2) by (auto simp: dry_run_tcp_def yields_def split: Option.bind_splits if_splits)
qed

lemma typed_udp:
  assumes "typed_rd r" "udp_packet raw addr clientIP targetIP v6 fk sp dp off r = Some (Some (r', out))" "length raw \<le> 65535"
    "length clientIP = 16" "length targetIP = 16" "\<not> v6 \<longrightarrow> is_v4 clientIP \<and> is_v4 targetIP"
  shows "typed_rd r'"
  using assms
  by (auto simp: udp_packet_def dns_udp_def submit_dns_def filter_udp_def Let_def typed_rd_def typed_task_def
      split: if_splits prod.splits Option.bind_splits)


lemma typed_packet:
  assumes "typed_rd r" "packet_step U D now raw addr r = Some (r', out)"
  shows "typed_rd r'"
proof (cases "length raw = 0 \<or> length raw > 65535")
  case True
  then show ?thesis
    using assms by (auto simp: packet_step_def)
next
  case False
  have "typed_rd r1" if "ipv4_packet U D now raw addr r = Some (Some (r1, out1))" for r1 out1
    using that assms(1) False
    by (auto simp: ipv4_packet_def tcp4_packet_def split: Option.bind_splits sum.splits prod.splits if_splits
        intro: typed_forward4 typed_reverse typed_dry_run dest: typed_udp)
  moreover have "typed_rd r1" if "ipv6_packet U D now raw addr r = Some (Some (r1, out1))" for r1 out1
    using that assms(1) False
    by (auto simp: ipv6_packet_def tcp6_packet_def ParseIPv6Fast_result field_def split: Option.bind_splits sum.splits prod.splits if_splits
        intro: typed_reverse typed_dry_run dest: typed_udp dest!: typed_forward6 [rotated 2])
  ultimately show ?thesis
    using assms False
    by (auto simp: packet_step_def Let_def split: Option.bind_splits option.splits if_splits)
qed

section \<open>The invariant\<close>

lemma typed_step:
  assumes "rd_step r r'" "typed_rd r"
  shows "typed_rd r'"
  using assms
proof (induction rule: rd_step.induct)
  case (Packet U D now raw addr r r' out)
  then show ?case
    using typed_packet by blast
next
  case (Lookup r now client)
  then show ?case
    by (auto simp: LookupOriginalDestination_def Let_def typed_rd_def split: net_addr.split option.split intro!: typed_sessions_touch)
next
  case (Delete r client)
  then show ?case
    by (auto simp: DeleteSession_def typed_rd_def split: net_addr.split if_splits intro: typed_sessions_less)
next
  case (Sweep r now)
  then have "typed_sessions (sweep now LastSeen (rd_sessions r))"
    by (auto simp: sweep_def typed_rd_def split: option.splits if_splits intro: typed_sessions_less)
  then show ?case
    using Sweep by (simp add: gc_tick_def Let_def typed_rd_def)
qed (auto simp: dnsWorker_def clock_tick_def rd_Start_def rd_Close_def SetDryRun_def SetDNSEngine_def SetDNSServers_def SetUDPFilter_def
    Let_def typed_rd_def split: list.split sum.split option.split)

text \<open>
  C7: the redirector's state is well typed.  In every state that a new redirector can reach by packets, by its own background work
  and by the calls of the server and of the program entry, in whatever order and with whatever contents: every session has a
  key and a destination of 16 bytes, and an IPv4 client an IPv4 destination; every queued DNS query names a client and a server
  with addresses of 16 bytes of the family it is marked with; the queue holds no more than its capacity; and a redirector
  that is closed has no handle.
\<close>

theorem redirector_well_typed:
  assumes "rd_reachable r"
  shows "typed_rd r"
  using assms
proof (induction rule: rd_reachable.induct)
  case (new now listenAddr customFilter r)
  then show ?case
    by (auto simp: NewRedirector_def Let_def typed_rd_def typed_sessions_def dns_queue_cap_def split: option.splits if_splits prod.splits)
next
  case (step r r')
  then show ?case
    using typed_step by blast
qed

theorem redirector_well_typed_witness:
  "\<exists>r. NewRedirector None 0 ''0.0.0.0:8080'' '''' = Inr r
    \<and> typed_rd (fst (dnsWorker (fst (the (packet_step plain_unicode plain_divert 0 [0x45, 0] sample_addr r)))))"
proof -
  have "SplitHostPort ''0.0.0.0:8080'' = Some (''0.0.0.0'', ''8080'')"
    by code_simp
  moreover have "Sscanf_uint16 ''8080'' = Some 8080"
    by (simp add: Sscanf_uint16_def is_space_def is_digit_def digit_val_def)
  ultimately obtain r where r: "NewRedirector None 0 ''0.0.0.0:8080'' '''' = Inr r"
    by (simp add: NewRedirector_def)
  obtain r' out where p: "packet_step plain_unicode plain_divert 0 [0x45, 0] sample_addr r = Some (r', out)"
    using packet_step_returns by blast
  have "rd_reachable (fst (dnsWorker r'))"
    by (rule rd_reachable.step [OF rd_reachable.step [OF rd_reachable.new [OF r] rd_step.Packet [OF p]] rd_step.Worker])
  from redirector_well_typed [OF this] r p show ?thesis
    by simp
qed

section \<open>The loop of a worker\<close>

text \<open>The number of workers, and of those for DNS.\<close>

definition numWorkers :: "int \<Rightarrow> int" where
  "numWorkers numCPU = (if numCPU < 2 then 2 else if numCPU > 8 then 8 else numCPU)"

text \<open>
  What a worker meets in one turn: the context is cancelled, \<open>Recv\<close> fails, or it delivers a packet at some time.  \<open>Meanwhile\<close>: the
  other goroutines have led to another state.
\<close>

datatype loop_event = Cancelled | RecvError | Received int "byte list" WinDivertAddress | Meanwhile Redirector

text \<open>
  The state, the effects of each packet, the number of panics, from which the worker recovers, and whether it has returned.
\<close>

fun packetLoop ::
  "unicode \<Rightarrow> divert \<Rightarrow> loop_event list \<Rightarrow> Redirector \<Rightarrow> Redirector \<times> effect list list \<times> nat \<times> bool" where
  "packetLoop U D [] r = (r, [], 0, False)"
| "packetLoop U D (Cancelled # es) r = (r, [], 0, True)"
| "packetLoop U D (RecvError # es) r = (if rd_closed r then (r, [], 0, True) else packetLoop U D es r)"
| "packetLoop U D (Meanwhile r' # es) r = packetLoop U D es r'"
| "packetLoop U D (Received now raw addr # es) r =
     (case packet_step U D now raw addr r of
        None \<Rightarrow> (case packetLoop U D es r of (r, outs, panics, stopped) \<Rightarrow> (r, outs, Suc panics, stopped))
      | Some (r, out) \<Rightarrow> (case packetLoop U D es r of (r, outs, panics, stopped) \<Rightarrow> (r, out # outs, panics, stopped)))"

fun is_packet :: "loop_event \<Rightarrow> bool" where
  "is_packet (Received _ _ _) = True"
| "is_packet _ = False"

lemma dry_run_tcp_closed:
  assumes "dry_run_tcp U now raw addr c ip port off r = Some (r1, out1)"
  shows "rd_closed r1 = rd_closed r"
proof -
  have "yields (handleDryRunTCP U now c ip port payload r) (\<lambda>r' out. rd_closed r' = rd_closed r)" for payload
    unfolding handleDryRunTCP_def Let_def by (intro yields_intros) (simp_all split: option.split)
  then have hand: "handleDryRunTCP U now c ip port payload r = Some (r2, out2) \<Longrightarrow> rd_closed r2 = rd_closed r" for payload r2 out2
    unfolding yields_def by blast
  obtain payload r2 out2 where "handleDryRunTCP U now c ip port payload r = Some (r2, out2)" "r1 = r2"
    using assms by (auto simp: dry_run_tcp_def split: Option.bind_splits)
  then show ?thesis
    using hand by blast
qed

lemma packet_step_closed:
  assumes "packet_step U D now raw addr r = Some (r', out)"
  shows "rd_closed r' = rd_closed r"
proof -
  note dry = dry_run_tcp_closed
  have "ipv4_packet U D now raw addr r = Some (Some (r1, out1)) \<Longrightarrow> rd_closed r1 = rd_closed r" for r1 out1
    by (auto simp: ipv4_packet_def tcp4_packet_def forward_nat4_def reverse_nat4_def udp_packet_def dns_udp_def submit_dns_def filter_udp_def
        Let_def dest: dry split: Option.bind_splits option.splits sum.splits prod.splits if_splits)
  moreover have "ipv6_packet U D now raw addr r = Some (Some (r1, out1)) \<Longrightarrow> rd_closed r1 = rd_closed r" for r1 out1
    by (auto simp: ipv6_packet_def tcp6_packet_def forward_nat6_def reverse_nat6_def udp_packet_def dns_udp_def submit_dns_def filter_udp_def
        Let_def dest: dry split: Option.bind_splits option.splits sum.splits prod.splits if_splits)
  ultimately show ?thesis
    using assms by (auto simp: packet_step_def Let_def split: Option.bind_splits option.splits if_splits)
qed

text \<open>
  A worker serves until it is told to stop: as long as the context is not cancelled and no state is closed, it treats every packet
  that it receives, whatever errors come between, without a panic; and once the redirector is closed, the next error of \<open>Recv\<close>
  ends it.
\<close>

theorem packetLoop_serves:
  assumes "Cancelled \<notin> set es" "\<not> rd_closed r" "\<forall>r'. Meanwhile r' \<in> set es \<longrightarrow> \<not> rd_closed r'"
    "packetLoop U D es r = (r', outs, panics, stopped)"
  shows "length outs = length (filter is_packet es) \<and> panics = 0 \<and> \<not> stopped \<and> \<not> rd_closed r'
    \<and> (\<forall>closed more. rd_closed closed \<longrightarrow> packetLoop U D (Meanwhile closed # RecvError # more) r' = (closed, [], 0, True))"
  using assms
proof (induction es arbitrary: r outs panics)
  case (Cons e es)
  show ?case
  proof (cases e)
    case (Received now raw addr)
    obtain r1 out where p: "packet_step U D now raw addr r = Some (r1, out)"
      using packet_step_returns by blast
    have "\<not> rd_closed r1"
      using packet_step_closed [OF p] Cons.prems(2) by simp
    then show ?thesis
      using Cons Received p by (auto split: prod.splits)
  qed (use Cons in auto)
qed simp

theorem packetLoop_serves_witness:
  "\<exists>r' outs. packetLoop plain_unicode plain_divert [Received 0 [0x45, 0] sample_addr, RecvError, Received 1 [0x60] sample_addr] sample_rd = (r', outs, 0, False)
    \<and> length outs = 2"
proof -
  let ?es = "[Received 0 [0x45, 0] sample_addr, RecvError, Received 1 [0x60] sample_addr]"
  obtain r' outs panics stopped where l: "packetLoop plain_unicode plain_divert ?es sample_rd = (r', outs, panics, stopped)"
    using prod_cases4 by blast
  from packetLoop_serves [OF _ _ _ l] show ?thesis
    using l by (simp add: sample_rd_def)
qed

end
