(* ===== verification/AddrText.thy ===== *)
theory AddrText
  imports GoNet
begin

text \<open>
  Addresses as text: printing a number, an IPv4 address or a pair of host and port and parsing it again gives it back.  The
  components hand addresses to each other as strings, so their properties rest on these lemmas.
\<close>

section \<open>Numbers\<close>

lemma dec_val_append: "dec_val acc (xs @ ys) = dec_val (dec_val acc xs) ys"
  by (induction xs arbitrary: acc) simp_all

lemma of_digit_char: "d < 10 \<Longrightarrow> (of_char (digit_char d) :: nat) = 48 + d"
  by (simp add: digit_char_def)

lemma is_digit_digit_char: "d < 10 \<Longrightarrow> is_digit (digit_char d)"
  by (simp add: is_digit_def of_digit_char)

lemma digit_val_digit_char: "d < 10 \<Longrightarrow> digit_val (digit_char d) = d"
  by (simp add: digit_val_def of_digit_char)

lemma Itoa_simps: "Itoa n = (if n < 10 then [digit_char n] else Itoa (n div 10) @ [digit_char (n mod 10)])"
  unfolding Itoa_def by (subst base_digits.simps) simp

lemma Itoa_induct [case_names small large]:
  assumes "\<And>n. n < 10 \<Longrightarrow> P n" "\<And>n. 10 \<le> n \<Longrightarrow> P (n div 10) \<Longrightarrow> P n"
  shows "P (n :: nat)"
proof (induction n rule: less_induct)
  case (less n)
  then show ?case
    using assms by (cases "n < 10") auto
qed

lemma Itoa_digits: "list_all is_digit (Itoa n)"
  by (induction n rule: Itoa_induct) (subst Itoa_simps, simp add: is_digit_digit_char)+

lemma Itoa_not_Nil [simp]: "Itoa n \<noteq> []"
  by (subst Itoa_simps) simp

lemma dec_val_Itoa [simp]: "dec_val 0 (Itoa n) = n"
  by (induction n rule: Itoa_induct) (subst Itoa_simps, simp add: dec_val_append digit_val_digit_char)+

lemma Itoa_hd: "0 < n \<Longrightarrow> hd (Itoa n) \<noteq> CHR ''0''"
proof (induction n rule: Itoa_induct)
  case (small n)
  have "digit_char n \<noteq> CHR ''0''"
  proof
    assume "digit_char n = CHR ''0''"
    then have "(of_char (digit_char n) :: nat) = 48"
      by simp
    with small show False
      by (simp add: of_digit_char)
  qed
  then show ?case
    using small by (subst Itoa_simps) simp
next
  case (large n)
  then have "hd (Itoa n) = hd (Itoa (n div 10))"
    by (subst Itoa_simps) simp
  with large show ?case
    by simp
qed

lemma digits_no_sep: "list_all is_digit s \<Longrightarrow> c \<in> set s \<Longrightarrow> is_digit c"
  by (auto simp: list_all_iff)

lemma not_digit [simp]:
  "\<not> is_digit CHR ''.''" "\<not> is_digit CHR '':''" "\<not> is_digit CHR ''%''" "\<not> is_digit CHR ''[''" "\<not> is_digit CHR '']''"
  "\<not> is_digit CHR ''-''" "\<not> is_digit CHR ''+''"
  by (simp_all add: is_digit_def)

lemma Itoa_chars [simp]:
  "CHR ''.'' \<notin> set (Itoa n)" "CHR '':'' \<notin> set (Itoa n)" "CHR ''%'' \<notin> set (Itoa n)" "CHR ''['' \<notin> set (Itoa n)"
  "CHR '']'' \<notin> set (Itoa n)" "CHR ''-'' \<notin> set (Itoa n)" "CHR ''+'' \<notin> set (Itoa n)"
  using digits_no_sep [OF Itoa_digits] not_digit by blast+

lemma Atoi_Itoa: "n < 2 ^ 63 \<Longrightarrow> Atoi (Itoa n) = Some (int n)"
  using Itoa_digits [of n] Itoa_chars(6,7) [of n] dec_val_Itoa [of n] Itoa_not_Nil [of n]
  by (cases "Itoa n") (auto simp: Atoi_def)

section \<open>IPv4 addresses\<close>

lemma Split_append: "c \<notin> set xs \<Longrightarrow> Split (xs @ c # ys) c = xs # Split ys c"
  by (induction xs) auto

lemma Split_single: "c \<notin> set xs \<Longrightarrow> Split xs c = [xs]"
  by (induction xs) auto

lemma unat_le_255: "unat (b :: byte) \<le> 255"
  using unat_byte_less [of b] by linarith

lemma v4_field_Itoa: "v4_field (Itoa (unat (b :: byte))) = Some b"
proof -
  have "unat b \<le> 255"
    by (rule unat_le_255)
  moreover have "\<not> (1 < length (Itoa (unat b)) \<and> Itoa (unat b) ! 0 = CHR ''0'')"
  proof (cases "unat b = 0")
    case True
    then show ?thesis
      by (simp add: Itoa_simps [of 0])
  next
    case False
    then show ?thesis
      using Itoa_hd [of "unat b"] by (simp add: hd_conv_nth)
  qed
  ultimately show ?thesis
    using Itoa_digits [of "unat b"] by (auto simp: v4_field_def)
qed

lemma dotted_eq:
  "dotted [a, b, c, d] = Itoa (unat a) @ ''.'' @ Itoa (unat b) @ ''.'' @ Itoa (unat c) @ ''.'' @ Itoa (unat d)"
  by (simp add: dotted_def)

lemma length_4E:
  assumes "length xs = 4"
  obtains a b c d where "xs = [a, b, c, d]"
  using assms by (auto simp: numeral_eq_Suc length_Suc_conv)

lemma parse_v4_dotted: "length a = 4 \<Longrightarrow> parse_v4 (dotted a) = Some a"
  by (erule length_4E) (simp add: dotted_eq parse_v4_def Split_append Split_single v4_field_Itoa Let_def)

lemma dotted_chars:
  assumes "length a = 4" "c \<in> set (dotted a)"
  shows "c = CHR ''.'' \<or> is_digit c"
  using assms(2) digits_no_sep [OF Itoa_digits] by (rule_tac length_4E [OF assms(1)]) (auto simp: dotted_eq)

lemma dotted_plain [simp]:
  assumes "length a = 4"
  shows "CHR '':'' \<notin> set (dotted a)" "CHR ''%'' \<notin> set (dotted a)" "CHR ''['' \<notin> set (dotted a)" "CHR '']'' \<notin> set (dotted a)"
  using dotted_chars [OF assms] not_digit by fastforce+

lemma addr_kind_digits: "list_all is_digit xs \<Longrightarrow> addr_kind (xs @ CHR ''.'' # ys) = Some CHR ''.''"
  by (induction xs) auto

lemma addr_kind_dotted: "length a = 4 \<Longrightarrow> addr_kind (dotted a) = Some CHR ''.''"
  by (erule length_4E) (simp add: dotted_eq addr_kind_digits [OF Itoa_digits])

lemma ParseIP_dotted: "length a = 4 \<Longrightarrow> ParseIP (dotted a) = Some (v4InV6Prefix @ a)"
  by (simp add: ParseIP_def ParseAddr_def addr_kind_dotted parse_v4_dotted To16_def)

lemma IP_String_To4: "To4 ip = Some a \<Longrightarrow> IP_String ip = dotted a"
  by (auto simp: IP_String_def To4_def split: if_splits)

section \<open>Host and port\<close>

lemma SplitHostPort_JoinHostPort:
  assumes "CHR '':'' \<notin> set h" "CHR ''['' \<notin> set h" "CHR '']'' \<notin> set h" "CHR '':'' \<notin> set p" "CHR ''['' \<notin> set p" "CHR '']'' \<notin> set p"
  shows "SplitHostPort (JoinHostPort h p) = Some (h, p)"
proof -
  have "hd (h @ CHR '':'' # p) \<noteq> CHR ''[''"
    using assms(2) by (cases h) auto
  with assms show ?thesis
    by (simp add: SplitHostPort_def JoinHostPort_def LastIndexByte_append)
qed

lemma SplitHostPort_v4: "length a = 4 \<Longrightarrow> SplitHostPort (JoinHostPort (dotted a) (Itoa n)) = Some (dotted a, Itoa n)"
  by (rule SplitHostPort_JoinHostPort) simp_all

end
