(* ===== verification/IpTables.thy ===== *)
theory IpTables
  imports AddrText ConfigManager
begin

text \<open>
  The firewall rules of the Linux redirector, \<open>internal/interceptor/redirector_linux.go\<close>: the commands that install and
  remove them.  The programs \<open>iptables\<close> and \<open>ip6tables\<close> are the parameter record \<open>iptables\<close> over a state of the kernel; what is
  relied on of them is stated below as \<open>documented\<close> and \<open>working\<close>.
\<close>

section \<open>Commands\<close>

record 'k iptables =
  ip_exec :: "string \<Rightarrow> string list \<Rightarrow> 'k \<Rightarrow> 'k \<times> bool"
  ip_rules :: "string \<Rightarrow> 'k \<Rightarrow> string option"

definition iptablesChainName :: string where
  "iptablesChainName = ''TPROXY_RULES''"

definition iptablesPreroutingChain :: string where
  "iptablesPreroutingChain = ''TPROXY_PRE''"

text \<open>\<open>execCmd\<close> on the table \<open>nat\<close>; \<open>nat_cmd\<close> where the error is discarded.\<close>

definition nat_exec :: "'k iptables \<Rightarrow> string \<Rightarrow> string list \<Rightarrow> 'k \<Rightarrow> 'k \<times> bool" where
  "nat_exec I bin args k = ip_exec I bin ([''-t'', ''nat''] @ args) k"

definition nat_cmd :: "'k iptables \<Rightarrow> string \<Rightarrow> string list \<Rightarrow> 'k \<Rightarrow> 'k" where
  "nat_cmd I bin args k = fst (nat_exec I bin args k)"

definition cleanLegacyPreroutingRules :: "unicode \<Rightarrow> 'k iptables \<Rightarrow> string \<Rightarrow> 'k \<Rightarrow> 'k" where
  "cleanLegacyPreroutingRules U I bin k =
     (case ip_rules I bin k of
        None \<Rightarrow> k
      | Some out \<Rightarrow>
          fold (\<lambda>line k.
            let line = TrimSpace U line
            in if Contains line ''-p udp'' \<and> Contains line ''--dport 53'' \<and> Contains line ''-j REDIRECT'' then
                 let args = Fields U line
                 in if length args > 1 \<and> args ! 0 = ''-A'' then nat_cmd I bin (''-D'' # drop 1 args) k else k
               else k) (Split out CHR 0x0A) k)"

definition unlink_cmds :: "string list list" where
  "unlink_cmds =
     [[''-D'', ''OUTPUT'', ''-p'', ''tcp'', ''-j'', iptablesChainName],
      [''-D'', ''OUTPUT'', ''-p'', ''udp'', ''--dport'', ''53'', ''-j'', iptablesChainName],
      [''-D'', ''PREROUTING'', ''-p'', ''tcp'', ''-j'', iptablesChainName],
      [''-D'', ''PREROUTING'', ''-p'', ''udp'', ''--dport'', ''53'', ''-j'', iptablesPreroutingChain],
      [''-D'', ''PREROUTING'', ''-p'', ''udp'', ''--dport'', ''53'', ''-j'', iptablesChainName],
      [''-F'', iptablesChainName], [''-X'', iptablesChainName],
      [''-F'', iptablesPreroutingChain], [''-X'', iptablesPreroutingChain]]"

definition unlink :: "unicode \<Rightarrow> 'k iptables \<Rightarrow> string \<Rightarrow> 'k \<Rightarrow> 'k" where
  "unlink U I bin k = fold (nat_cmd I bin) unlink_cmds (cleanLegacyPreroutingRules U I bin k)"

definition removeIPTablesRules :: "unicode \<Rightarrow> 'k iptables \<Rightarrow> 'k \<Rightarrow> 'k" where
  "removeIPTablesRules U I k = unlink U I ''ip6tables'' (unlink U I ''iptables'' k)"

definition CleanupIPTables :: "unicode \<Rightarrow> 'k iptables \<Rightarrow> 'k \<Rightarrow> 'k" where
  "CleanupIPTables U I k = unlink U I ''ip6tables'' (unlink U I ''iptables'' k)"

section \<open>Installing the rules\<close>

text \<open>What the rules depend on.\<close>

record rule_env =
  re_proxyPort :: uint16
  re_dnsPort :: uint16
  re_uid :: nat
  re_dnsServers :: "string list"
  re_dnsEng :: bool

definition mark_rule :: "string list" where
  "mark_rule = [''-m'', ''mark'', ''--mark'', ''0xff'', ''-j'', ''RETURN'']"

definition owner_rule :: "nat \<Rightarrow> string list" where
  "owner_rule uid = [''-m'', ''owner'', ''--uid-owner'', Itoa uid, ''-j'', ''RETURN'']"

definition tcp_redirect :: "uint16 \<Rightarrow> string list" where
  "tcp_redirect port = [''-p'', ''tcp'', ''-j'', ''REDIRECT'', ''--to-ports'', Itoa (unat port)]"

definition dns_redirect :: "uint16 \<Rightarrow> string list" where
  "dns_redirect port = [''-p'', ''udp'', ''--dport'', ''53'', ''-j'', ''REDIRECT'', ''--to-ports'', Itoa (unat port)]"

definition tcp_hook :: "string list" where
  "tcp_hook = [''-p'', ''tcp'', ''-j'', iptablesChainName]"

definition dns_hook :: "string \<Rightarrow> string list" where
  "dns_hook chain = [''-p'', ''udp'', ''--dport'', ''53'', ''-j'', chain]"

definition bypass_own :: "'k iptables \<Rightarrow> string \<Rightarrow> nat \<Rightarrow> 'k \<Rightarrow> 'k" where
  "bypass_own I bin uid k =
     (case nat_exec I bin ([''-A'', iptablesChainName] @ mark_rule) k of
        (k, True) \<Rightarrow> k
      | (k, False) \<Rightarrow> nat_cmd I bin ([''-A'', iptablesChainName] @ owner_rule uid) k)"

definition custom_dns :: "unicode \<Rightarrow> 'k iptables \<Rightarrow> string \<Rightarrow> bool \<Rightarrow> string list \<Rightarrow> 'k \<Rightarrow> 'k" where
  "custom_dns U I bin v4 servers k =
     fold (\<lambda>s k.
       case ParseIP (TrimSpace U s) of
         None \<Rightarrow> k
       | Some ip \<Rightarrow>
           if (To4 ip \<noteq> None) = v4
           then nat_cmd I bin [''-A'', iptablesChainName, ''-d'', IP_String ip, ''-p'', ''udp'', ''--dport'', ''53'', ''-j'', ''RETURN''] k
           else k) servers k"

text \<open>The start of the chain, the same for both families but for the loopback network.\<close>

definition chain_rules :: "unicode \<Rightarrow> 'k iptables \<Rightarrow> rule_env \<Rightarrow> string \<Rightarrow> bool \<Rightarrow> string \<Rightarrow> 'k \<Rightarrow> 'k" where
  "chain_rules U I e bin v4 loopback k =
     (let k = nat_cmd I bin [''-N'', iptablesPreroutingChain] k;
          k = bypass_own I bin (re_uid e) k;
          k = nat_cmd I bin [''-A'', iptablesChainName, ''-d'', loopback, ''-j'', ''RETURN''] k
      in if length (re_dnsServers e) > 0 then custom_dns U I bin v4 (re_dnsServers e) k
         else if re_dnsEng e then nat_cmd I bin ([''-A'', iptablesChainName] @ dns_redirect (re_dnsPort e)) k
         else k)"

definition dns_hooks :: "'k iptables \<Rightarrow> rule_env \<Rightarrow> string \<Rightarrow> 'k \<Rightarrow> 'k" where
  "dns_hooks I e bin k =
     (if \<not> length (re_dnsServers e) > 0 \<and> re_dnsEng e then
        let k = nat_cmd I bin ([''-A'', ''OUTPUT''] @ dns_hook iptablesChainName) k;
            k = nat_cmd I bin ([''-A'', iptablesPreroutingChain] @ dns_redirect (re_dnsPort e + 1)) k
        in nat_cmd I bin ([''-A'', ''PREROUTING''] @ dns_hook iptablesPreroutingChain) k
      else k)"

definition apply_v4 :: "unicode \<Rightarrow> 'k iptables \<Rightarrow> rule_env \<Rightarrow> 'k \<Rightarrow> 'k \<times> string option" where
  "apply_v4 U I e k =
     (case nat_exec I ''iptables'' [''-N'', iptablesChainName] k of
        (k, False) \<Rightarrow> (k, Some ''failed to create iptables chain'')
      | (k, True) \<Rightarrow>
          (case nat_exec I ''iptables'' ([''-A'', iptablesChainName] @ tcp_redirect (re_proxyPort e))
               (chain_rules U I e ''iptables'' True ''127.0.0.0/8'' k) of
             (k, False) \<Rightarrow> (k, Some ''failed to add TCP redirect rule'')
           | (k, True) \<Rightarrow>
               (case nat_exec I ''iptables'' ([''-A'', ''OUTPUT''] @ tcp_hook) k of
                  (k, False) \<Rightarrow> (k, Some ''failed to hook into OUTPUT chain'')
                | (k, True) \<Rightarrow> (dns_hooks I e ''iptables'' (nat_cmd I ''iptables'' ([''-A'', ''PREROUTING''] @ tcp_hook) k), None))))"

definition apply_v6 :: "unicode \<Rightarrow> 'k iptables \<Rightarrow> rule_env \<Rightarrow> 'k \<Rightarrow> 'k" where
  "apply_v6 U I e k =
     (case nat_exec I ''ip6tables'' [''-N'', iptablesChainName] k of
        (k, False) \<Rightarrow> k
      | (k, True) \<Rightarrow>
          let k = chain_rules U I e ''ip6tables'' False ''::1/128'' k;
              k = nat_cmd I ''ip6tables'' ([''-A'', iptablesChainName] @ tcp_redirect (re_proxyPort e)) k;
              k = nat_cmd I ''ip6tables'' ([''-A'', ''OUTPUT''] @ tcp_hook) k;
              k = nat_cmd I ''ip6tables'' ([''-A'', ''PREROUTING''] @ tcp_hook) k
          in dns_hooks I e ''ip6tables'' k)"

definition applyIPTablesRules :: "unicode \<Rightarrow> 'k iptables \<Rightarrow> rule_env \<Rightarrow> 'k \<Rightarrow> 'k \<times> string option" where
  "applyIPTablesRules U I e k =
     (case apply_v4 U I e (removeIPTablesRules U I k) of
        (k, Some err) \<Rightarrow> (k, Some err)
      | (k, None) \<Rightarrow> (apply_v6 U I e k, None))"

section \<open>What the commands are documented to do\<close>

text \<open>The chains of the table \<open>nat\<close> with their rules, each by the arguments that specify it.\<close>

type_synonym tables = "string \<Rightarrow> string list list option"

definition effect :: "string \<Rightarrow> string \<Rightarrow> string list \<Rightarrow> tables \<Rightarrow> tables option" where
  "effect op c rule T =
     (if op = ''-N'' then (if T c = None then Some (T(c \<mapsto> [])) else None)
      else case T c of
        None \<Rightarrow> None
      | Some rs \<Rightarrow>
          if op = ''-A'' then Some (T(c \<mapsto> rs @ [rule]))
          else if op = ''-D'' then (if rule \<in> set rs then Some (T(c \<mapsto> remove1 rule rs)) else None)
          else if op = ''-F'' then Some (T(c \<mapsto> []))
          else if rs = [] then Some (T(c := None)) else None)"

text \<open>The commands in question: options, not rule numbers, follow the chain.\<close>

definition command :: "string \<Rightarrow> string list \<Rightarrow> bool" where
  "command op rule \<longleftrightarrow> op \<in> {''-N'', ''-A'', ''-D'', ''-F'', ''-X''} \<and> (rule \<noteq> [] \<longrightarrow> HasPrefix (hd rule) ''-'')
     \<and> (op \<in> {''-N'', ''-F'', ''-X''} \<longrightarrow> rule = [])"

text \<open>
  A command may fail, and then changes nothing; one that succeeds has its effect, on the tables of its own family.  \<open>V\<close> gives
  the tables of a family in a state of the kernel.
\<close>

definition documented :: "'k iptables \<Rightarrow> ('k \<Rightarrow> string \<Rightarrow> tables) \<Rightarrow> bool" where
  "documented I V \<longleftrightarrow> (\<forall>bin op c rule k k' ok. command op rule \<longrightarrow> nat_exec I bin (op # c # rule) k = (k', ok)
     \<longrightarrow> (\<forall>b. b \<noteq> bin \<longrightarrow> V k' b = V k b) \<and> (if ok then effect op c rule (V k bin) = Some (V k' bin) else V k' bin = V k bin))"

lemma documented_exec:
  assumes "documented I V" "command op rule" "nat_exec I bin (op # c # rule) k = (k', ok)"
  shows "if ok then effect op c rule (V k bin) = Some (V k' bin) else V k' bin = V k bin" "b \<noteq> bin \<Longrightarrow> V k' b = V k b"
  using assms unfolding documented_def by blast+

lemma documented_cmd:
  assumes "documented I V" "command op rule"
  shows "V (nat_cmd I bin (op # c # rule) k) bin = V k bin \<or> effect op c rule (V k bin) = Some (V (nat_cmd I bin (op # c # rule) k) bin)"
    "b \<noteq> bin \<Longrightarrow> V (nat_cmd I bin (op # c # rule) k) b = V k b"
  using documented_exec [OF assms, of bin c k "nat_cmd I bin (op # c # rule) k" "snd (nat_exec I bin (op # c # rule) k)"]
  by (auto simp: nat_cmd_def split: if_splits)

lemma effect_append: "effect ''-A'' c rule T = Some T' \<longleftrightarrow> (\<exists>rs. T c = Some rs \<and> T' = T(c \<mapsto> rs @ [rule]))"
  by (auto simp: effect_def split: option.splits)

lemma effect_new: "effect ''-N'' c rule T = Some T' \<longleftrightarrow> T c = None \<and> T' = T(c \<mapsto> [])"
  by (auto simp: effect_def)

section \<open>The proxy's own connections come first\<close>

text \<open>The chain of a family begins with the rule \<open>m\<close>, and \<open>m'\<close> is in it.\<close>

definition chain_has :: "('k \<Rightarrow> string \<Rightarrow> tables) \<Rightarrow> string \<Rightarrow> string list \<Rightarrow> string list list \<Rightarrow> 'k \<Rightarrow> bool" where
  "chain_has V bin m ms k \<longleftrightarrow> (\<exists>rs. V k bin iptablesChainName = Some (m # rs) \<and> set ms \<subseteq> set rs)"

lemma chain_has_append:
  assumes "documented I V" "chain_has V bin m ms k" "rule \<noteq> [] \<longrightarrow> HasPrefix (hd rule) ''-''"
  shows "chain_has V bin m ms (nat_cmd I b ([''-A'', c] @ rule) k)"
proof -
  have cmd: "command ''-A'' rule"
    using assms(3) by (simp add: command_def)
  obtain rs where rs: "V k bin iptablesChainName = Some (m # rs)" "set ms \<subseteq> set rs"
    using assms(2) by (auto simp: chain_has_def)
  obtain rs' where "V (nat_cmd I b (''-A'' # c # rule) k) bin iptablesChainName = Some (m # rs @ rs')"
  proof (cases "b = bin")
    case True
    then show ?thesis
      using documented_cmd(1) [OF assms(1) cmd, of bin c k] rs(1) that [of "[]"] that [of "[rule]"]
      by (cases "c = iptablesChainName") (auto simp: effect_append)
  next
    case False
    then show ?thesis
      using documented_cmd(2) [OF assms(1) cmd, of bin b c k] rs(1) that [of "[]"] by simp
  qed
  with rs(2) show ?thesis
    by (auto simp: chain_has_def)
qed

lemmas rule_defs = mark_rule_def owner_rule_def tcp_redirect_def dns_redirect_def tcp_hook_def dns_hook_def

lemma chain_has_custom:
  assumes "documented I V" "chain_has V bin m ms k"
  shows "chain_has V bin m ms (custom_dns U I b v4 servers k)"
  using assms(2)
proof (induction servers arbitrary: k)
  case (Cons s servers)
  then show ?case
    using chain_has_append [OF assms(1), of bin m ms k _ b iptablesChainName]
    by (auto simp: custom_dns_def split: option.splits)
qed (simp add: custom_dns_def)

lemma chain_has_hooks:
  assumes "documented I V" "chain_has V bin m ms k"
  shows "chain_has V bin m ms (dns_hooks I e b k)"
  unfolding dns_hooks_def Let_def using assms
  by (auto intro!: chain_has_append simp del: append_Cons simp: rule_defs)

lemma chain_has_tcp:
  assumes "documented I V" "chain_has V bin m ms k" "nat_exec I bin ([''-A'', iptablesChainName] @ rule) k = (k', True)"
    "HasPrefix (hd rule) ''-''"
  shows "chain_has V bin m (rule # ms) k'"
  using documented_exec(1) [OF assms(1), of "''-A''" rule bin iptablesChainName k k' True] assms(2-4)
  unfolding chain_has_def by (fastforce simp: command_def effect_append)

text \<open>A chain that has just been made gets the mark rule first, where the kernel knows marks.\<close>

definition marks :: "'k iptables \<Rightarrow> ('k \<Rightarrow> string \<Rightarrow> tables) \<Rightarrow> string \<Rightarrow> bool" where
  "marks I V bin \<longleftrightarrow>
     (\<forall>k. V k bin iptablesChainName \<noteq> None \<longrightarrow> snd (nat_exec I bin ([''-A'', iptablesChainName] @ mark_rule) k))"

lemma chain_rules_begin:
  assumes "documented I V" "marks I V bin" "nat_exec I bin [''-N'', iptablesChainName] k = (k', True)"
  shows "chain_has V bin mark_rule [] (chain_rules U I e bin v4 lo k')"
proof -
  let ?k1 = "nat_cmd I bin [''-N'', iptablesPreroutingChain] k'"
  have "V k' bin iptablesChainName = Some []"
    using documented_exec(1) [OF assms(1), of "''-N''" "[]" bin iptablesChainName k k' True] assms(3)
    by (simp add: command_def effect_new)
  then have k1: "V ?k1 bin iptablesChainName = Some []"
    using documented_cmd(1) [OF assms(1), of "''-N''" "[]" bin iptablesPreroutingChain k']
    by (auto simp: command_def effect_new iptablesChainName_def iptablesPreroutingChain_def)
  obtain k2 where k2: "nat_exec I bin ([''-A'', iptablesChainName] @ mark_rule) ?k1 = (k2, True)"
    using assms(2) k1 unfolding marks_def by (metis option.simps(3) prod.collapse)
  then have "V k2 bin iptablesChainName = Some [mark_rule]"
    using documented_exec(1) [OF assms(1), of "''-A''" mark_rule bin iptablesChainName ?k1 k2 True] k1
    by (auto simp: command_def effect_append mark_rule_def)
  then have b: "chain_has V bin mark_rule [] (bypass_own I bin (re_uid e) ?k1)"
    using k2 by (simp add: bypass_own_def chain_has_def)
  have "chain_has V bin mark_rule [] (nat_cmd I bin [''-A'', iptablesChainName, ''-d'', lo, ''-j'', ''RETURN''] (bypass_own I bin (re_uid e) ?k1))"
    using chain_has_append [OF assms(1) b, of "[''-d'', lo, ''-j'', ''RETURN'']"] by simp
  then show ?thesis
    using chain_has_append [OF assms(1), of bin mark_rule "[]" _ "dns_redirect (re_dnsPort e)"] chain_has_custom [OF assms(1)]
    by (auto simp: chain_rules_def Let_def dns_redirect_def)
qed

text \<open>What is done to one family leaves the other alone.\<close>

lemma other_cmd:
  assumes "documented I V" "b \<noteq> bin" "rule \<noteq> [] \<longrightarrow> HasPrefix (hd rule) ''-''"
  shows "V (nat_cmd I bin ([''-A'', c] @ rule) k) b = V k b"
  using documented_cmd(2) [OF assms(1), of "''-A''" rule b bin c k] assms(2,3) by (simp add: command_def)

lemma other_custom:
  assumes "documented I V" "b \<noteq> bin"
  shows "V (custom_dns U I bin v4 servers k) b = V k b"
proof (induction servers arbitrary: k)
  case (Cons s servers)
  then show ?case
    using other_cmd [OF assms, of _ iptablesChainName] by (simp add: custom_dns_def split: option.split)
qed (simp add: custom_dns_def)

lemma other_chain_rules:
  assumes "documented I V" "b \<noteq> bin"
  shows "V (chain_rules U I e bin v4 lo k) b = V k b" "V (dns_hooks I e bin k) b = V k b"
proof -
  note o = other_cmd [OF assms, simplified]
  have n: "V (nat_cmd I bin [''-N'', c] k) b = V k b" for c k
    using documented_cmd(2) [OF assms(1), of "''-N''" "[]" b bin c k] assms(2) by (simp add: command_def)
  have m: "V (bypass_own I bin uid k) b = V k b" for uid k
    using documented_exec(2) [OF assms(1), of "''-A''" mark_rule bin iptablesChainName k _ _ b] assms(2) o
    by (auto simp: bypass_own_def command_def rule_defs split: prod.split bool.split)
  show "V (chain_rules U I e bin v4 lo k) b = V k b" "V (dns_hooks I e bin k) b = V k b"
    using o n m other_custom [OF assms] by (simp_all add: chain_rules_def dns_hooks_def Let_def rule_defs)
qed

lemma apply_v6_other:
  assumes "documented I V"
  shows "V (apply_v6 U I e k) ''iptables'' = V k ''iptables''"
proof -
  note o = other_cmd [OF assms, where b = "''iptables''" and bin = "''ip6tables''", simplified]
  have "nat_exec I ''ip6tables'' [''-N'', iptablesChainName] k = (k', ok) \<Longrightarrow> V k' ''iptables'' = V k ''iptables''" for k' ok
    using documented_exec(2) [OF assms, of "''-N''" "[]" "''ip6tables''" iptablesChainName k k' ok "''iptables''"] by (simp add: command_def)
  then show ?thesis
    using o other_chain_rules [OF assms, of "''iptables''" "''ip6tables''"]
    by (auto simp: apply_v6_def Let_def rule_defs split: prod.split bool.split)
qed

text \<open>
  C21: the proxy's own connections are let through before anything is redirected.  Whatever commands fail on the way, as long as
  the kernel can match marks: if the rules have been installed, then the chain for IPv4 begins with the rule that lets the
  proxy's marked connections pass, and the redirection of TCP to the proxy's port is behind it.
\<close>

theorem linux_bypass_first:
  assumes "documented I V" "marks I V ''iptables''" "applyIPTablesRules U I e k = (k', None)"
  shows "\<exists>rs. V k' ''iptables'' iptablesChainName = Some (mark_rule # rs) \<and> tcp_redirect (re_proxyPort e) \<in> set rs"
proof -
  let ?has = "chain_has V ''iptables'' mark_rule"
  from assms(3) obtain k1 where v4: "apply_v4 U I e (removeIPTablesRules U I k) = (k1, None)" and k': "k' = apply_v6 U I e k1"
    by (auto simp: applyIPTablesRules_def split: prod.splits option.splits)
  from v4 obtain ka kb kc where
    a: "nat_exec I ''iptables'' [''-N'', iptablesChainName] (removeIPTablesRules U I k) = (ka, True)"
    "nat_exec I ''iptables'' ([''-A'', iptablesChainName] @ tcp_redirect (re_proxyPort e))
        (chain_rules U I e ''iptables'' True ''127.0.0.0/8'' ka) = (kb, True)"
    "nat_exec I ''iptables'' ([''-A'', ''OUTPUT''] @ tcp_hook) kb = (kc, True)"
    "k1 = dns_hooks I e ''iptables'' (nat_cmd I ''iptables'' ([''-A'', ''PREROUTING''] @ tcp_hook) kc)"
    by (auto simp: apply_v4_def split: prod.splits bool.splits)
  have "?has [tcp_redirect (re_proxyPort e)] kb"
    using chain_has_tcp [OF assms(1) chain_rules_begin [OF assms(1,2) a(1)] a(2)] by (simp add: tcp_redirect_def)
  then have "?has [tcp_redirect (re_proxyPort e)] (nat_cmd I ''iptables'' ([''-A'', ''OUTPUT''] @ tcp_hook) kb)"
    by (rule chain_has_append [OF assms(1)]) (simp add: tcp_hook_def)
  then have "?has [tcp_redirect (re_proxyPort e)] kc"
    using a(3) by (simp add: nat_cmd_def)
  then have k1: "?has [tcp_redirect (re_proxyPort e)] k1"
    unfolding a(4) by (intro chain_has_hooks chain_has_append assms(1)) (simp_all add: tcp_hook_def)
  have "V k' ''iptables'' = V k1 ''iptables''"
    unfolding k' by (rule apply_v6_other [OF assms(1)])
  with k1 show ?thesis
    by (auto simp: chain_has_def)
qed

section \<open>The rules are removed again\<close>

fun last_jump :: "string list \<Rightarrow> string option" where
  "last_jump (a # b # r) = (if b = ''-j'' then Some a else last_jump (b # r))"
| "last_jump _ = None"

definition jump_target :: "string list \<Rightarrow> string option" where
  "jump_target rule = last_jump (rev rule)"

definition referenced :: "tables \<Rightarrow> string \<Rightarrow> bool" where
  "referenced T c \<longleftrightarrow> (\<exists>d rs rule. T d = Some rs \<and> rule \<in> set rs \<and> jump_target rule = Some c)"

text \<open>The further conditions on success: targets exist, and a chain that is deleted is not referred to.\<close>

definition possible :: "string \<Rightarrow> string \<Rightarrow> string list \<Rightarrow> tables \<Rightarrow> bool" where
  "possible op c rule T \<longleftrightarrow> effect op c rule T \<noteq> None
     \<and> (op = ''-A'' \<longrightarrow> (case jump_target rule of Some t \<Rightarrow> t \<in> {''RETURN'', ''REDIRECT''} \<or> T t \<noteq> None | None \<Rightarrow> True))
     \<and> (op = ''-X'' \<longrightarrow> \<not> referenced T c)"

text \<open>
  Programs that work: what is possible succeeds; and the listing of \<open>PREROUTING\<close> shows a redirection only where there is one.
\<close>

definition working :: "'k iptables \<Rightarrow> ('k \<Rightarrow> string \<Rightarrow> tables) \<Rightarrow> unicode \<Rightarrow> bool" where
  "working I V U \<longleftrightarrow> documented I V
     \<and> (\<forall>bin op c rule k. command op rule \<longrightarrow> possible op c rule (V k bin) \<longrightarrow> snd (nat_exec I bin (op # c # rule) k))
     \<and> (\<forall>bin k out line. ip_rules I bin k = Some out \<longrightarrow> line \<in> set (Split out CHR 0x0A) \<longrightarrow> Contains (TrimSpace U line) ''-j REDIRECT''
          \<longrightarrow> (\<exists>rs. V k bin ''PREROUTING'' = Some rs \<and> (\<exists>rule \<in> set rs. ''REDIRECT'' \<in> set rule)))"

lemma working_cmd:
  assumes "working I V U" "command op rule" "possible op c rule (V k bin)"
  shows "effect op c rule (V k bin) = Some (V (nat_cmd I bin (op # c # rule) k) bin)"
proof -
  have "nat_exec I bin (op # c # rule) k = (nat_cmd I bin (op # c # rule) k, True)"
    using assms unfolding working_def nat_cmd_def by (metis (full_types) prod.collapse)
  then show ?thesis
    using documented_exec(1) [of I V op rule bin c k _ True] assms(1,2) by (auto simp: working_def)
qed

lemma impossible_cmd:
  assumes "working I V U" "command op rule" "effect op c rule (V k bin) = None"
  shows "V (nat_cmd I bin (op # c # rule) k) bin = V k bin"
  using documented_cmd(1) [of I V op rule bin c k] assms by (auto simp: working_def)

lemma append_cmd:
  assumes "working I V U" "V k bin c = Some rs" "rule \<noteq> []" "HasPrefix (hd rule) ''-''"
    "jump_target rule = Some t" "t \<in> {''RETURN'', ''REDIRECT''} \<or> V k bin t \<noteq> None"
  shows "V (nat_cmd I bin (''-A'' # c # rule) k) bin = (V k bin)(c \<mapsto> rs @ [rule])"
  using working_cmd [OF assms(1), of "''-A''" rule c k bin] assms(2-6)
  by (auto simp: command_def possible_def effect_append)

lemma new_cmd:
  assumes "working I V U" "V k bin c = None"
  shows "V (nat_cmd I bin [''-N'', c] k) bin = (V k bin)(c \<mapsto> [])"
  using working_cmd [OF assms(1), of "''-N''" "[]" c k bin] assms(2) by (auto simp: command_def possible_def effect_def)

lemma delete_cmd:
  assumes "working I V U" "V k bin c = Some rs" "rule \<noteq> []" "HasPrefix (hd rule) ''-''"
  shows "V (nat_cmd I bin (''-D'' # c # rule) k) bin = (V k bin)(c \<mapsto> remove1 rule rs)"
proof (cases "rule \<in> set rs")
  case True
  then show ?thesis
    using working_cmd [OF assms(1), of "''-D''" rule c k bin] assms(2-4) by (auto simp: command_def possible_def effect_def)
next
  case False
  then show ?thesis
    using impossible_cmd [OF assms(1), of "''-D''" rule c k bin] assms(2-4)
    by (auto simp: command_def effect_def remove1_idem fun_upd_idem)
qed

lemma flush_cmd:
  assumes "working I V U" "V k bin c = Some rs"
  shows "V (nat_cmd I bin [''-F'', c] k) bin = (V k bin)(c \<mapsto> [])"
  using working_cmd [OF assms(1), of "''-F''" "[]" c k bin] assms(2) by (auto simp: command_def possible_def effect_def)

lemma drop_cmd:
  assumes "working I V U" "V k bin c = Some []" "\<not> referenced (V k bin) c"
  shows "V (nat_cmd I bin [''-X'', c] k) bin = (V k bin)(c := None)"
  using working_cmd [OF assms(1), of "''-X''" "[]" c k bin] assms(2,3) by (auto simp: command_def possible_def effect_def)

lemma absent_cmd:
  assumes "working I V U" "V k bin c = None" "op \<in> {''-F'', ''-X''}"
  shows "V (nat_cmd I bin [op, c] k) bin = V k bin"
  using impossible_cmd [OF assms(1), of op "[]" c k bin] assms(2,3) by (auto simp: command_def effect_def)

text \<open>Tables without a trace of the proxy, and with no redirection in \<open>PREROUTING\<close>.\<close>

definition clean :: "tables \<Rightarrow> bool" where
  "clean T \<longleftrightarrow> T iptablesChainName = None \<and> T iptablesPreroutingChain = None \<and> T ''OUTPUT'' \<noteq> None \<and> T ''PREROUTING'' \<noteq> None
     \<and> (\<forall>d rs. T d = Some rs \<longrightarrow> (\<forall>rule \<in> set rs. iptablesChainName \<notin> set rule \<and> iptablesPreroutingChain \<notin> set rule))
     \<and> (\<forall>rule \<in> set (the (T ''PREROUTING'')). ''REDIRECT'' \<notin> set rule)"

lemma last_jump_mem: "last_jump rule = Some c \<Longrightarrow> c \<in> set rule"
  by (induction rule rule: last_jump.induct) (auto split: if_splits)

lemma jump_target_mem: "jump_target rule = Some c \<Longrightarrow> c \<in> set rule"
  using last_jump_mem by (fastforce simp: jump_target_def)

lemma fold_idle: "(\<And>x k. x \<in> set xs \<Longrightarrow> f x k = k) \<Longrightarrow> fold f xs k = k"
  by (induction xs) simp_all

lemma legacy_idle:
  assumes "working I V U" "V k bin ''PREROUTING'' = Some rs" "\<forall>rule \<in> set rs. ''REDIRECT'' \<notin> set rule"
  shows "cleanLegacyPreroutingRules U I bin k = k"
proof (cases "ip_rules I bin k")
  case None
  then show ?thesis
    by (simp add: cleanLegacyPreroutingRules_def)
next
  case (Some out)
  then have "\<not> Contains (TrimSpace U line) ''-j REDIRECT''" if "line \<in> set (Split out CHR 0x0A)" for line
    using that assms unfolding working_def by fastforce
  with Some show ?thesis
    unfolding cleanLegacyPreroutingRules_def by (simp add: Let_def fold_idle)
qed

text \<open>The tables with the proxy's rules in place.\<close>

definition hooks :: "string \<Rightarrow> bool \<Rightarrow> string list list" where
  "hooks chain dns = tcp_hook # (if dns then [dns_hook chain] else [])"

definition installed :: "tables \<Rightarrow> tables \<Rightarrow> bool" where
  "installed T T' \<longleftrightarrow> (\<exists>dns xs ys cs qs. T ''OUTPUT'' = Some xs \<and> T ''PREROUTING'' = Some ys
     \<and> (\<forall>rule \<in> set qs. jump_target rule = Some ''REDIRECT'')
     \<and> T' = T(''OUTPUT'' \<mapsto> xs @ hooks iptablesChainName dns, ''PREROUTING'' \<mapsto> ys @ hooks iptablesPreroutingChain dns,
              iptablesChainName \<mapsto> cs, iptablesPreroutingChain \<mapsto> qs))"

lemma chain_names [simp]:
  "iptablesChainName \<noteq> iptablesPreroutingChain" "iptablesPreroutingChain \<noteq> iptablesChainName"
  "iptablesChainName \<noteq> ''OUTPUT''" "iptablesChainName \<noteq> ''PREROUTING''" "iptablesPreroutingChain \<noteq> ''OUTPUT''"
  "iptablesPreroutingChain \<noteq> ''PREROUTING''" "iptablesChainName \<noteq> ''REDIRECT''" "iptablesPreroutingChain \<noteq> ''REDIRECT''"
  "''OUTPUT'' \<noteq> iptablesChainName" "''PREROUTING'' \<noteq> iptablesChainName" "''OUTPUT'' \<noteq> iptablesPreroutingChain"
  "''PREROUTING'' \<noteq> iptablesPreroutingChain" "''REDIRECT'' \<noteq> iptablesChainName" "''REDIRECT'' \<noteq> iptablesPreroutingChain"
  by (simp_all add: iptablesChainName_def iptablesPreroutingChain_def)

lemma hook_set [simp]:
  "set tcp_hook = {''-p'', ''tcp'', ''-j'', iptablesChainName}" "set (dns_hook c) = {''-p'', ''udp'', ''--dport'', ''53'', ''-j'', c}"
  by (auto simp: tcp_hook_def dns_hook_def)

lemma unlink_cmds_hooks:
  "unlink_cmds = [''-D'' # ''OUTPUT'' # tcp_hook, ''-D'' # ''OUTPUT'' # dns_hook iptablesChainName, ''-D'' # ''PREROUTING'' # tcp_hook,
     ''-D'' # ''PREROUTING'' # dns_hook iptablesPreroutingChain, ''-D'' # ''PREROUTING'' # dns_hook iptablesChainName,
     [''-F'', iptablesChainName], [''-X'', iptablesChainName], [''-F'', iptablesPreroutingChain], [''-X'', iptablesPreroutingChain]]"
  by (simp add: unlink_cmds_def tcp_hook_def dns_hook_def)

lemma hook_shape [simp]: "tcp_hook \<noteq> []" "dns_hook c \<noteq> []" "HasPrefix (hd tcp_hook) ''-''" "HasPrefix (hd (dns_hook c)) ''-''"
  "tcp_hook \<noteq> dns_hook c" "dns_hook c \<noteq> tcp_hook" "dns_hook c = dns_hook d \<longleftrightarrow> c = d"
  by (simp_all add: tcp_hook_def dns_hook_def)

text \<open>Deleting the hooks of a chain.\<close>

lemma unhook:
  assumes "\<forall>rule \<in> set xs. iptablesChainName \<notin> set rule \<and> iptablesPreroutingChain \<notin> set rule" "c \<in> {iptablesChainName, iptablesPreroutingChain}"
  shows "remove1 (dns_hook c) (remove1 tcp_hook (xs @ hooks c dns)) = xs"
    "remove1 tcp_hook xs = xs" "remove1 (dns_hook c) xs = xs"
proof -
  have "tcp_hook \<notin> set xs"
    using bspec [OF assms(1), of tcp_hook] by auto
  moreover have "dns_hook c \<notin> set xs"
    using bspec [OF assms(1), of "dns_hook c"] assms(2) by auto
  ultimately show "remove1 (dns_hook c) (remove1 tcp_hook (xs @ hooks c dns)) = xs" "remove1 tcp_hook xs = xs" "remove1 (dns_hook c) xs = xs"
    by (simp_all add: hooks_def remove1_append remove1_idem)
qed

lemma fold_keeps:
  assumes "\<And>cmd k. cmd \<in> set cmds \<Longrightarrow> V k bin = T \<Longrightarrow> V (nat_cmd I bin cmd k) bin = T" "V k bin = T"
  shows "V (fold (nat_cmd I bin) cmds k) bin = T"
  using assms by (induction cmds arbitrary: k) auto

lemma clean_chains:
  assumes "clean T"
  obtains xs ys where "T ''OUTPUT'' = Some xs" "T ''PREROUTING'' = Some ys" "T iptablesChainName = None"
    "T iptablesPreroutingChain = None" "\<forall>rule \<in> set xs. iptablesChainName \<notin> set rule \<and> iptablesPreroutingChain \<notin> set rule"
    "\<forall>rule \<in> set ys. iptablesChainName \<notin> set rule \<and> iptablesPreroutingChain \<notin> set rule" "\<forall>rule \<in> set ys. ''REDIRECT'' \<notin> set rule"
  using assms unfolding clean_def by fastforce

lemma unlink_clean:
  assumes "working I V U" "clean (V k bin)"
  shows "V (unlink U I bin k) bin = V k bin"
proof -
  obtain xs ys where t: "V k bin ''OUTPUT'' = Some xs" "V k bin ''PREROUTING'' = Some ys" "V k bin iptablesChainName = None"
    "V k bin iptablesPreroutingChain = None"
    and free: "\<forall>rule \<in> set xs. iptablesChainName \<notin> set rule \<and> iptablesPreroutingChain \<notin> set rule"
    "\<forall>rule \<in> set ys. iptablesChainName \<notin> set rule \<and> iptablesPreroutingChain \<notin> set rule" "\<forall>rule \<in> set ys. ''REDIRECT'' \<notin> set rule"
    by (rule clean_chains [OF assms(2)])
  note u = unhook(2) [OF free(1), of iptablesChainName] unhook(2) [OF free(2), of iptablesChainName] unhook(3) [OF free(1)] unhook(3) [OF free(2)]
  have d: "V (nat_cmd I bin (''-D'' # c # rule) k') bin = V k bin"
    if "V k' bin = V k bin" "V k bin c = Some rs" "remove1 rule rs = rs" "rule \<noteq> []" "HasPrefix (hd rule) ''-''" for c rule rs k'
    using delete_cmd [OF assms(1), of k' bin c rs rule] that by (simp add: fun_upd_idem)
  have a: "V (nat_cmd I bin [op, c] k') bin = V k bin" if "V k' bin = V k bin" "V k bin c = None" "op \<in> {''-F'', ''-X''}" for op c k'
    using absent_cmd [OF assms(1), of k' bin c op] that by simp
  note o = d [OF _ t(1) u(1) hook_shape(1,3)] d [OF _ t(2) u(2) hook_shape(1,3)] d [OF _ t(1) u(3) hook_shape(2,4)]
    d [OF _ t(2) u(4) hook_shape(2,4)]
  have "V (fold (nat_cmd I bin) unlink_cmds k) bin = V k bin"
    unfolding unlink_cmds_hooks fold.simps comp_apply id_apply by (intro a o refl t) simp_all
  then show ?thesis
    unfolding unlink_def legacy_idle [OF assms(1), OF t(2) free(3)] .
qed

text \<open>The four chains at stake.\<close>

definition four :: "tables \<Rightarrow> string list list \<Rightarrow> string list list \<Rightarrow> string list list option \<Rightarrow> string list list option \<Rightarrow> tables" where
  "four T xs ys cs qs = T(''OUTPUT'' \<mapsto> xs, ''PREROUTING'' \<mapsto> ys, iptablesChainName := cs, iptablesPreroutingChain := qs)"

lemma four_chains [simp]:
  "four T xs ys cs qs ''OUTPUT'' = Some xs" "four T xs ys cs qs ''PREROUTING'' = Some ys"
  "four T xs ys cs qs iptablesChainName = cs" "four T xs ys cs qs iptablesPreroutingChain = qs"
  by (simp_all add: four_def)

lemma four_updates [simp]:
  "(four T xs ys cs qs)(''OUTPUT'' \<mapsto> zs) = four T zs ys cs qs" "(four T xs ys cs qs)(''PREROUTING'' \<mapsto> zs) = four T xs zs cs qs"
  "(four T xs ys cs qs)(iptablesChainName := ch) = four T xs ys ch qs" "(four T xs ys cs qs)(iptablesPreroutingChain := ch) = four T xs ys cs ch"
  by (auto simp: four_def fun_eq_iff)

lemma four_referenced:
  assumes "clean T" "c \<in> {iptablesChainName, iptablesPreroutingChain}" "T ''OUTPUT'' = Some xs" "T ''PREROUTING'' = Some ys"
    "\<forall>rs \<in> set_option cs \<union> set_option qs. \<forall>rule \<in> set rs. jump_target rule \<noteq> Some c"
  shows "\<not> referenced (four T xs ys cs qs) c"
proof
  assume "referenced (four T xs ys cs qs) c"
  then obtain d rs rule where r: "four T xs ys cs qs d = Some rs" "rule \<in> set rs" "jump_target rule = Some c"
    by (auto simp: referenced_def)
  then have "T d = Some rs"
    using assms(3-5) by (auto simp: four_def split: if_splits)
  with r(2) assms(1,2) jump_target_mem [OF r(3)] show False
    by (auto simp: clean_def)
qed

lemma unlink_installed:
  assumes "working I V U" "clean T" "installed T (V k bin)"
  shows "V (unlink U I bin k) bin = T"
proof -
  obtain xs ys where t: "T ''OUTPUT'' = Some xs" "T ''PREROUTING'' = Some ys" "T iptablesChainName = None" "T iptablesPreroutingChain = None"
    and free: "\<forall>rule \<in> set xs. iptablesChainName \<notin> set rule \<and> iptablesPreroutingChain \<notin> set rule"
    "\<forall>rule \<in> set ys. iptablesChainName \<notin> set rule \<and> iptablesPreroutingChain \<notin> set rule" "\<forall>rule \<in> set ys. ''REDIRECT'' \<notin> set rule"
    by (rule clean_chains [OF assms(2)])
  obtain dns cs qs where qs: "\<forall>rule \<in> set qs. jump_target rule = Some ''REDIRECT''"
    and V: "V k bin = four T (xs @ hooks iptablesChainName dns) (ys @ hooks iptablesPreroutingChain dns) (Some cs) (Some qs)"
    using assms(3) t(1,2) unfolding installed_def four_def by fastforce
  have l: "cleanLegacyPreroutingRules U I bin k = k"
    by (rule legacy_idle [OF assms(1), of k bin "ys @ hooks iptablesPreroutingChain dns"])
      (use V free(3) in \<open>auto simp: hooks_def split: if_splits\<close>)
  have d: "V (nat_cmd I bin (''-D'' # c # rule) k') bin = (V k' bin)(c \<mapsto> remove1 rule rs)"
    if "V k' bin c = Some rs" "rule \<noteq> []" "HasPrefix (hd rule) ''-''" for c rule rs k'
    by (rule delete_cmd [OF assms(1) that])
  define k1 where "k1 = nat_cmd I bin (''-D'' # ''OUTPUT'' # dns_hook iptablesChainName) (nat_cmd I bin (''-D'' # ''OUTPUT'' # tcp_hook) k)"
  have k1: "V k1 bin = four T xs (ys @ hooks iptablesPreroutingChain dns) (Some cs) (Some qs)"
    unfolding k1_def using unhook(1) [OF free(1)] V by (simp add: d)
  define k2 where "k2 = nat_cmd I bin (''-D'' # ''PREROUTING'' # dns_hook iptablesChainName) (nat_cmd I bin (''-D'' # ''PREROUTING'' # dns_hook iptablesPreroutingChain)
    (nat_cmd I bin (''-D'' # ''PREROUTING'' # tcp_hook) k1))"
  have k2: "V k2 bin = four T xs ys (Some cs) (Some qs)"
    unfolding k2_def using unhook [OF free(2)] k1 by (simp add: d)
  define k3 where "k3 = nat_cmd I bin [''-X'', iptablesChainName] (nat_cmd I bin [''-F'', iptablesChainName] k2)"
  have "\<not> referenced (four T xs ys (Some []) (Some qs)) iptablesChainName"
    using qs by (intro four_referenced [OF assms(2) _ t(1,2)]) auto
  then have k3: "V k3 bin = four T xs ys None (Some qs)"
    unfolding k3_def using k2 by (simp add: flush_cmd [OF assms(1)] drop_cmd [OF assms(1)])
  have "\<not> referenced (four T xs ys None (Some [])) iptablesPreroutingChain"
    by (intro four_referenced [OF assms(2) _ t(1,2)]) auto
  then have "V (nat_cmd I bin [''-X'', iptablesPreroutingChain] (nat_cmd I bin [''-F'', iptablesPreroutingChain] k3)) bin = four T xs ys None None"
    using k3 by (simp add: flush_cmd [OF assms(1)] drop_cmd [OF assms(1)])
  moreover have "four T xs ys None None = T"
    using t by (auto simp: four_def fun_eq_iff)
  ultimately show ?thesis
    by (simp add: unlink_def unlink_cmds_hooks l k1_def k2_def k3_def)
qed

text \<open>Installing the rules of one family, when all commands succeed.\<close>

definition install :: "unicode \<Rightarrow> 'k iptables \<Rightarrow> rule_env \<Rightarrow> string \<Rightarrow> bool \<Rightarrow> string \<Rightarrow> 'k \<Rightarrow> 'k" where
  "install U I e bin v4 lo k =
     dns_hooks I e bin (nat_cmd I bin (''-A'' # ''PREROUTING'' # tcp_hook) (nat_cmd I bin (''-A'' # ''OUTPUT'' # tcp_hook)
       (nat_cmd I bin (''-A'' # iptablesChainName # tcp_redirect (re_proxyPort e))
         (chain_rules U I e bin v4 lo (nat_cmd I bin [''-N'', iptablesChainName] k)))))"

lemma apply_v4_install:
  "apply_v4 U I e k = (k', None) \<Longrightarrow> k' = install U I e ''iptables'' True ''127.0.0.0/8'' k"
  by (auto simp: apply_v4_def install_def nat_cmd_def split: prod.splits bool.splits)

lemma apply_v6_install:
  assumes "working I V U" "V k ''ip6tables'' iptablesChainName = None"
  shows "apply_v6 U I e k = install U I e ''ip6tables'' False ''::1/128'' k"
proof -
  have "snd (nat_exec I ''ip6tables'' [''-N'', iptablesChainName] k)"
    using assms unfolding working_def by (auto simp: command_def possible_def effect_def)
  then show ?thesis
    by (auto simp: apply_v6_def install_def nat_cmd_def Let_def split: prod.splits bool.splits)
qed

text \<open>A rule of the chain that ends in a known target.\<close>

lemma append_chain:
  assumes "working I V U" "V k bin = four T xs ys (Some cs) (Some qs)" "rule \<noteq> []" "HasPrefix (hd rule) ''-''"
    "jump_target rule \<in> {Some ''RETURN'', Some ''REDIRECT''}"
  shows "V (nat_cmd I bin (''-A'' # iptablesChainName # rule) k) bin = four T xs ys (Some (cs @ [rule])) (Some qs)"
  using append_cmd [OF assms(1), of k bin iptablesChainName cs rule "the (jump_target rule)"] assms(2-5) by auto

lemma custom_chain:
  assumes "working I V U" "V k bin = four T xs ys (Some cs) (Some qs)"
  shows "\<exists>cs'. V (custom_dns U I bin v4 servers k) bin = four T xs ys (Some cs') (Some qs)"
  using assms(2)
proof (induction servers arbitrary: k cs)
  case Nil
  then show ?case
    by (auto simp: custom_dns_def)
next
  case (Cons s servers)
  have "\<exists>cs'. V (custom_dns U I bin v4 [s] k) bin = four T xs ys (Some cs') (Some qs)"
    using append_chain [OF assms(1), OF Cons.prems, of "[''-d'', _, ''-p'', ''udp'', ''--dport'', ''53'', ''-j'', ''RETURN'']"] Cons.prems
    by (auto simp: custom_dns_def jump_target_def split: option.split)
  then obtain cs' where "V (custom_dns U I bin v4 [s] k) bin = four T xs ys (Some cs') (Some qs)"
    by blast
  from Cons.IH [OF this] show ?case
    by (simp add: custom_dns_def)
qed

lemma hook_target [simp]: "jump_target tcp_hook = Some iptablesChainName" "jump_target (dns_hook c) = Some c"
  by (simp_all add: tcp_hook_def dns_hook_def jump_target_def)

lemma bypass_chain:
  assumes "working I V U" "V k bin = four T xs ys (Some cs) (Some qs)"
  shows "V (bypass_own I bin uid k) bin = four T xs ys (Some (cs @ [mark_rule])) (Some qs)"
proof -
  have "possible ''-A'' iptablesChainName mark_rule (V k bin)"
    using assms(2) by (simp add: possible_def effect_def mark_rule_def jump_target_def)
  then have "snd (nat_exec I bin (''-A'' # iptablesChainName # mark_rule) k)"
    using assms(1) unfolding working_def by (auto simp: command_def mark_rule_def)
  then have "bypass_own I bin uid k = nat_cmd I bin (''-A'' # iptablesChainName # mark_rule) k"
    by (cases "nat_exec I bin (''-A'' # iptablesChainName # mark_rule) k") (simp add: bypass_own_def nat_cmd_def)
  then show ?thesis
    using append_chain [OF assms(1), OF assms(2), of mark_rule] by (simp add: mark_rule_def jump_target_def)
qed

lemma install_steps:
  assumes "working I V U" "clean (V k bin)"
  shows "installed (V k bin) (V (install U I e bin v4 lo k) bin)"
    "\<exists>xs ys cs. V (chain_rules U I e bin v4 lo (nat_cmd I bin [''-N'', iptablesChainName] k)) bin = four (V k bin) xs ys (Some cs) (Some [])"
proof -
  obtain xs ys where t: "V k bin ''OUTPUT'' = Some xs" "V k bin ''PREROUTING'' = Some ys" "V k bin iptablesChainName = None"
    "V k bin iptablesPreroutingChain = None"
    by (rule clean_chains [OF assms(2)])
  let ?T = "V k bin" and ?dns = "\<not> length (re_dnsServers e) > 0 \<and> re_dnsEng e"
  have "?T = four ?T xs ys None None"
    using t by (auto simp: four_def fun_eq_iff)
  then have k1: "V (nat_cmd I bin [''-N'', iptablesChainName] k) bin = four ?T xs ys (Some []) None"
    using new_cmd [OF assms(1), of k bin iptablesChainName] t(3) by (metis four_updates(3))
  define k2 where "k2 = nat_cmd I bin [''-N'', iptablesPreroutingChain] (nat_cmd I bin [''-N'', iptablesChainName] k)"
  have k2: "V k2 bin = four ?T xs ys (Some []) (Some [])"
    unfolding k2_def using new_cmd [OF assms(1)] k1 by simp
  define k3 where "k3 = bypass_own I bin (re_uid e) k2"
  have "V k3 bin = four ?T xs ys (Some [mark_rule]) (Some [])"
    unfolding k3_def using bypass_chain [OF assms(1), OF k2] by simp
  then have k3: "V (nat_cmd I bin [''-A'', iptablesChainName, ''-d'', lo, ''-j'', ''RETURN''] k3) bin
      = four ?T xs ys (Some [mark_rule, [''-d'', lo, ''-j'', ''RETURN'']]) (Some [])"
    using append_chain [OF assms(1), of k3 bin ?T xs ys "[mark_rule]" "[]" "[''-d'', lo, ''-j'', ''RETURN'']"] by (simp add: jump_target_def)
  define k4 where "k4 = chain_rules U I e bin v4 lo (nat_cmd I bin [''-N'', iptablesChainName] k)"
  have "\<exists>cs. V k4 bin = four ?T xs ys (Some cs) (Some [])"
    using custom_chain [OF assms(1), OF k3] append_chain [OF assms(1), OF k3, of "dns_redirect (re_dnsPort e)"] k3
    by (auto simp: k4_def chain_rules_def Let_def k2_def [symmetric] k3_def [symmetric] dns_redirect_def jump_target_def)
  then obtain cs where k4: "V k4 bin = four ?T xs ys (Some cs) (Some [])"
    by blast
  define k5 where "k5 = nat_cmd I bin (''-A'' # iptablesChainName # tcp_redirect (re_proxyPort e)) k4"
  have k5: "V k5 bin = four ?T xs ys (Some (cs @ [tcp_redirect (re_proxyPort e)])) (Some [])"
    unfolding k5_def by (rule append_chain [OF assms(1), OF k4]) (simp_all add: tcp_redirect_def jump_target_def)
  define k6 where "k6 = nat_cmd I bin (''-A'' # ''PREROUTING'' # tcp_hook) (nat_cmd I bin (''-A'' # ''OUTPUT'' # tcp_hook) k5)"
  have k6: "V k6 bin = four ?T (xs @ [tcp_hook]) (ys @ [tcp_hook]) (Some (cs @ [tcp_redirect (re_proxyPort e)])) (Some [])"
    unfolding k6_def using k5 by (simp add: append_cmd [OF assms(1), where t = iptablesChainName] hook_target)
  have "\<exists>qs. (\<forall>rule \<in> set qs. jump_target rule = Some ''REDIRECT'') \<and> V (dns_hooks I e bin k6) bin =
      four ?T (xs @ hooks iptablesChainName ?dns) (ys @ hooks iptablesPreroutingChain ?dns) (Some (cs @ [tcp_redirect (re_proxyPort e)])) (Some qs)"
  proof (cases ?dns)
    case True
    have "jump_target (dns_redirect p) = Some ''REDIRECT''" "dns_redirect p \<noteq> []" "HasPrefix (hd (dns_redirect p)) ''-''" for p
      by (simp_all add: dns_redirect_def jump_target_def)
    with True k6 show ?thesis
      by (intro exI [of _ "[dns_redirect (re_dnsPort e + 1)]"])
        (simp add: dns_hooks_def Let_def hooks_def append_cmd [OF assms(1), where t = iptablesChainName]
          append_cmd [OF assms(1), where t = iptablesPreroutingChain] append_cmd [OF assms(1), where t = "''REDIRECT''"] hook_target)
  next
    case False
    with k6 show ?thesis
      by (intro exI [of _ "[]"]) (auto simp: dns_hooks_def hooks_def)
  qed
  then show "installed (V k bin) (V (install U I e bin v4 lo k) bin)"
    unfolding install_def installed_def using t(1,2) by (auto simp: four_def k4_def k5_def k6_def)
  show "\<exists>xs ys cs. V (chain_rules U I e bin v4 lo (nat_cmd I bin [''-N'', iptablesChainName] k)) bin = four ?T xs ys (Some cs) (Some [])"
    using k4 unfolding k4_def by blast
qed

lemma working_exec:
  assumes "working I V U" "command op rule" "possible op c rule (V k bin)"
  shows "nat_exec I bin (op # c # rule) k = (nat_cmd I bin (op # c # rule) k, True)"
  using assms unfolding working_def nat_cmd_def by (metis (full_types) prod.collapse)

lemma apply_v4_works:
  assumes "working I V U" "clean (V k ''iptables'')"
  shows "apply_v4 U I e k = (install U I e ''iptables'' True ''127.0.0.0/8'' k, None)"
proof -
  let ?k1 = "nat_cmd I ''iptables'' [''-N'', iptablesChainName] k"
  let ?k2 = "chain_rules U I e ''iptables'' True ''127.0.0.0/8'' ?k1"
  let ?k3 = "nat_cmd I ''iptables'' (''-A'' # iptablesChainName # tcp_redirect (re_proxyPort e)) ?k2"
  have "nat_exec I ''iptables'' [''-N'', iptablesChainName] k = (?k1, True)"
    using assms(2) by (intro working_exec [OF assms(1)]) (auto simp: command_def possible_def effect_def clean_def)
  moreover obtain xs ys cs where k2: "V ?k2 ''iptables'' = four (V k ''iptables'') xs ys (Some cs) (Some [])"
    using install_steps(2) [OF assms(1), OF assms(2)] by blast
  moreover have "nat_exec I ''iptables'' (''-A'' # iptablesChainName # tcp_redirect (re_proxyPort e)) ?k2 = (?k3, True)"
    using k2 by (intro working_exec [OF assms(1)]) (auto simp: command_def possible_def effect_def tcp_redirect_def jump_target_def)
  moreover have "V ?k3 ''iptables'' = four (V k ''iptables'') xs ys (Some (cs @ [tcp_redirect (re_proxyPort e)])) (Some [])"
    by (rule append_chain [OF assms(1), OF k2]) (simp_all add: tcp_redirect_def jump_target_def)
  then have "nat_exec I ''iptables'' (''-A'' # ''OUTPUT'' # tcp_hook) ?k3 = (nat_cmd I ''iptables'' (''-A'' # ''OUTPUT'' # tcp_hook) ?k3, True)"
    by (intro working_exec [OF assms(1)]) (auto simp: command_def possible_def effect_def)
  ultimately show ?thesis
    by (simp add: apply_v4_def install_def)
qed

lemma other_new: "documented I V \<Longrightarrow> b \<noteq> bin \<Longrightarrow> V (nat_cmd I bin [''-N'', c] k) b = V k b"
  using documented_cmd(2) [of I V "''-N''" "[]" b bin c k] by (simp add: command_def)

lemma other_install:
  assumes "documented I V" "b \<noteq> bin"
  shows "V (install U I e bin v4 lo k) b = V k b"
  unfolding install_def
  using other_chain_rules [OF assms(1), OF assms(2)] other_cmd [OF assms(1), OF assms(2)] other_new [OF assms(1), OF assms(2)]
  by (simp add: tcp_redirect_def)

lemma other_unlink:
  assumes "documented I V" "b \<noteq> bin" "cleanLegacyPreroutingRules U I bin k = k"
  shows "V (unlink U I bin k) b = V k b"
proof -
  have "V (nat_cmd I bin (op # c # rule) k') b = V k' b" if "command op rule" for op c rule k'
    by (rule documented_cmd(2) [OF assms(1), OF that assms(2)])
  then show ?thesis
    by (simp add: unlink_def unlink_cmds_hooks assms(3) command_def)
qed

lemma installed_idle:
  assumes "working I V U" "clean T" "installed T (V k bin)"
  shows "cleanLegacyPreroutingRules U I bin k = k"
proof -
  obtain dns ys where "T ''PREROUTING'' = Some ys" "V k bin ''PREROUTING'' = Some (ys @ hooks iptablesPreroutingChain dns)"
    using assms(3) by (auto simp: installed_def)
  then show ?thesis
    using assms(2) by (intro legacy_idle [OF assms(1), of k bin "ys @ hooks iptablesPreroutingChain dns"])
      (auto simp: hooks_def clean_def split: if_splits)
qed

lemma clean_idle:
  assumes "working I V U" "clean (V k bin)"
  shows "cleanLegacyPreroutingRules U I bin k = k"
  by (rule clean_chains [OF assms(2)]) (rule legacy_idle [OF assms(1)])

lemma remove_clean:
  assumes "working I V U" "clean (V k ''iptables'')" "clean (V k ''ip6tables'')" "b \<in> {''iptables'', ''ip6tables''}"
  shows "V (removeIPTablesRules U I k) b = V k b"
proof -
  have doc: "documented I V"
    using assms(1) by (simp add: working_def)
  let ?k = "unlink U I ''iptables'' k"
  have "V ?k ''iptables'' = V k ''iptables''" "V ?k ''ip6tables'' = V k ''ip6tables''"
    using unlink_clean [OF assms(1), OF assms(2)] other_unlink [OF doc _ clean_idle [OF assms(1), OF assms(2)]] by simp_all
  moreover from this have "V (unlink U I ''ip6tables'' ?k) ''ip6tables'' = V ?k ''ip6tables''"
    "V (unlink U I ''ip6tables'' ?k) ''iptables'' = V ?k ''iptables''"
    using unlink_clean [OF assms(1), of ?k "''ip6tables''"] other_unlink [OF doc, of "''iptables''" "''ip6tables''"] clean_idle [OF assms(1), of ?k "''ip6tables''"] assms(3)
    by simp_all
  ultimately show ?thesis
    using assms(4) by (auto simp: removeIPTablesRules_def)
qed

lemma remove_installed:
  assumes "working I V U" "\<And>b. b \<in> {''iptables'', ''ip6tables''} \<Longrightarrow> clean (T b) \<and> installed (T b) (V k b)" "b \<in> {''iptables'', ''ip6tables''}"
  shows "V (removeIPTablesRules U I k) b = T b"
proof -
  have doc: "documented I V"
    using assms(1) by (simp add: working_def)
  have i: "clean (T ''iptables'')" "installed (T ''iptables'') (V k ''iptables'')" "clean (T ''ip6tables'')"
    "installed (T ''ip6tables'') (V k ''ip6tables'')"
    using assms(2) by simp_all
  let ?k = "unlink U I ''iptables'' k"
  have k: "V ?k ''iptables'' = T ''iptables''" "V ?k ''ip6tables'' = V k ''ip6tables''"
    using unlink_installed [OF assms(1), OF i(1,2)] other_unlink [OF doc _ installed_idle [OF assms(1), OF i(1,2)]] by simp_all
  then have "installed (T ''ip6tables'') (V ?k ''ip6tables'')"
    using i(4) by simp
  then have "V (unlink U I ''ip6tables'' ?k) ''ip6tables'' = T ''ip6tables''" "V (unlink U I ''ip6tables'' ?k) ''iptables'' = V ?k ''iptables''"
    using unlink_installed [OF assms(1), OF i(3)] other_unlink [OF doc _ installed_idle [OF assms(1), OF i(3)]] by simp_all
  with k show ?thesis
    using assms(3) by (auto simp: removeIPTablesRules_def)
qed

lemma apply_installs:
  assumes "working I V U" "clean (V k ''iptables'')" "clean (V k ''ip6tables'')"
  shows "\<exists>k1. applyIPTablesRules U I e k = (k1, None) \<and> (\<forall>b \<in> {''iptables'', ''ip6tables''}. installed (V k b) (V k1 b))"
proof -
  have doc: "documented I V"
    using assms(1) by (simp add: working_def)
  let ?k = "removeIPTablesRules U I k"
  have k: "V ?k ''iptables'' = V k ''iptables''" "V ?k ''ip6tables'' = V k ''ip6tables''"
    using remove_clean [OF assms(1), OF assms(2,3)] by simp_all
  let ?k4 = "install U I e ''iptables'' True ''127.0.0.0/8'' ?k"
  have v4: "apply_v4 U I e ?k = (?k4, None)" "installed (V k ''iptables'') (V ?k4 ''iptables'')" "V ?k4 ''ip6tables'' = V k ''ip6tables''"
    using apply_v4_works [OF assms(1), of ?k e] install_steps(1) [OF assms(1), of ?k "''iptables''"] other_install [OF doc] assms(2) k
    by simp_all
  have c: "clean (V ?k4 ''ip6tables'')"
    using v4(3) assms(3) by simp
  then have "V ?k4 ''ip6tables'' iptablesChainName = None"
    by (simp add: clean_def)
  then have v6: "apply_v6 U I e ?k4 = install U I e ''ip6tables'' False ''::1/128'' ?k4"
    by (rule apply_v6_install [OF assms(1)])
  have "installed (V k ''ip6tables'') (V (apply_v6 U I e ?k4) ''ip6tables'')" "V (apply_v6 U I e ?k4) ''iptables'' = V ?k4 ''iptables''"
    unfolding v6 using install_steps(1) [OF assms(1), OF c] other_install [OF doc] v4(3) by simp_all
  with v4 show ?thesis
    by (simp add: applyIPTablesRules_def)
qed

text \<open>With programs that work, on clean tables: installing succeeds, and removing gives back the tables there were.\<close>

lemma rules_removed:
  assumes "working I V U" "clean (V k ''iptables'')" "clean (V k ''ip6tables'')" "b \<in> {''iptables'', ''ip6tables''}"
  shows "\<exists>k1. applyIPTablesRules U I e k = (k1, None) \<and> installed (V k b) (V k1 b)
    \<and> V (removeIPTablesRules U I k1) b = V k b \<and> V (CleanupIPTables U I k1) b = V k b"
proof -
  obtain k1 where k1: "applyIPTablesRules U I e k = (k1, None)" "\<forall>b \<in> {''iptables'', ''ip6tables''}. installed (V k b) (V k1 b)"
    using apply_installs [OF assms(1), OF assms(2,3)] by blast
  then have "V (removeIPTablesRules U I k1) b = V k b"
    using assms(2,3) by (intro remove_installed [OF assms(1) _ assms(4)]) auto
  with k1 assms(4) show ?thesis
    by (auto simp: CleanupIPTables_def removeIPTablesRules_def)
qed

section \<open>A sample\<close>

text \<open>Programs that do what they are documented to do, on tables held directly.\<close>

definition table_exec :: "string \<Rightarrow> string list \<Rightarrow> (string \<Rightarrow> tables) \<Rightarrow> (string \<Rightarrow> tables) \<times> bool" where
  "table_exec bin args k =
     (case args of
        _ # _ # op # c # rule \<Rightarrow>
          if command op rule \<and> possible op c rule (k bin) then (k(bin := the (effect op c rule (k bin))), True) else (k, False)
      | _ \<Rightarrow> (k, False))"

definition table_programs :: "(string \<Rightarrow> tables) iptables" where
  "table_programs = \<lparr>ip_exec = table_exec, ip_rules = (\<lambda>_ _. None)\<rparr>"

lemma table_programs_work: "documented table_programs id" "working table_programs id U"
  by (auto simp: working_def documented_def table_programs_def nat_exec_def table_exec_def possible_def split: if_splits)

definition empty_tables :: "string \<Rightarrow> tables" where
  "empty_tables = (\<lambda>_. [''OUTPUT'' \<mapsto> [], ''PREROUTING'' \<mapsto> []])"

lemma empty_tables_clean: "clean (empty_tables b)"
  by (auto simp: clean_def empty_tables_def split: if_splits)

definition sample_env :: rule_env where
  "sample_env = \<lparr>re_proxyPort = 18080, re_dnsPort = 18180, re_uid = 0, re_dnsServers = [], re_dnsEng = True\<rparr>"

theorem linux_bypass_first_witness:
  "\<exists>rs. id (fst (applyIPTablesRules plain_unicode table_programs sample_env empty_tables)) ''iptables'' iptablesChainName
      = Some (mark_rule # rs) \<and> tcp_redirect (re_proxyPort sample_env) \<in> set rs"
proof -
  have "marks table_programs id ''iptables''"
    by (auto simp: marks_def table_programs_def nat_exec_def table_exec_def command_def possible_def effect_def mark_rule_def jump_target_def
        split: option.splits)
  moreover obtain k1 where "applyIPTablesRules plain_unicode table_programs sample_env empty_tables = (k1, None)"
    using apply_installs [OF table_programs_work(2), of empty_tables] empty_tables_clean by fastforce
  ultimately show ?thesis
    using linux_bypass_first [OF table_programs_work(1), of plain_unicode sample_env empty_tables k1] by simp
qed

end
