(* ===== verification/Negotiator.thy ===== *)
theory Negotiator
  imports GoNet
begin

text \<open>
  Opening a tunnel through an upstream proxy, \<open>internal/sspi/negotiator.go\<close>: the \<open>CONNECT\<close> exchange with Basic
  authentication, and with the Windows security package (a parameter) where the proxy offers Negotiate or NTLM.

  A connection is seen through what is written to it.  The proxy at the other end is the parameter record \<open>peer\<close>: given
  the requests written so far, whether the last write succeeds and which response is read next (\<open>None\<close>: a read error).
\<close>

section \<open>Surroundings\<close>

record http_resp =
  hr_StatusCode :: nat
  hr_Close :: bool
  hr_Header :: "(string \<times> string) list"

record peer =
  pe_write :: "string list \<Rightarrow> bool"
  pe_resp :: "string list \<Rightarrow> http_resp option"

text \<open>\<open>resp.Header.Values\<close> and \<open>resp.Header.Get\<close>; the keys are in canonical form.\<close>

definition header_Values :: "http_resp \<Rightarrow> string \<Rightarrow> string list" where
  "header_Values resp key = map snd (filter (\<lambda>(k, v). k = key) (hr_Header resp))"

definition header_Get :: "http_resp \<Rightarrow> string \<Rightarrow> string" where
  "header_Get resp key = (case header_Values resp key of [] \<Rightarrow> '''' | v # _ \<Rightarrow> v)"

text \<open>The security package: whether a context can be made, and the token for the challenges received so far.\<close>

record sspi =
  sp_new :: "string \<Rightarrow> string \<Rightarrow> bool"
  sp_step :: "string \<Rightarrow> string \<Rightarrow> string list \<Rightarrow> (string \<times> bool) option"

datatype auth_result = Tunnel | RetryBasic | AuthFail string

section \<open>Base 64\<close>

definition b64_alphabet :: string where
  "b64_alphabet = ''ABCDEFGHIJKLMNOPQRSTUVWXYZabcdefghijklmnopqrstuvwxyz0123456789+/''"

definition b64_char :: "nat \<Rightarrow> char" where
  "b64_char n = b64_alphabet ! n"

text \<open>\<open>base64.StdEncoding.EncodeToString\<close> on bytes as numbers.\<close>

fun b64 :: "nat list \<Rightarrow> string" where
  "b64 [] = ''''"
| "b64 [a] = [b64_char (a div 4), b64_char (a mod 4 * 16), CHR ''='', CHR ''='']"
| "b64 [a, b] = [b64_char (a div 4), b64_char (a mod 4 * 16 + b div 16), b64_char (b mod 16 * 4), CHR ''='']"
| "b64 (a # b # c # r) =
     [b64_char (a div 4), b64_char (a mod 4 * 16 + b div 16), b64_char (b mod 16 * 4 + c div 64), b64_char (c mod 64)] @ b64 r"

definition basic_token :: "string \<times> string \<Rightarrow> string" where
  "basic_token user = (case user of (username, password) \<Rightarrow> b64 (map of_char (username @ '':'' @ password)))"

section \<open>Requests\<close>

definition crlf :: string where
  "crlf = [CHR 0x0D, CHR 0x0A]"

definition connect_request :: "string \<Rightarrow> string \<Rightarrow> string" where
  "connect_request targetAddr authHeader =
     ''CONNECT '' @ targetAddr @ '' HTTP/1.1'' @ crlf @ ''Host: '' @ targetAddr @ crlf @ ''Proxy-Connection: Keep-Alive'' @ crlf
       @ authHeader @ crlf"

definition auth_header :: "string \<Rightarrow> string \<Rightarrow> string" where
  "auth_header scheme token = ''Proxy-Authorization: '' @ scheme @ '' '' @ token @ crlf"

section \<open>Challenges\<close>

text \<open>\<open>strings.TrimRight\<close> and \<open>strings.Trim\<close> with a set of characters.\<close>

definition TrimRight :: "string \<Rightarrow> char set \<Rightarrow> string" where
  "TrimRight s cs = rev (dropWhile (\<lambda>c. c \<in> cs) (rev s))"

definition Trim :: "string \<Rightarrow> char set \<Rightarrow> string" where
  "Trim s cs = trim_with (\<lambda>c. c \<in> cs) s"

fun split_auth :: "unicode \<Rightarrow> bool \<Rightarrow> string \<Rightarrow> string \<Rightarrow> string list" where
  "split_auth U inQuote cur [] = (let s = TrimSpace U (rev cur) in if s \<noteq> '''' then [s] else [])"
| "split_auth U inQuote cur (c # h) =
     (if c = CHR 0x22 then split_auth U (\<not> inQuote) (c # cur) h
      else if c = CHR '','' \<and> \<not> inQuote then
        (let s = TrimSpace U (rev cur) in if s \<noteq> '''' then s # split_auth U inQuote '''' h else split_auth U inQuote '''' h)
      else split_auth U inQuote (c # cur) h)"

definition splitAuthHeader :: "unicode \<Rightarrow> string \<Rightarrow> string list" where
  "splitAuthHeader U h = split_auth U False '''' h"

fun challenge_in :: "unicode \<Rightarrow> string \<Rightarrow> string list \<Rightarrow> (string \<times> string) option" where
  "challenge_in U selectedScheme [] = None"
| "challenge_in U selectedScheme (part # parts) =
     (let fields = Fields U (TrimSpace U part)
      in if length fields \<ge> 2 then
           let scheme = fields ! 0;
               token = TrimRight (fields ! 1) {CHR '','', CHR 0x0D, CHR 0x0A, CHR 0x09, CHR '' ''};
               token = Trim token {CHR 0x22}
           in if EqualFold U scheme selectedScheme then Some (scheme, token)
              else if EqualFold U selectedScheme ''Negotiate'' \<and> EqualFold U scheme ''NTLM'' then Some (scheme, token)
              else challenge_in U selectedScheme parts
         else challenge_in U selectedScheme parts)"

definition ExtractChallengeToken :: "unicode \<Rightarrow> http_resp \<Rightarrow> string \<Rightarrow> (string \<times> string) option" where
  "ExtractChallengeToken U resp selectedScheme =
     challenge_in U selectedScheme (concat (map (splitAuthHeader U) (header_Values resp ''Proxy-Authenticate'')))"

definition offers :: "unicode \<Rightarrow> http_resp \<Rightarrow> string \<Rightarrow> bool" where
  "offers U resp scheme =
     list_ex (\<lambda>part. let fields = Fields U (TrimSpace U part) in length fields > 0 \<and> ToLower U (fields ! 0) = scheme)
       (concat (map (splitAuthHeader U) (header_Values resp ''Proxy-Authenticate'')))"

section \<open>The exchange\<close>

text \<open>One request and its response; \<open>Inl\<close> an error text.\<close>

definition exchange :: "peer \<Rightarrow> string \<Rightarrow> string list \<Rightarrow> string list \<times> (string + http_resp)" where
  "exchange P req sent =
     (let sent = sent @ [req]
      in (sent, if \<not> pe_write P sent then Inl ''failed to send CONNECT request''
                else case pe_resp P sent of None \<Rightarrow> Inl ''failed to read CONNECT response'' | Some resp \<Rightarrow> Inr resp))"

text \<open>The loop of \<open>performSSPIHandshake\<close>; the first argument counts the remaining rounds.\<close>

fun sspi_loop ::
  "unicode \<Rightarrow> sspi \<Rightarrow> peer \<Rightarrow> nat \<Rightarrow> string \<Rightarrow> string \<Rightarrow> string \<Rightarrow> string \<Rightarrow> string list \<Rightarrow> string list
    \<Rightarrow> string list \<times> string option" where
  "sspi_loop U S P 0 targetAddr scheme spn activeScheme challenges sent =
     (sent, Some ''exceeded maximum SSPI negotiation steps'')"
| "sspi_loop U S P (Suc n) targetAddr scheme spn activeScheme challenges sent =
     (case sp_step S scheme spn challenges of
        None \<Rightarrow> (sent, Some ''SSPI negotiation error'')
      | Some (clientToken, fin) \<Rightarrow>
          (case exchange P (connect_request targetAddr (auth_header activeScheme clientToken)) sent of
             (sent, Inl err) \<Rightarrow> (sent, Some err)
           | (sent, Inr resp) \<Rightarrow>
               if hr_StatusCode resp = 200 then (sent, None)
               else if hr_StatusCode resp \<noteq> 407 then (sent, Some ''proxy returned status after SSPI token'')
               else if fin then (sent, Some ''SSPI reported complete but proxy still returned 407 (access denied)'')
               else case ExtractChallengeToken U resp activeScheme of
                 None \<Rightarrow> (sent, Some ''no challenge token found in Proxy-Authenticate'')
               | Some (actualScheme, chToken) \<Rightarrow>
                   sspi_loop U S P n targetAddr scheme spn actualScheme (challenges @ [chToken]) sent))"

text \<open>The package on Linux, \<open>sspi_linux.go\<close>: a context can be made, but no step succeeds.\<close>

definition linux_sspi :: sspi where
  "linux_sspi = \<lparr>sp_new = (\<lambda>_ _. True), sp_step = (\<lambda>_ _ _. None)\<rparr>"

definition host_only :: "string \<Rightarrow> string" where
  "host_only proxyHost = (case SplitHostPort proxyHost of Some (h, _) \<Rightarrow> h | None \<Rightarrow> proxyHost)"

definition performSSPIHandshake ::
  "unicode \<Rightarrow> sspi \<Rightarrow> peer \<Rightarrow> string \<Rightarrow> string \<Rightarrow> string \<Rightarrow> string list \<Rightarrow> string list \<times> string option" where
  "performSSPIHandshake U S P targetAddr proxyHost selectedScheme sent =
     (let spn = (if selectedScheme = ''Negotiate'' \<and> proxyHost \<noteq> '''' \<and> ParseIP (host_only proxyHost) = None
                 then ''HTTP/'' @ host_only proxyHost else '''')
      in if \<not> sp_new S selectedScheme spn then (sent, Some ''failed to create SSPI context'')
         else sspi_loop U S P 5 targetAddr selectedScheme spn selectedScheme [''''] sent)"

text \<open>\<open>AuthenticateProxyTunnel\<close> after a 407 response: Windows single sign-on, Basic, or an error.\<close>

definition answer_challenge ::
  "unicode \<Rightarrow> bool \<Rightarrow> sspi \<Rightarrow> peer \<Rightarrow> string \<Rightarrow> string \<Rightarrow> (string \<times> string) option \<Rightarrow> http_resp \<Rightarrow> string list
    \<Rightarrow> string list \<times> auth_result" where
  "answer_challenge U isWindows S P targetAddr proxyHost proxyUser resp sent =
     (let isClosed = (hr_Close resp \<or> EqualFold U (header_Get resp ''Proxy-Connection'') ''close''
            \<or> EqualFold U (header_Get resp ''Connection'') ''close'');
          hasNegotiate = offers U resp ''negotiate'';
          hasNTLM = offers U resp ''ntlm'';
          hasBasic = offers U resp ''basic''
      in if isClosed then
           (if hasBasic \<and> proxyUser \<noteq> None then (sent, RetryBasic)
            else (sent, AuthFail ''proxy returned 407 and closed the connection''))
         else if isWindows \<and> (hasNegotiate \<or> hasNTLM) then
           let selectedScheme =
             (if (\<not> hasNegotiate \<and> hasNTLM) \<or> (ParseIP (host_only proxyHost) \<noteq> None \<and> hasNTLM) then ''NTLM'' else ''Negotiate'')
           in (case performSSPIHandshake U S P targetAddr proxyHost selectedScheme sent of
                 (sent, None) \<Rightarrow> (sent, Tunnel)
               | (sent, Some err) \<Rightarrow>
                   if hasBasic \<and> proxyUser \<noteq> None then (sent, RetryBasic)
                   else (sent, AuthFail (''SSPI authentication failed: '' @ err)))
         else if hasBasic then
           (case proxyUser of
              None \<Rightarrow> (sent, AuthFail ''proxy requires Basic authentication, but no credentials were provided'')
            | Some user \<Rightarrow>
                (case exchange P (connect_request targetAddr (auth_header ''Basic'' (basic_token user))) sent of
                   (sent, Inl err) \<Rightarrow> (sent, AuthFail err)
                 | (sent, Inr basicResp) \<Rightarrow>
                     if hr_StatusCode basicResp = 200 then (sent, Tunnel)
                     else (sent, AuthFail ''proxy returned status after Basic authentication'')))
         else if \<not> isWindows \<and> (hasNegotiate \<or> hasNTLM) then
           (sent, AuthFail ''upstream proxy requires SSPI authentication'')
         else (sent, AuthFail ''proxy requires authentication, but no supported schemes found''))"

definition AuthenticateProxyTunnel ::
  "unicode \<Rightarrow> bool \<Rightarrow> sspi \<Rightarrow> peer \<Rightarrow> string \<Rightarrow> string \<Rightarrow> (string \<times> string) option \<Rightarrow> string list
    \<Rightarrow> string list \<times> auth_result" where
  "AuthenticateProxyTunnel U isWindows S P targetAddr proxyHost proxyUser sent =
     (let authHeader = (case proxyUser of Some user \<Rightarrow> auth_header ''Basic'' (basic_token user) | None \<Rightarrow> '''')
      in case exchange P (connect_request targetAddr authHeader) sent of
           (sent, Inl err) \<Rightarrow> (sent, AuthFail err)
         | (sent, Inr resp) \<Rightarrow>
             if hr_StatusCode resp = 200 then (sent, Tunnel)
             else if hr_StatusCode resp \<noteq> 407 then (sent, AuthFail ''proxy returned unexpected status'')
             else answer_challenge U isWindows S P targetAddr proxyHost proxyUser resp sent)"

lemma linux_sspi_fails:
  "performSSPIHandshake U linux_sspi P targetAddr proxyHost scheme sent = (sent, Some ''SSPI negotiation error'')"
  by (simp add: performSSPIHandshake_def linux_sspi_def numeral_eq_Suc)

section \<open>A tunnel is opened by a 200 response only\<close>

text \<open>
  \<open>asked P target n sent sent'\<close>: from \<open>sent\<close> to \<open>sent'\<close> at most \<open>n\<close> more requests are written, all of them \<open>CONNECT\<close>
  requests for the target.  \<open>accepted P sent\<close>: the last request was answered with 200.
\<close>

definition asked :: "string \<Rightarrow> nat \<Rightarrow> string list \<Rightarrow> string list \<Rightarrow> bool" where
  "asked target n sent sent' \<longleftrightarrow>
     (\<exists>hs. sent' = sent @ map (connect_request target) hs \<and> length hs \<le> n)"

definition accepted :: "peer \<Rightarrow> string list \<Rightarrow> bool" where
  "accepted P sent \<longleftrightarrow> pe_write P sent \<and> (case pe_resp P sent of Some resp \<Rightarrow> hr_StatusCode resp = 200 | None \<Rightarrow> False)"

lemma asked_refl [simp]: "asked target n sent sent"
  by (simp add: asked_def)

lemma asked_trans: "asked target m s s' \<Longrightarrow> asked target n s' s'' \<Longrightarrow> asked target (m + n) s s''"
proof -
  assume "asked target m s s'" "asked target n s' s''"
  then obtain hs hs' where "s' = s @ map (connect_request target) hs" "length hs \<le> m"
    "s'' = s' @ map (connect_request target) hs'" "length hs' \<le> n"
    by (auto simp: asked_def)
  then show ?thesis
    unfolding asked_def by (intro exI [of _ "hs @ hs'"]) simp
qed

lemma asked_mono: "asked target m s s' \<Longrightarrow> m \<le> n \<Longrightarrow> asked target n s s'"
  unfolding asked_def using order_trans by blast

lemma exchange_sent: "fst (exchange P req sent) = sent @ [req]"
  by (simp add: exchange_def Let_def)

lemma exchange_asked: "exchange P (connect_request target h) sent = (sent', r) \<Longrightarrow> asked target 1 sent sent'"
  unfolding asked_def using exchange_sent [of P "connect_request target h" sent]
  by (intro exI [of _ "[h]"]) simp

lemma exchange_accepted:
  "exchange P req sent = (sent', Inr resp) \<Longrightarrow> hr_StatusCode resp = 200 \<Longrightarrow> accepted P sent'"
  by (auto simp: exchange_def accepted_def Let_def split: if_splits option.splits)

lemma sspi_loop_asked:
  assumes "sspi_loop U S P n target scheme spn act chs sent = (sent', err)"
  shows "asked target n sent sent' \<and> (err = None \<longrightarrow> accepted P sent')"
  using assms
proof (induction U S P n target scheme spn act chs sent rule: sspi_loop.induct)
  case (2 U S P n target scheme spn act chs sent)
  show ?case
  proof (cases "sp_step S scheme spn chs")
    case None
    with 2(2) show ?thesis
      by auto
  next
    case (Some tf)
    obtain tok fin where tf: "tf = (tok, fin)"
      by (cases tf)
    obtain s1 r where x: "exchange P (connect_request target (auth_header act tok)) sent = (s1, r)"
      by (cases "exchange P (connect_request target (auth_header act tok)) sent")
    have a1: "asked target 1 sent s1"
      by (rule exchange_asked [OF x])
    note here = 2(2) [simplified, unfolded Some tf, simplified, unfolded x, simplified]
    show ?thesis
    proof (cases r)
      case (Inl e)
      with here a1 show ?thesis
        using asked_mono [OF a1, of "Suc n"] by auto
    next
      case (Inr resp)
      show ?thesis
      proof (cases "hr_StatusCode resp = 407 \<and> \<not> fin \<and> ExtractChallengeToken U resp act \<noteq> None")
        case True
        then obtain sc ch where e: "ExtractChallengeToken U resp act = Some (sc, ch)"
          by auto
        have rec: "sspi_loop U S P n target scheme spn sc (chs @ [ch]) s1 = (sent', err)"
          using here Inr True e by simp
        then have "asked target n s1 sent' \<and> (err = None \<longrightarrow> accepted P sent')"
          using 2(1) Some tf x Inr True e by auto
        then show ?thesis
          using asked_trans [OF a1] by auto
      next
        case False
        then show ?thesis
          using here Inr exchange_accepted x asked_mono [OF a1, of "Suc n"] by (auto split: if_splits option.splits)
      qed
    qed
  qed
qed auto

lemma performSSPIHandshake_asked:
  assumes "performSSPIHandshake U S P target host scheme sent = (sent', err)"
  shows "asked target 5 sent sent' \<and> (err = None \<longrightarrow> accepted P sent')"
proof (cases "sent' = sent \<and> err \<noteq> None")
  case False
  then have "\<exists>spn. sspi_loop U S P 5 target scheme spn scheme [''''] sent = (sent', err)"
    using assms by (auto simp: performSSPIHandshake_def Let_def split: if_splits)
  then show ?thesis
    using sspi_loop_asked by blast
qed auto

lemma answer_challenge_asked:
  assumes "answer_challenge U w S P target host user resp sent = (sent', res)"
  shows "asked target 5 sent sent' \<and> (res = Tunnel \<longrightarrow> accepted P sent')"
proof -
  have "asked target 5 sent sent'" if "asked target 1 sent sent'"
    using that by (rule asked_mono) simp
  then show ?thesis
    using assms
    by (auto simp: answer_challenge_def Let_def dest: performSSPIHandshake_asked exchange_asked exchange_accepted
        split: if_splits option.splits prod.splits sum.splits)
qed

lemma tunnel_asked:
  assumes "AuthenticateProxyTunnel U isWindows S P target host user sent = (sent', res)"
  shows "asked target 6 sent sent' \<and> (res = Tunnel \<longrightarrow> accepted P sent')"
proof -
  define h where "h = (case user of Some u \<Rightarrow> auth_header ''Basic'' (basic_token u) | None \<Rightarrow> '''')"
  obtain s1 r where x: "exchange P (connect_request target h) sent = (s1, r)"
    by (cases "exchange P (connect_request target h) sent")
  have a1: "asked target 1 sent s1"
    by (rule exchange_asked [OF x])
  note here = assms [unfolded AuthenticateProxyTunnel_def Let_def h_def [symmetric] x, simplified]
  show ?thesis
  proof (cases r)
    case (Inl e)
    then show ?thesis
      using here asked_mono [OF a1, of 6] by auto
  next
    case (Inr resp)
    show ?thesis
    proof (cases "hr_StatusCode resp = 407")
      case True
      then have "answer_challenge U isWindows S P target host user resp s1 = (sent', res)"
        using here Inr by simp
      then show ?thesis
        using answer_challenge_asked asked_trans [OF a1, of 5] by fastforce
    next
      case False
      then show ?thesis
        using here Inr x exchange_accepted asked_mono [OF a1, of 6] by (auto split: if_splits)
    qed
  qed
qed

text \<open>
  C16: a tunnel is opened only where the proxy has agreed.  Whatever the proxy answers, whichever authentication it asks for
  and whatever the security package does, at most six requests are written, every one of them a \<open>CONNECT\<close> for the
  target; and success is reported only when the last of them was written and answered with status 200.
\<close>

theorem tunnel_only_after_200:
  assumes "AuthenticateProxyTunnel U isWindows S P target host user sent = (sent', res)"
  shows "asked target 6 sent sent' \<and> (res = Tunnel \<longrightarrow> accepted P sent')"
  by (rule tunnel_asked [OF assms])

text \<open>A proxy that asks for Basic authentication once.\<close>

definition basic_peer :: peer where
  "basic_peer = \<lparr>pe_write = (\<lambda>_. True),
     pe_resp = (\<lambda>sent. if length sent = 1
       then Some \<lparr>hr_StatusCode = 407, hr_Close = False, hr_Header = [(''Proxy-Authenticate'', ''Basic realm=x'')]\<rparr>
       else Some \<lparr>hr_StatusCode = 200, hr_Close = False, hr_Header = []\<rparr>)\<rparr>"

definition no_sspi :: sspi where
  "no_sspi = \<lparr>sp_new = (\<lambda>_ _. False), sp_step = (\<lambda>_ _ _. None)\<rparr>"

theorem tunnel_only_after_200_witness:
  "\<exists>sent. AuthenticateProxyTunnel plain_unicode False no_sspi basic_peer ''h:443'' ''proxy'' (Some (''u'', ''p'')) [] = (sent, Tunnel)
    \<and> asked ''h:443'' 6 [] sent \<and> accepted basic_peer sent"
proof -
  let ?x = "AuthenticateProxyTunnel plain_unicode False no_sspi basic_peer ''h:443'' ''proxy'' (Some (''u'', ''p'')) []"
  have "snd ?x = Tunnel"
    by code_simp
  then have s: "?x = (fst ?x, Tunnel)"
    by (metis prod.collapse)
  from tunnel_only_after_200 [OF s] s show ?thesis
    by blast
qed

end
