(* ===== verification/Forwarder.thy ===== *)
theory Forwarder
  imports Negotiator ConfigManager
begin

text \<open>
  Outbound connections, \<open>internal/proxy/forwarder.go\<close> with \<open>internal/proxy/dialer_windows.go\<close>: direct, or through an
  upstream proxy with authentication.  Parsing of URLs, the network and the TLS handshake are parameters; connections have
  numbers, and opening and closing them are the actions of a trace.
\<close>

section \<open>Proxy URLs\<close>

definition SanitizeProxyURL :: "unicode \<Rightarrow> string \<Rightarrow> string" where
  "SanitizeProxyURL U rawURL =
     (let rawURL = TrimSpace U rawURL
      in if rawURL = '''' then ''''
         else case Index rawURL ''://'' of
           None \<Rightarrow> rawURL
         | Some schemeEnd \<Rightarrow>
             (case LastIndexByte rawURL CHR ''@'' of
                None \<Rightarrow> rawURL
              | Some lastAt \<Rightarrow>
                  if lastAt < schemeEnd + 3 then rawURL
                  else
                    let userInfo = take (lastAt - (schemeEnd + 3)) (drop (schemeEnd + 3) rawURL)
                    in if CHR 0x5C \<in> set userInfo then
                         take (schemeEnd + 3) rawURL
                           @ concat (map (\<lambda>c. if c = CHR 0x5C then ''%5C'' else [c]) userInfo) @ drop lastAt rawURL
                       else rawURL))"

section \<open>Local ports\<close>

text \<open>What a dial on a local port gives: a connection, a collision of local ports, or another failure.\<close>

datatype dial_outcome = Dialled | BindError | DialError

definition rangeSize :: uint32 where
  "rangeSize = ucast (OutboundPortMax - OutboundPortMin + 1 :: uint16)"

text \<open>The loop of the Windows \<open>dialTCP\<close>; the state is the counter, the result the local port of the connection.\<close>

fun dial_ports :: "(nat \<Rightarrow> nat \<Rightarrow> dial_outcome) \<Rightarrow> nat \<Rightarrow> nat \<Rightarrow> uint32 \<Rightarrow> uint32 \<times> (bool + nat)" where
  "dial_ports dial 0 i counter = (counter, Inl True)"
| "dial_ports dial (Suc n) i counter =
     (let counter = counter + 1;
          port = unat OutboundPortMin + unat (counter mod rangeSize)
      in case dial i port of
           Dialled \<Rightarrow> (counter, Inr port)
         | DialError \<Rightarrow> (counter, Inl False)
         | BindError \<Rightarrow> dial_ports dial n (i + 1) counter)"

definition dialTCP :: "(nat \<Rightarrow> nat \<Rightarrow> dial_outcome) \<Rightarrow> uint32 \<Rightarrow> uint32 \<times> (bool + nat)" where
  "dialTCP dial counter = dial_ports dial 50 0 counter"

text \<open>
  The dialer of the DoH client, \<open>internal/dns/dialer_windows.go\<close>: it has a counter of its own, adds the ports at 16 bits, and
  goes on after every error.
\<close>

fun doh_ports :: "(nat \<Rightarrow> uint16 \<Rightarrow> bool) \<Rightarrow> nat \<Rightarrow> nat \<Rightarrow> uint32 \<Rightarrow> uint32 \<times> uint16 option" where
  "doh_ports dial 0 i counter = (counter, None)"
| "doh_ports dial (Suc n) i counter =
     (let counter = counter + 1;
          port = OutboundPortMin + ucast (counter mod rangeSize)
      in if dial i port then (counter, Some port) else doh_ports dial n (i + 1) counter)"

definition createDoHDialContext :: "(nat \<Rightarrow> uint16 \<Rightarrow> bool) \<Rightarrow> uint32 \<Rightarrow> uint32 \<times> uint16 option" where
  "createDoHDialContext dial counter = doh_ports dial 50 0 counter"

section \<open>Dialling\<close>

record Forwarder =
  fw_bypassSSPI :: bool
  fw_connectTimeout :: int
  fw_tlsServerName :: "string option"

definition NewForwarder :: "bool \<Rightarrow> int \<Rightarrow> Forwarder" where
  "NewForwarder bypassSSPI connectTimeoutSec =
     (let timeout = dur_seconds connectTimeoutSec;
          timeout = (if timeout \<le> 0 then 10 * second else timeout)
      in \<lparr>fw_bypassSSPI = bypassSSPI, fw_connectTimeout = timeout, fw_tlsServerName = None\<rparr>)"

definition SetTLSConfig :: "string option \<Rightarrow> Forwarder \<Rightarrow> Forwarder" where
  "SetTLSConfig cfg f = f\<lparr>fw_tlsServerName := cfg\<rparr>"

text \<open>A parsed URL: scheme, \<open>Host\<close>, \<open>Hostname()\<close>, \<open>Port()\<close> and the user with password.\<close>

record purl =
  pu_Scheme :: string
  pu_Host :: string
  pu_Hostname :: string
  pu_Port :: string
  pu_User :: "(string \<times> string) option"

record outside =
  ou_Parse :: "string \<Rightarrow> purl option"
  ou_dial :: "nat \<Rightarrow> string \<Rightarrow> bool"
  ou_Handshake :: "nat \<Rightarrow> string \<Rightarrow> bool"
  ou_peer :: "nat \<Rightarrow> peer"

datatype conn_act = OpenConn nat string | CloseConn nat

definition dialProxyConn :: "Forwarder \<Rightarrow> outside \<Rightarrow> nat \<Rightarrow> purl \<Rightarrow> string \<Rightarrow> conn_act list \<times> (string + nat)" where
  "dialProxyConn f E n proxyURL proxyHostPort =
     (if \<not> ou_dial E n proxyHostPort then ([], Inl (''connecting to proxy '' @ proxyHostPort @ '' failed''))
      else if pu_Scheme proxyURL = ''https'' then
        let serverName = (case fw_tlsServerName f of Some name \<Rightarrow> if name = '''' then pu_Hostname proxyURL else name
                          | None \<Rightarrow> pu_Hostname proxyURL)
        in if \<not> ou_Handshake E n serverName
           then ([OpenConn n proxyHostPort, CloseConn n], Inl (''TLS handshake to upstream proxy '' @ proxyHostPort @ '' failed''))
           else ([OpenConn n proxyHostPort], Inr n)
      else ([OpenConn n proxyHostPort], Inr n))"

definition proxy_host_port :: "purl \<Rightarrow> string" where
  "proxy_host_port proxyURL =
     (if pu_Port proxyURL = '''' then
        JoinHostPort (pu_Hostname proxyURL) (if pu_Scheme proxyURL = ''https'' then ''443'' else ''8080'')
      else pu_Host proxyURL)"

text \<open>One \<open>CONNECT\<close> on connection \<open>n\<close>, which is closed unless the response is 200.\<close>

definition plain_connect :: "peer \<Rightarrow> nat \<Rightarrow> string \<Rightarrow> conn_act list \<times> (string + nat \<times> bool)" where
  "plain_connect P n req =
     (case exchange P req [] of
        (_, Inl err) \<Rightarrow> ([CloseConn n], Inl err)
      | (_, Inr resp) \<Rightarrow>
          if hr_StatusCode resp \<noteq> 200 then ([CloseConn n], Inl ''proxy returned non-200 response'')
          else ([], Inr (n, True)))"

definition DialOutbound ::
  "unicode \<Rightarrow> bool \<Rightarrow> sspi \<Rightarrow> Forwarder \<Rightarrow> outside \<Rightarrow> string \<Rightarrow> string \<Rightarrow> conn_act list \<times> (string + nat \<times> bool)" where
  "DialOutbound U isWindows S f E targetAddr proxyURLStr =
     (if proxyURLStr = '''' then
        (if \<not> ou_dial E 0 targetAddr then ([], Inl (''direct dial to '' @ targetAddr @ '' failed''))
         else ([OpenConn 0 targetAddr], Inr (0, False)))
      else case ou_Parse E (SanitizeProxyURL U proxyURLStr) of
        None \<Rightarrow> ([], Inl ''invalid proxy URL'')
      | Some proxyURL \<Rightarrow>
          let proxyHostPort = proxy_host_port proxyURL
          in case dialProxyConn f E 0 proxyURL proxyHostPort of
               (acts, Inl err) \<Rightarrow> (acts, Inl err)
             | (acts, Inr n) \<Rightarrow>
                 if fw_bypassSSPI f then
                   let authHeader = (case pu_User proxyURL of Some user \<Rightarrow> auth_header ''Basic'' (basic_token user) | None \<Rightarrow> '''');
                       (acts', res) = plain_connect (ou_peer E n) n (connect_request targetAddr authHeader)
                   in (acts @ acts', res)
                 else
                   (case snd (AuthenticateProxyTunnel U isWindows S (ou_peer E n) targetAddr (pu_Hostname proxyURL) (pu_User proxyURL) []) of
                      Tunnel \<Rightarrow> (acts, Inr (n, True))
                    | AuthFail err \<Rightarrow> (acts @ [CloseConn n], Inl (''proxy tunnel authentication failed: '' @ err))
                    | RetryBasic \<Rightarrow>
                        (case pu_User proxyURL of
                           None \<Rightarrow> (acts @ [CloseConn n], Inl ''proxy tunnel authentication failed'')
                         | Some user \<Rightarrow>
                             (case dialProxyConn f E 1 proxyURL proxyHostPort of
                                (acts', Inl err) \<Rightarrow> (acts @ [CloseConn n] @ acts', Inl err)
                              | (acts', Inr m) \<Rightarrow>
                                  let (acts'', res) = plain_connect (ou_peer E m) m
                                        (connect_request targetAddr (auth_header ''Basic'' (basic_token user)))
                                  in (acts @ [CloseConn n] @ acts' @ acts'', res)))))"

section \<open>Outbound ports stay in the reserved range\<close>

lemma rangeSize_eq: "rangeSize = 9000"
  by (simp add: rangeSize_def OutboundPortMax_def OutboundPortMin_def)

lemma dial_ports_range:
  "dial_ports dial n i c = (c', Inr port) \<Longrightarrow> 40000 \<le> port \<and> port \<le> 48999"
proof (induction dial n i c rule: dial_ports.induct)
  case (2 dial n i c)
  have "unat ((c + 1) mod rangeSize) < 9000"
    by (simp add: rangeSize_eq unat_mod)
  with 2 show ?case
    by (auto simp: Let_def OutboundPortMin_def split: dial_outcome.splits)
qed simp

lemma doh_ports_range:
  "doh_ports dial n i c = (c', Some port) \<Longrightarrow> 40000 \<le> unat port \<and> unat port \<le> 48999"
proof (induction dial n i c rule: doh_ports.induct)
  case (2 dial n i c)
  have small: "unat ((c + 1) mod rangeSize) < 9000"
    by (simp add: rangeSize_eq unat_mod)
  have "unat (OutboundPortMin + ucast ((c + 1) mod rangeSize)) = 40000 + unat ((c + 1) mod rangeSize)"
    using small by (simp add: OutboundPortMin_def unat_word_ariths unsigned_ucast_eq take_bit_nat_eq_self)
  with small 2 show ?case
    by (auto simp: Let_def split: if_splits)
qed simp

text \<open>Only collisions of local ports are retried by \<open>dialTCP\<close>: another failure ends it with the first attempt.\<close>

lemma dialTCP_gives_up:
  assumes "\<And>port. dial 0 port = DialError"
  shows "snd (dialTCP dial counter) = Inl False"
  using assms by (simp add: dialTCP_def numeral_eq_Suc Let_def)

section \<open>Connections are not leaked\<close>

definition live :: "conn_act list \<Rightarrow> nat set" where
  "live acts = foldl (\<lambda>S a. case a of OpenConn n _ \<Rightarrow> insert n S | CloseConn n \<Rightarrow> S - {n}) {} acts"

lemma live_simps [simp]:
  "live [] = {}" "live (acts @ [OpenConn n x]) = insert n (live acts)" "live (acts @ [CloseConn n]) = live acts - {n}"
  by (simp_all add: live_def)

lemma live_append: "live xs = {} \<Longrightarrow> live (xs @ ys) = live ys"
  by (simp add: live_def)

lemma dialProxyConn_live:
  "dialProxyConn f E n u h = (acts, Inl e) \<Longrightarrow> live acts = {}"
  "dialProxyConn f E n u h = (acts, Inr m) \<Longrightarrow> m = n \<and> acts = [OpenConn n h]"
  by (auto simp: dialProxyConn_def Let_def live_def split: if_splits)

lemma plain_connect_live:
  "plain_connect P n req = (acts, Inl e) \<Longrightarrow> acts = [CloseConn n]"
  "plain_connect P n (connect_request t h) = (acts, Inr (m, b)) \<Longrightarrow> m = n \<and> acts = [] \<and> accepted P [connect_request t h]"
  by (auto simp: plain_connect_def exchange_def accepted_def Let_def split: prod.splits sum.splits if_splits option.splits)

text \<open>The proxy at the end of a connection has agreed to a tunnel to the target.\<close>

definition tunnelled :: "peer \<Rightarrow> string \<Rightarrow> bool" where
  "tunnelled P target \<longleftrightarrow> (\<exists>sent. asked target 6 [] sent \<and> accepted P sent)"

lemma tunnelled_plain: "accepted P [connect_request t h] \<Longrightarrow> tunnelled P t"
  unfolding tunnelled_def asked_def by (intro exI [of _ "[connect_request t h]"] conjI exI [of _ "[h]"]) simp_all

lemma tunnelled_auth:
  assumes "snd (AuthenticateProxyTunnel U w S P t host user []) = Tunnel"
  shows "tunnelled P t"
  unfolding tunnelled_def
  using tunnel_asked [of U w S P t host user "[]" "fst (AuthenticateProxyTunnel U w S P t host user [])" Tunnel] assms
  by (metis prod.collapse)

lemma plain_connect_outcome:
  assumes "plain_connect P n (connect_request t h) = (acts, res)" "live pre = {}"
  shows "case res of Inl e \<Rightarrow> live (pre @ OpenConn n x # acts) = {} | Inr (m, b) \<Rightarrow> live (pre @ OpenConn n x # acts) = {m} \<and> m = n \<and> tunnelled P t"
proof (cases res)
  case (Inl e)
  then show ?thesis
    using plain_connect_live(1) [of P n "connect_request t h" acts e] assms by (simp add: live_append) (simp add: live_def)
next
  case (Inr mb)
  then show ?thesis
    using plain_connect_live(2) [of P n t h acts] assms tunnelled_plain [of P t h]
    by (cases mb) (auto simp: live_append live_def)
qed

text \<open>The two ways to a tunnel once the connection to the proxy is there.\<close>

definition dialled_well :: "outside \<Rightarrow> string \<Rightarrow> conn_act list \<times> (string + nat \<times> bool) \<Rightarrow> bool" where
  "dialled_well E target out =
     (case snd out of Inl err \<Rightarrow> live (fst out) = {} | Inr (n, _) \<Rightarrow> live (fst out) = {n} \<and> tunnelled (ou_peer E n) target)"

lemma dialled_well_plain:
  assumes "live pre = {}"
  shows "dialled_well E t (case plain_connect (ou_peer E n) n (connect_request t h) of (acts, res) \<Rightarrow> (pre @ OpenConn n x # acts, res))"
  using plain_connect_outcome [of "ou_peer E n" n t h _ _ pre x] assms
  by (auto simp: dialled_well_def split: prod.splits sum.splits)

lemma live_closed: "live [OpenConn n x, CloseConn n] = {}"
  by (simp add: live_def)

lemma dialled_well_retry:
  assumes "live pre = {}"
  shows "dialled_well E t (case dialProxyConn f E n u hp of
      (acts', Inl err) \<Rightarrow> (pre @ acts', Inl err)
    | (acts', Inr m) \<Rightarrow>
        (case plain_connect (ou_peer E m) m (connect_request t h) of (acts'', res) \<Rightarrow> (pre @ acts' @ acts'', res)))"
proof (cases "dialProxyConn f E n u hp")
  case (Pair acts r)
  show ?thesis
  proof (cases r)
    case (Inl err)
    then show ?thesis
      using Pair dialProxyConn_live(1) [of f E n u hp acts err] assms by (simp add: dialled_well_def live_append)
  next
    case (Inr m)
    then have "m = n" "acts = [OpenConn n hp]"
      using Pair dialProxyConn_live(2) [of f E n u hp acts m] by auto
    with Pair Inr dialled_well_plain [OF assms, where E = E and t = t and n = n and h = h and x = hp] show ?thesis
      by simp
  qed
qed

lemma dialled_well_proxy:
  assumes "proxy \<noteq> ''''"
  shows "dialled_well E t (DialOutbound U w S f E t proxy)"
proof (cases "ou_Parse E (SanitizeProxyURL U proxy)")
  case None
  with assms show ?thesis
    by (simp add: DialOutbound_def dialled_well_def)
next
  case (Some u)
  let ?hp = "proxy_host_port u" and ?A = "AuthenticateProxyTunnel U w S (ou_peer E 0) t (pu_Hostname u) (pu_User u) []"
  show ?thesis
  proof (cases "dialProxyConn f E 0 u ?hp")
    case (Pair acts r)
    show ?thesis
    proof (cases r)
      case (Inl err)
      with assms Some Pair show ?thesis
        using dialProxyConn_live(1) by (simp add: DialOutbound_def dialled_well_def)
    next
      case (Inr m)
      then have d: "dialProxyConn f E 0 u ?hp = ([OpenConn 0 ?hp], Inr 0)"
        using Pair dialProxyConn_live(2) [of f E 0 u ?hp acts m] by auto
      show ?thesis
      proof (cases "fw_bypassSSPI f")
        case True
        with assms Some d dialled_well_plain [of "[]", where E = E and t = t and n = 0 and x = ?hp] show ?thesis
          by (simp add: DialOutbound_def Let_def case_prod_beta')
      next
        case False
        show ?thesis
        proof (cases "snd ?A")
          case Tunnel
          then show ?thesis
            using assms Some d False tunnelled_auth [OF Tunnel] by (simp add: DialOutbound_def dialled_well_def live_def)
        next
          case RetryBasic
          show ?thesis
          proof (cases "pu_User u")
            case None
            with RetryBasic show ?thesis
              using assms Some d False by (simp add: DialOutbound_def dialled_well_def live_closed)
          next
            case (Some user)
            have "DialOutbound U w S f E t proxy = (case dialProxyConn f E 1 u ?hp of
                (acts', Inl err) \<Rightarrow> ([OpenConn 0 ?hp, CloseConn 0] @ acts', Inl err)
              | (acts', Inr m) \<Rightarrow>
                  (case plain_connect (ou_peer E m) m (connect_request t (auth_header ''Basic'' (basic_token user))) of
                     (acts'', res) \<Rightarrow> ([OpenConn 0 ?hp, CloseConn 0] @ acts' @ acts'', res)))"
              using assms \<open>ou_Parse E (SanitizeProxyURL U proxy) = Some u\<close> d False RetryBasic Some by (simp add: DialOutbound_def Let_def split: prod.split sum.split)
            then show ?thesis
              using dialled_well_retry [OF live_closed [of 0 ?hp]] by simp
          qed
        next
          case (AuthFail err)
          then show ?thesis
            using assms Some d False by (simp add: DialOutbound_def dialled_well_def live_closed)
        qed
      qed
    qed
  qed
qed

text \<open>
  C15: outbound connections are neither leaked nor handed out too early.  When \<open>DialOutbound\<close> fails, every connection it has
  opened on the way, including the second one of the Basic retry, is closed; when it succeeds, exactly the returned
  connection is open, and if it goes through a proxy then that proxy has answered a \<open>CONNECT\<close> for the target with status
  200.
\<close>

theorem dial_outbound_no_leak:
  "case DialOutbound U isWindows S f E target proxy of
     (acts, Inl err) \<Rightarrow> live acts = {}
   | (acts, Inr (n, buffered)) \<Rightarrow>
       live acts = {n} \<and> (if proxy = '''' then acts = [OpenConn n target] else tunnelled (ou_peer E n) target)"
proof (cases "proxy = ''''")
  case True
  then show ?thesis
    by (simp add: DialOutbound_def live_def)
next
  case False
  then show ?thesis
    using dialled_well_proxy [OF False, of E target U isWindows S f]
    by (auto simp: dialled_well_def split: prod.splits sum.splits)
qed

text \<open>
  C27: the program's connections on Windows leave from the reserved ports.  Whatever the counters hold, also when they wrap
  around, and whichever local ports are taken, a connection that \<open>dialTCP\<close> or the dialer of the DoH client returns has a local
  port from 40000 to 48999, the range whose packets the redirector leaves alone.
\<close>

theorem outbound_port_reserved:
  assumes "dialTCP dial counter = (counter', Inr port) \<or> createDoHDialContext doh_dial counter = (counter', Some port') \<and> port = unat port'"
  shows "unat OutboundPortMin \<le> port \<and> port \<le> unat OutboundPortMax"
  using assms dial_ports_range doh_ports_range
  unfolding dialTCP_def createDoHDialContext_def OutboundPortMin_def OutboundPortMax_def by fastforce

theorem outbound_port_reserved_witness:
  "dialTCP (\<lambda>i port. if i < 2 then BindError else Dialled) 0xFFFFFFFF = (2, Inr 40002)
    \<and> unat OutboundPortMin \<le> (40002 :: nat) \<and> (40002 :: nat) \<le> unat OutboundPortMax"
proof -
  have fifty: "(50 :: nat) = Suc (Suc (Suc 47))"
    by simp
  have run: "dialTCP (\<lambda>i port. if i < 2 then BindError else Dialled) 0xFFFFFFFF = (2, Inr 40002)"
    unfolding dialTCP_def fifty dial_ports.simps by (simp add: rangeSize_eq OutboundPortMin_def Let_def)
  from outbound_port_reserved [OF disjI1 [OF run]] run show ?thesis
    by simp
qed

end
