(* ===== verification/ProxyServer.thy ===== *)
theory ProxyServer
  imports ServerParts AddrText Forwarder PacResolver HostFilter Inspect Translation
begin

text \<open>
  The connection handlers of the proxy server, \<open>internal/proxy/server.go\<close>: a transparently redirected connection, and a
  client that uses the listener as an explicit HTTP proxy.  They call the models of the other components: the session table
  through the interface \<open>intercept\<close>, the inspection of the first bytes, the filter engine, the PAC resolver and the
  forwarder.  What a handler does is a list of actions; the bytes the network delivers are in the record \<open>client\<close>.
\<close>

section \<open>Surroundings\<close>

text \<open>The part of \<open>interceptor.Interceptor\<close> that the server calls, over a state of its own.\<close>

record 't intercept =
  ic_LookupConn :: "int \<Rightarrow> net_addr \<Rightarrow> 't \<Rightarrow> 't \<times> netIP \<times> uint16 \<times> bool"
  ic_Lookup :: "int \<Rightarrow> net_addr \<Rightarrow> 't \<Rightarrow> 't \<times> netIP \<times> uint16 \<times> bool"
  ic_Delete :: "net_addr \<Rightarrow> 't \<Rightarrow> 't"

text \<open>An HTTP request as \<open>http.ReadRequest\<close> parses it.\<close>

record request =
  rq_Method :: string
  rq_RequestURI :: string
  rq_Host :: string
  rq_URL_Hostname :: string
  rq_URL_Port :: string

datatype peek_err = PeekTimeout | PeekClosed

record client =
  cl_addr :: net_addr
  cl_peek :: "byte list"
  cl_peekErr :: "peek_err option"
  cl_request :: "request option"
  cl_writable :: bool
  cl_outWrite :: bool

datatype srv_act =
  Out conn_act
| WriteOut nat "byte list"
| WriteRequest nat bool
| WriteClient string
| Relay nat int
| DropSession net_addr
| CloseClient

text \<open>What the server has at hand, and the state it shares with the other components.\<close>

record ('s, 't) server =
  sv_unicode :: unicode
  sv_urls :: urls
  sv_backend :: "'s backend"
  sv_isWindows :: bool
  sv_sspi :: sspi
  sv_outside :: outside
  sv_config :: Config
  sv_filter :: FilterEngine
  sv_redirector :: "'t intercept option"
  sv_ifaces :: "iface list option"

record ('s, 't) srv_state =
  ss_table :: 't
  ss_resolver :: "'s Resolver"
  ss_cache :: iface_cache

section \<open>Transparent connections\<close>

text \<open>The first bytes, protocol and name: \<open>None\<close> for a client that has gone away.\<close>

definition inspect :: "unicode \<Rightarrow> client \<Rightarrow> uint16 \<Rightarrow> (byte list \<times> bool \<times> string \<times> string) option option" where
  "inspect U c origPort =
     (if isServerFirstPort origPort then Some (Some ([], False, ''RAW_TCP'', ''''))
      else if length (cl_peek c) = 0 \<and> cl_peekErr c = Some PeekClosed then Some None
      else map_option (\<lambda>r. Some (cl_peek c, r)) (IsHTTPOrHTTPS U (cl_peek c)))"

definition idle_for :: "Config \<Rightarrow> bool \<Rightarrow> int" where
  "idle_for cfg interactive = (if IdleTimeoutSec cfg \<le> 0 \<or> interactive then 0 else dur_seconds (IdleTimeoutSec cfg))"

definition chosen_proxy :: "ProxyDecision \<Rightarrow> string" where
  "chosen_proxy d = (if \<not> IsDirect d \<and> ProxyURL d \<noteq> '''' then ProxyURL d else '''')"

definition dial :: "('s, 't) server \<Rightarrow> string \<Rightarrow> string \<Rightarrow> conn_act list \<times> (string + nat \<times> bool)" where
  "dial S target proxy =
     DialOutbound (sv_unicode S) (sv_isWindows S) (sv_sspi S)
       (NewForwarder (BypassSSPI (sv_config S)) (ConnectTimeoutSec (sv_config S))) (sv_outside S) target proxy"

definition serve_target ::
  "('s, 't) server \<Rightarrow> int \<Rightarrow> client \<Rightarrow> netIP \<Rightarrow> uint16 \<Rightarrow> ('s, 't) srv_state
    \<Rightarrow> (('s, 't) srv_state \<times> srv_act list) option" where
  "serve_target S now c origIP origPort st = do {
     let U = sv_unicode S;
     let port = Itoa (unat origPort);
     let targetAddr = JoinHostPort (IP_String origIP) port;
     found \<leftarrow> inspect U c origPort;
     case found of
       None \<Rightarrow> Some (st, [])
     | Some (initialData, isWeb, protoType, targetDomain) \<Rightarrow>
         let targetHostToCheck = (if targetDomain = '''' then IP_String origIP else targetDomain)
         in if ShouldBlock U (sv_filter S) targetHostToCheck then Some (st, [])
            else
              let dialTarget = (if targetDomain \<noteq> '''' then
                      JoinHostPort (case SplitHostPort targetDomain of Some (h, _) \<Rightarrow> h | None \<Rightarrow> targetDomain) port
                    else targetAddr);
                  (r, decision) = Resolve U (sv_urls S) (sv_backend S) now targetHostToCheck origPort (ss_resolver st);
                  st = st\<lparr>ss_resolver := r\<rparr>;
                  proxyToUse = (if isWeb then chosen_proxy decision else '''');
                  targetToDial = (if proxyToUse \<noteq> '''' then dialTarget else targetAddr)
              in (case dial S targetToDial proxyToUse of
                    (acts, Inl err) \<Rightarrow> Some (st, map Out acts)
                  | (acts, Inr (n, _)) \<Rightarrow>
                      if length initialData > 0 \<and> \<not> cl_outWrite c
                      then Some (st, map Out acts @ [WriteOut n initialData, Out (CloseConn n)])
                      else Some (st, map Out acts @ (if length initialData > 0 then [WriteOut n initialData] else [])
                        @ [Relay n (idle_for (sv_config S) (isInteractiveService U protoType origPort targetDomain)),
                           Out (CloseConn n)]))
   }"

section \<open>Explicit proxy clients\<close>

definition forbidden :: string where
  "forbidden = ''HTTP/1.1 403 Forbidden''"

definition bad_gateway :: string where
  "bad_gateway = ''HTTP/1.1 502 Bad Gateway''"

definition established :: string where
  "established = ''HTTP/1.1 200 Connection Established''"

text \<open>A port number of a request, with the default of its scheme.\<close>

definition port_or :: "uint16 \<Rightarrow> string \<Rightarrow> uint16" where
  "port_or dflt portStr =
     (case Atoi portStr of Some p \<Rightarrow> if p > 0 \<and> p \<le> 65535 then word_of_int p else dflt | None \<Rightarrow> dflt)"

definition connect_target :: "request \<Rightarrow> string \<times> uint16" where
  "connect_target req =
     (let target = (if rq_RequestURI req = '''' then rq_Host req else rq_RequestURI req)
      in case SplitHostPort target of
           None \<Rightarrow> (target, 443)
         | Some (targetHost, portStr) \<Rightarrow> (targetHost, port_or 443 portStr))"

definition http_target :: "request \<Rightarrow> string \<times> uint16" where
  "http_target req =
     (let targetHost = (if rq_URL_Hostname req = '''' then
            (case SplitHostPort (rq_Host req) of Some (h, _) \<Rightarrow> h | None \<Rightarrow> rq_Host req)
          else rq_URL_Hostname req)
      in (targetHost, if rq_URL_Port req \<noteq> '''' then port_or 80 (rq_URL_Port req) else 80))"

definition handleExplicitProxyClient ::
  "('s, 't) server \<Rightarrow> int \<Rightarrow> client \<Rightarrow> ('s, 't) srv_state \<Rightarrow> ('s, 't) srv_state \<times> srv_act list" where
  "handleExplicitProxyClient S now c st =
     (let U = sv_unicode S;
          (cache, local') = isAuthorizedLocalClient U now (sv_ifaces S) (addr_string (cl_addr c)) (ss_cache st);
          st = st\<lparr>ss_cache := cache\<rparr>
      in if \<not> local' then (st, [WriteClient forbidden])
         else case cl_request c of
           None \<Rightarrow> (st, [])
         | Some req \<Rightarrow>
             let isConnect = (rq_Method req = ''CONNECT'');
                 (targetHost, targetPort) = (if isConnect then connect_target req else http_target req);
                 targetDisplay = JoinHostPort targetHost (Itoa (unat targetPort))
             in if ShouldBlock U (sv_filter S) targetHost then (st, [WriteClient forbidden])
                else
                  let (r, decision) = Resolve U (sv_urls S) (sv_backend S) now targetHost targetPort (ss_resolver st);
                      st = st\<lparr>ss_resolver := r\<rparr>;
                      proxyToUse = chosen_proxy decision
                  in (case dial S targetDisplay proxyToUse of
                        (acts, Inl err) \<Rightarrow> (st, map Out acts @ [WriteClient bad_gateway])
                      | (acts, Inr (n, _)) \<Rightarrow>
                          if isConnect then
                            (if \<not> cl_writable c then (st, map Out acts @ [WriteClient established, Out (CloseConn n)])
                             else (st, map Out acts @ [WriteClient established,
                               Relay n (idle_for (sv_config S) (isInteractiveService U ''HTTPS'' targetPort targetHost)),
                               Out (CloseConn n)]))
                          else if \<not> cl_outWrite c
                          then (st, map Out acts @ [WriteRequest n (proxyToUse \<noteq> ''''), Out (CloseConn n)])
                          else (st, map Out acts @ [WriteRequest n (proxyToUse \<noteq> ''''),
                            Relay n (idle_for (sv_config S) False), Out (CloseConn n)])))"

section \<open>The handler\<close>

definition original_dst ::
  "('s, 't) server \<Rightarrow> int \<Rightarrow> client \<Rightarrow> ('s, 't) srv_state \<Rightarrow> ('s, 't) srv_state \<times> (netIP \<times> uint16) option" where
  "original_dst S now c st =
     (case sv_redirector S of
        None \<Rightarrow> (st, None)
      | Some rd \<Rightarrow>
          (case ic_LookupConn rd now (cl_addr c) (ss_table st) of
             (t, ip, port, True) \<Rightarrow> (st\<lparr>ss_table := t\<rparr>, Some (ip, port))
           | (t, _, _, False) \<Rightarrow>
               (case ic_Lookup rd now (cl_addr c) t of
                  (t, ip, port, found) \<Rightarrow> (st\<lparr>ss_table := t\<rparr>, if found then Some (ip, port) else None))))"

text \<open>\<open>handleClient\<close>, with what it defers; a panic in the body is recovered.\<close>

definition handleClient ::
  "('s, 't) server \<Rightarrow> int \<Rightarrow> client \<Rightarrow> ('s, 't) srv_state \<Rightarrow> ('s, 't) srv_state \<times> srv_act list" where
  "handleClient S now c st =
     (let (st, acts) =
        (case original_dst S now c st of
           (st, None) \<Rightarrow> handleExplicitProxyClient S now c st
         | (st, Some (origIP, origPort)) \<Rightarrow>
             (case serve_target S now c origIP origPort st of Some res \<Rightarrow> res | None \<Rightarrow> (st, [])))
      in case sv_redirector S of
           None \<Rightarrow> (st, acts @ [CloseClient])
         | Some rd \<Rightarrow> (st\<lparr>ss_table := ic_Delete rd (cl_addr c) (ss_table st)\<rparr>, acts @ [DropSession (cl_addr c), CloseClient]))"

section \<open>Accepting and closing\<close>

text \<open>
  The loop that \<open>StartWithListener\<close> starts: what \<open>Accept\<close> gives, with the value of \<open>closed\<close> that is read after an error.
  The result is the connections a handler is started for, and whether the loop has ended.
\<close>

fun accept_loop :: "('c option \<times> bool) list \<Rightarrow> 'c list \<times> bool" where
  "accept_loop [] = ([], False)"
| "accept_loop ((Some conn, isClosed) # events) = (case accept_loop events of (handled, ended) \<Rightarrow> (conn # handled, ended))"
| "accept_loop ((None, isClosed) # events) = (if isClosed then ([], True) else accept_loop events)"

record lifecycle =
  lc_listener :: bool
  lc_closed :: bool

datatype close_act = CloseListener | AwaitHandlers int

definition Server_Close :: "lifecycle \<Rightarrow> lifecycle \<times> close_act list" where
  "Server_Close s =
     (if lc_closed s then (s, [])
      else (s\<lparr>lc_closed := True\<rparr>, (if lc_listener s then [CloseListener] else []) @ [AwaitHandlers (3 * second)]))"

text \<open>Until \<open>Close\<close> every accepted connection gets a handler, in order, whatever errors occur; the first error after it ends the loop.\<close>

lemma accept_loop_running:
  assumes "\<forall>e \<in> set es. fst e = None \<longrightarrow> \<not> snd e"
  shows "accept_loop es = (List.map_filter fst es, False)"
  using assms by (induction es rule: accept_loop.induct) (auto simp: List.map_filter_simps)

lemma accept_loop_stops:
  assumes "\<forall>e \<in> set es. fst e = None \<longrightarrow> \<not> snd e"
  shows "accept_loop (es @ (None, True) # later) = (List.map_filter fst es, True)"
  using assms by (induction es rule: accept_loop.induct) (auto simp: List.map_filter_simps)

lemma Server_Close_twice: "snd (Server_Close (fst (Server_Close s))) = []"
  by (simp add: Server_Close_def)

section \<open>What a handler leaves behind\<close>

definition outs :: "srv_act list \<Rightarrow> conn_act list" where
  "outs acts = concat (map (\<lambda>a. case a of Out x \<Rightarrow> [x] | _ \<Rightarrow> []) acts)"

lemma outs_simps [simp]:
  "outs [] = []" "outs (Out x # acts) = x # outs acts" "outs (WriteOut n d # acts) = outs acts"
  "outs (WriteRequest n b # acts) = outs acts" "outs (WriteClient m # acts) = outs acts" "outs (Relay n t # acts) = outs acts"
  "outs (DropSession a # acts) = outs acts" "outs (CloseClient # acts) = outs acts"
  "outs (xs @ ys) = outs xs @ outs ys" "outs (map Out zs) = zs"
  by (simp_all add: outs_def) (induction zs; simp)

lemma dial_live:
  "dial S target proxy = (acts, Inl err) \<Longrightarrow> live acts = {}"
  "dial S target proxy = (acts, Inr (n, b)) \<Longrightarrow> live acts = {n}"
proof -
  have "case dial S target proxy of (acts, Inl err) \<Rightarrow> live acts = {} | (acts, Inr (n, b)) \<Rightarrow> live acts = {n}"
  proof (cases "proxy = ''''")
    case True
    then show ?thesis
      by (simp add: dial_def DialOutbound_def live_def)
  next
    case False
    have "dialled_well (sv_outside S) target (dial S target proxy)"
      unfolding dial_def by (rule dialled_well_proxy [OF False])
    then show ?thesis
      by (auto simp: dialled_well_def split: prod.splits sum.splits)
  qed
  then show "dial S target proxy = (acts, Inl err) \<Longrightarrow> live acts = {}"
    "dial S target proxy = (acts, Inr (n, b)) \<Longrightarrow> live acts = {n}"
    by auto
qed

lemma serve_target_live:
  "serve_target S now c ip port st = Some (st', acts) \<Longrightarrow> live (outs acts) = {}"
  by (auto simp: serve_target_def Let_def dest: dial_live split: Option.bind_splits option.splits prod.splits sum.splits if_splits)

lemma explicit_live: "handleExplicitProxyClient S now c st = (st', acts) \<Longrightarrow> live (outs acts) = {}"
  by (auto simp: handleExplicitProxyClient_def Let_def dest: dial_live split: option.splits prod.splits sum.splits if_splits)

lemma serve_target_returns: "returns (serve_target S now c ip port st)"
proof -
  obtain r where "IsHTTPOrHTTPS (sv_unicode S) (cl_peek c) = Some r"
    using returnsD [OF IsHTTPOrHTTPS_returns] by blast
  then show ?thesis
    by (auto simp: serve_target_def inspect_def Let_def returns_def split: option.splits prod.splits sum.splits if_splits)
qed

lemma original_dst_fields [simp]:
  "ss_resolver (fst (original_dst S now c st)) = ss_resolver st" "ss_cache (fst (original_dst S now c st)) = ss_cache st"
  by (auto simp: original_dst_def split: option.splits prod.splits bool.splits)

lemma serve_target_table: "serve_target S now c ip port st = Some (st', acts) \<Longrightarrow> ss_table st' = ss_table st"
  by (auto simp: serve_target_def Let_def split: Option.bind_splits option.splits prod.splits sum.splits if_splits)

lemma explicit_table: "handleExplicitProxyClient S now c st = (st', acts) \<Longrightarrow> ss_table st' = ss_table st"
  by (auto simp: handleExplicitProxyClient_def Let_def split: option.splits prod.splits sum.splits if_splits)

text \<open>The part of the handler between the lookup and the deferred work.\<close>

definition served :: "('s, 't) server \<Rightarrow> int \<Rightarrow> client \<Rightarrow> ('s, 't) srv_state \<Rightarrow> ('s, 't) srv_state \<times> srv_act list" where
  "served S now c st =
     (case original_dst S now c st of
        (st, None) \<Rightarrow> handleExplicitProxyClient S now c st
      | (st, Some (origIP, origPort)) \<Rightarrow>
          (case serve_target S now c origIP origPort st of Some res \<Rightarrow> res | None \<Rightarrow> (st, [])))"

lemma handleClient_served:
  "handleClient S now c st =
     (case served S now c st of (st, acts) \<Rightarrow>
        (case sv_redirector S of
           None \<Rightarrow> (st, acts @ [CloseClient])
         | Some rd \<Rightarrow> (st\<lparr>ss_table := ic_Delete rd (cl_addr c) (ss_table st)\<rparr>, acts @ [DropSession (cl_addr c), CloseClient])))"
  by (simp add: handleClient_def served_def)

lemma served_cases:
  "served S now c st =
     (case snd (original_dst S now c st) of
        None \<Rightarrow> handleExplicitProxyClient S now c (fst (original_dst S now c st))
      | Some (ip, port) \<Rightarrow> the (serve_target S now c ip port (fst (original_dst S now c st))))"
  using returnsD [OF serve_target_returns [of S now c]]
  by (auto simp: served_def split: prod.splits option.splits) (metis option.sel option.simps(3))+

lemma the_serve_target: "serve_target S now c ip port st = Some (the (serve_target S now c ip port st))"
  using returnsD [OF serve_target_returns [of S now c ip port st]] by auto

lemma served_target_props:
  "live (outs (snd (the (serve_target S now c ip port st)))) = {}" "ss_table (fst (the (serve_target S now c ip port st))) = ss_table st"
proof -
  obtain st' acts where "serve_target S now c ip port st = Some (st', acts)"
    using the_serve_target prod.collapse by metis
  then show "live (outs (snd (the (serve_target S now c ip port st)))) = {}"
    "ss_table (fst (the (serve_target S now c ip port st))) = ss_table st"
    using serve_target_live serve_target_table by simp_all
qed

lemmas explicit_props = explicit_live [OF prod.collapse [symmetric]] explicit_table [OF prod.collapse [symmetric]]

lemma served_live: "live (outs (snd (served S now c st))) = {}"
  by (simp add: served_cases served_target_props explicit_props case_prod_beta' split: option.split)

lemma served_table: "ss_table (fst (served S now c st)) = ss_table (fst (original_dst S now c st))"
  by (simp add: served_cases served_target_props explicit_props case_prod_beta' split: option.split)

section \<open>The interface to the interceptor\<close>

text \<open>
  \<open>dest a t\<close> is the destination that the state \<open>t\<close> of the interceptor holds for the client \<open>a\<close>.  A lookup tells it and
  changes it for nobody.
\<close>

locale lookup_interface =
  fixes rd :: "'t intercept" and dest :: "net_addr \<Rightarrow> 't \<Rightarrow> (netIP \<times> uint16) option"
  assumes lookup_result: "ic_Lookup rd now a t = (t', ip, port, found) \<Longrightarrow> found \<Longrightarrow> dest a t = Some (ip, port)"
    and lookup_missed: "ic_LookupConn rd now a t = (t', ip, port, False) \<Longrightarrow> ic_Lookup rd now' a t' = (t'', ip', port', False) \<Longrightarrow> dest a t = None"
    and lookup_keeps: "ic_Lookup rd now a t = (t', ip, port, found) \<Longrightarrow> dest b t' = dest b t"
    and conn_result: "ic_LookupConn rd now a t = (t', ip, port, found) \<Longrightarrow> found \<Longrightarrow> dest a t = Some (ip, port)"
    and conn_keeps: "ic_LookupConn rd now a t = (t', ip, port, found) \<Longrightarrow> dest b t' = dest b t"
begin

lemma original_dst_dest:
  assumes "sv_redirector S = Some rd"
  shows "snd (original_dst S now c st) = dest (cl_addr c) (ss_table st)"
    "dest b (ss_table (fst (original_dst S now c st))) = dest b (ss_table st)"
proof -
  obtain t ip port found where l: "ic_LookupConn rd now (cl_addr c) (ss_table st) = (t, ip, port, found)"
    by (metis prod_cases4)
  obtain t' ip' port' found' where l': "ic_Lookup rd now (cl_addr c) t = (t', ip', port', found')"
    by (metis prod_cases4)
  have d: "dest a t = dest a (ss_table st)" "dest a t' = dest a t" for a
    using conn_keeps [OF l] lookup_keeps [OF l'] by auto
  show "snd (original_dst S now c st) = dest (cl_addr c) (ss_table st)"
  proof (cases found)
    case True
    then show ?thesis
      using assms l conn_result [OF l] by (simp add: original_dst_def)
  next
    case False
    then show ?thesis
      using assms l l' d lookup_result [OF l'] lookup_missed [of now "cl_addr c" "ss_table st" t ip port now t' ip' port']
      by (cases found') (simp_all add: original_dst_def)
  qed
  show "dest b (ss_table (fst (original_dst S now c st))) = dest b (ss_table st)"
    using assms l l' d by (cases found) (simp_all add: original_dst_def)
qed

lemma served_explicit:
  assumes "sv_redirector S = Some rd" "dest (cl_addr c) (ss_table st) = None"
  shows "served S now c st = handleExplicitProxyClient S now c (fst (original_dst S now c st))"
  using original_dst_dest(1) [OF assms(1), of now c st] assms(2) by (simp add: served_cases)

lemma served_transparent:
  assumes "sv_redirector S = Some rd" "dest (cl_addr c) (ss_table st) = Some (ip, port)"
  shows "serve_target S now c ip port (fst (original_dst S now c st)) = Some (served S now c st)"
  using original_dst_dest(1) [OF assms(1), of now c st] assms(2) the_serve_target
  by (simp add: served_cases)

end

text \<open>An interceptor with a table of its own: removing a client's entry removes that of this client only.\<close>

locale session_interface = lookup_interface +
  fixes same :: "net_addr \<Rightarrow> net_addr \<Rightarrow> bool"
  assumes delete_dest: "dest b (ic_Delete rd a t) = (if same a b then None else dest b t)"
begin

lemma handled_dest:
  assumes "sv_redirector S = Some rd" "handleClient S now c st = (st', acts)"
  shows "dest b (ss_table st') = (if same (cl_addr c) b then None else dest b (ss_table st))"
  using assms(2) delete_dest original_dst_dest(2) [OF assms(1)] served_table [of S now c st]
  unfolding handleClient_served assms(1) by (auto split: prod.splits)

end

text \<open>The Windows redirector: its table of sessions.\<close>

definition windows_intercept :: "sessions intercept" where
  "windows_intercept =
     \<lparr>ic_LookupConn = (\<lambda>now a. LookupOriginalDestinationConn now (Some a)), ic_Lookup = LookupOriginalDestination,
      ic_Delete = DeleteSession\<rparr>"

definition addr_key :: "net_addr \<Rightarrow> SessionKey option" where
  "addr_key a = (case a of TCPAddr ip port \<Rightarrow> Some (MakeSessionKeyFromNetIP ip (word_of_int port)) | _ \<Rightarrow> None)"

definition session_dest :: "net_addr \<Rightarrow> sessions \<Rightarrow> (netIP \<times> uint16) option" where
  "session_dest a t =
     (case addr_key a of None \<Rightarrow> None | Some k \<Rightarrow> map_option (\<lambda>info. (OriginalDstIP info, OriginalDstPort info)) (t k))"

definition same_client :: "net_addr \<Rightarrow> net_addr \<Rightarrow> bool" where
  "same_client a b \<longleftrightarrow> addr_key a \<noteq> None \<and> addr_key a = addr_key b"

lemma lookup_dest:
  assumes "LookupOriginalDestination now a t = (t', ip, port, found)"
  shows "session_dest a t = (if found then Some (ip, port) else None)" "session_dest b t' = session_dest b t"
  using assms
  by (auto simp: LookupOriginalDestination_def session_dest_def addr_key_def Let_def split: net_addr.splits option.splits)

interpretation win: session_interface windows_intercept session_dest same_client
proof
  fix now now' :: int and a b :: net_addr and t t' t'' :: sessions and ip ip' :: netIP and port port' :: uint16 and found
  show "ic_Lookup windows_intercept now a t = (t', ip, port, found) \<Longrightarrow> found \<Longrightarrow> session_dest a t = Some (ip, port)"
    and "ic_Lookup windows_intercept now a t = (t', ip, port, found) \<Longrightarrow> session_dest b t' = session_dest b t"
    and "ic_LookupConn windows_intercept now a t = (t', ip, port, found) \<Longrightarrow> found \<Longrightarrow> session_dest a t = Some (ip, port)"
    and "ic_LookupConn windows_intercept now a t = (t', ip, port, found) \<Longrightarrow> session_dest b t' = session_dest b t"
    using lookup_dest [of now a t t' ip port found] by (simp_all add: windows_intercept_def LookupOriginalDestinationConn_def)
  show "ic_LookupConn windows_intercept now a t = (t', ip, port, False)
      \<Longrightarrow> ic_Lookup windows_intercept now' a t' = (t'', ip', port', False) \<Longrightarrow> session_dest a t = None"
    using lookup_dest [of now a t t' ip port False] by (simp add: windows_intercept_def LookupOriginalDestinationConn_def)
  show "session_dest b (ic_Delete windows_intercept a t) = (if same_client a b then None else session_dest b t)"
    by (auto simp: windows_intercept_def DeleteSession_def session_dest_def same_client_def addr_key_def split: net_addr.splits option.splits)
qed

section \<open>Policy\<close>

text \<open>The name under which a connection is judged: the server name or host the client has announced, else the address.\<close>

definition seen_host :: "unicode \<Rightarrow> client \<Rightarrow> netIP \<Rightarrow> uint16 \<Rightarrow> string" where
  "seen_host U c ip port =
     (if isServerFirstPort port then IP_String ip
      else case IsHTTPOrHTTPS U (cl_peek c) of
        Some (_, _, domain) \<Rightarrow> if domain = '''' then IP_String ip else domain
      | None \<Rightarrow> IP_String ip)"

definition request_host :: "request \<Rightarrow> string" where
  "request_host req = fst (if rq_Method req = ''CONNECT'' then connect_target req else http_target req)"

text \<open>What a connection asks for; \<open>None\<close> if it asks for nothing.\<close>

definition asked_host :: "unicode \<Rightarrow> client \<Rightarrow> (netIP \<times> uint16) option \<Rightarrow> string option" where
  "asked_host U c dst =
     (case dst of Some (ip, port) \<Rightarrow> Some (seen_host U c ip port) | None \<Rightarrow> map_option request_host (cl_request c))"

lemma serve_target_blocked:
  assumes "ShouldBlock (sv_unicode S) (sv_filter S) (seen_host (sv_unicode S) c ip port)"
  shows "serve_target S now c ip port st = Some (st, [])"
proof -
  obtain b p d where "IsHTTPOrHTTPS (sv_unicode S) (cl_peek c) = Some (b, p, d)"
    using returnsD [OF IsHTTPOrHTTPS_returns] by (metis prod_cases3)
  with assms show ?thesis
    by (auto simp: serve_target_def inspect_def seen_host_def Let_def split: if_splits)
qed

lemma explicit_blocked:
  assumes "cl_request c = None \<or> ShouldBlock (sv_unicode S) (sv_filter S) (request_host (the (cl_request c)))"
    "handleExplicitProxyClient S now c st = (st', acts)"
  shows "ss_resolver st' = ss_resolver st" "set acts \<subseteq> {WriteClient forbidden}"
  using assms
  by (auto simp: handleExplicitProxyClient_def request_host_def Let_def split: option.splits prod.splits if_splits)

text \<open>
  C1: the policy is enforced on every connection.  When the filter engine blocks what a connection asks for - the TLS
  server name or HTTP host its first bytes announce, else the address it was sent to; for an explicit client the host of its
  request - the handler opens no connection, sends nothing upstream and does not consult the PAC resolver: all it does is
  to say 403 to an explicit client, drop the session and close.
\<close>

theorem policy_enforced:
  assumes "sv_redirector S = Some windows_intercept" "handleClient S now c st = (st', acts)"
    "case asked_host (sv_unicode S) c (session_dest (cl_addr c) (ss_table st)) of
       None \<Rightarrow> True | Some h \<Rightarrow> ShouldBlock (sv_unicode S) (sv_filter S) h"
  shows "set acts \<subseteq> {WriteClient forbidden, DropSession (cl_addr c), CloseClient} \<and> ss_resolver st' = ss_resolver st"
proof -
  let ?st = "fst (original_dst S now c st)"
  have "set (snd (served S now c st)) \<subseteq> {WriteClient forbidden} \<and> ss_resolver (fst (served S now c st)) = ss_resolver st"
  proof (cases "session_dest (cl_addr c) (ss_table st)")
    case None
    then have "served S now c st = handleExplicitProxyClient S now c ?st"
      by (rule win.served_explicit [OF assms(1)])
    then show ?thesis
      using assms(3) None explicit_blocked [of c S now ?st, OF _ prod.collapse [symmetric]]
      by (auto simp: asked_host_def split: option.splits)
  next
    case (Some dst)
    then have "serve_target S now c (fst dst) (snd dst) ?st = Some (served S now c st)"
      by (intro win.served_transparent [OF assms(1)]) simp
    then show ?thesis
      using assms(3) Some serve_target_blocked [of S c "fst dst" "snd dst" now ?st]
      by (cases dst) (auto simp: asked_host_def)
  qed
  then show ?thesis
    using assms(1,2) by (auto simp: handleClient_served split: prod.splits)
qed

text \<open>
  C19: a handler cleans up after itself.  Whatever a client sends and however dialling, authentication and relaying go,
  every connection the handler has opened is closed when it returns, the client's connection is closed, and the client's
  session is gone from the table of the redirector, while the sessions of all other clients lead where they led before.
\<close>

theorem handler_cleans_up:
  assumes "sv_redirector S = Some windows_intercept" "handleClient S now c st = (st', acts)"
  shows "live (outs acts) = {} \<and> (\<exists>acts'. acts = acts' @ [DropSession (cl_addr c), CloseClient])
    \<and> (\<forall>b. session_dest b (ss_table st')
          = (if same_client (cl_addr c) b then None else session_dest b (ss_table st)))"
  using assms(2) served_live [of S now c st] win.handled_dest [OF assms]
  by (auto simp: handleClient_served assms(1) split: prod.splits)

section \<open>Explicit clients are local\<close>

text \<open>The hosts that may use the proxy explicitly, by the listing of the interfaces: this host, and the virtual networks of WSL.\<close>

definition local_host :: "unicode \<Rightarrow> iface list \<Rightarrow> byte list \<Rightarrow> bool" where
  "local_host U ifs a \<longleftrightarrow> a ! 0 = 127
     \<or> (\<exists>i \<in> set ifs. \<exists>n \<in> set (iface_nets i).
          IP_Equal (net_ip n) (v4InV6Prefix @ a) \<or> virtual_wsl U (if_Name i) \<and> IPNet_Contains n (v4InV6Prefix @ a))"

lemma addr_string_v4: "To4 ip = Some a \<Longrightarrow> addr_string (TCPAddr ip port) = JoinHostPort (dotted a) (Itoa (nat port))"
  by (auto simp: addr_string_def IP_String_To4 To4_def)

lemma isAuthorizedLocalClient_v4:
  assumes "To4 ip = Some a" "ifaces = Some ifs" "30 * second \<le> now - lastCacheUpdate c"
  shows "snd (isAuthorizedLocalClient U now ifaces (addr_string (TCPAddr ip port)) c) = local_host U ifs a"
proof -
  have a: "length a = 4"
    by (rule length_To4 [OF assms(1)])
  then have "IsLoopback (v4InV6Prefix @ a) \<longleftrightarrow> a ! 0 = 127"
    by (simp add: IsLoopback_def To4_def)
  with a assms show ?thesis
    by (auto simp: isAuthorizedLocalClient_def addr_string_v4 SplitHostPort_v4 ParseIP_dotted updateLocalInterfaceCache_def
        local_host_def list_ex_iff Let_def)
qed

text \<open>
  C20: nobody else can use the proxy explicitly.  A client over IPv4 without a session, whose address, by a fresh listing of
  the interfaces, is neither a loopback address nor one of this host nor in a virtual network of WSL, gets 403 and nothing
  else happens: its request is not even looked at.
\<close>

theorem explicit_clients_local:
  assumes "sv_redirector S = Some windows_intercept" "cl_addr c = TCPAddr ip port" "To4 ip = Some a"
    "session_dest (cl_addr c) (ss_table st) = None" "sv_ifaces S = Some ifs" "30 * second \<le> now - lastCacheUpdate (ss_cache st)"
    "\<not> local_host (sv_unicode S) ifs a"
  shows "snd (handleClient S now c st) = [WriteClient forbidden, DropSession (cl_addr c), CloseClient]"
proof -
  let ?st = "fst (original_dst S now c st)"
  have "\<not> snd (isAuthorizedLocalClient (sv_unicode S) now (sv_ifaces S) (addr_string (cl_addr c)) (ss_cache ?st))"
    using isAuthorizedLocalClient_v4 [OF assms(3,5)] assms(2,6,7) by simp
  then have "snd (handleExplicitProxyClient S now c ?st) = [WriteClient forbidden]"
    by (simp add: handleExplicitProxyClient_def Let_def case_prod_beta')
  then show ?thesis
    using win.served_explicit [OF assms(1,4), of now] assms(1) by (simp add: handleClient_served case_prod_beta')
qed

section \<open>From the packet to the connection\<close>

text \<open>What is done for a connection that goes out directly: dial, hand over what has been read, relay, close.\<close>

definition direct_service :: "outside \<Rightarrow> client \<Rightarrow> string \<Rightarrow> byte list \<Rightarrow> int \<Rightarrow> srv_act list" where
  "direct_service E c target initial idle =
     (if \<not> ou_dial E 0 target then []
      else Out (OpenConn 0 target) # (if initial = [] then [] else [WriteOut 0 initial])
        @ (if initial \<noteq> [] \<and> \<not> cl_outWrite c then [] else [Relay 0 idle]) @ [Out (CloseConn 0)])"

lemma serve_target_direct:
  assumes "\<not> ShouldBlock (sv_unicode S) (sv_filter S) (seen_host (sv_unicode S) c ip port)"
    "isServerFirstPort port \<or> cl_peek c \<noteq> [] \<or> cl_peekErr c \<noteq> Some PeekClosed"
    "IsDirect (snd (Resolve (sv_unicode S) (sv_urls S) (sv_backend S) now (seen_host (sv_unicode S) c ip port) port (ss_resolver st)))"
  shows "\<exists>idle. snd (the (serve_target S now c ip port st)) =
    direct_service (sv_outside S) c (JoinHostPort (IP_String ip) (Itoa (unat port))) (if isServerFirstPort port then [] else cl_peek c) idle"
proof -
  obtain b p d where i: "IsHTTPOrHTTPS (sv_unicode S) (cl_peek c) = Some (b, p, d)"
    using returnsD [OF IsHTTPOrHTTPS_returns] by (metis prod_cases3)
  show ?thesis
    using assms i
    by (auto simp: serve_target_def inspect_def seen_host_def Let_def chosen_proxy_def dial_def DialOutbound_def direct_service_def
        split: if_splits prod.splits)
qed

text \<open>A handler that has found the destination \<open>ip:port\<close>, over IPv4.\<close>

lemma direct_handled:
  assumes "served S now c st = the (serve_target S now c ip port (fst (original_dst S now c st)))" "To4 ip = Some d"
    "sv_redirector S \<noteq> None" "isServerFirstPort port \<or> cl_peek c \<noteq> [] \<or> cl_peekErr c \<noteq> Some PeekClosed"
    "\<not> ShouldBlock (sv_unicode S) (sv_filter S) (seen_host (sv_unicode S) c d port)"
    "IsDirect (snd (Resolve (sv_unicode S) (sv_urls S) (sv_backend S) now (seen_host (sv_unicode S) c d port) port (ss_resolver st)))"
  shows "\<exists>idle. snd (handleClient S now c st) =
    direct_service (sv_outside S) c (dotted d @ '':'' @ Itoa (unat port)) (if isServerFirstPort port then [] else cl_peek c) idle
    @ [DropSession (cl_addr c), CloseClient]"
proof -
  have d4: "length d = 4"
    by (rule length_To4 [OF assms(2)])
  have printed: "IP_String ip = dotted d" "IP_String d = dotted d"
    using d4 by (simp_all add: IP_String_To4 [OF assms(2)] IP_String_To4 [of d d] To4_def)
  then have host: "seen_host (sv_unicode S) c ip port = seen_host (sv_unicode S) c d port"
    unfolding seen_host_def printed by simp
  obtain idle where
    "snd (served S now c st) = direct_service (sv_outside S) c (dotted d @ '':'' @ Itoa (unat port))
      (if isServerFirstPort port then [] else cl_peek c) idle"
    using serve_target_direct [of S c ip port now "fst (original_dst S now c st)"] assms(4-6) d4
    unfolding assms(1) host by (auto simp: printed JoinHostPort_def)
  then have "snd (handleClient S now c st) = direct_service (sv_outside S) c (dotted d @ '':'' @ Itoa (unat port))
      (if isServerFirstPort port then [] else cl_peek c) idle @ [DropSession (cl_addr c), CloseClient]"
    using assms(3) by (auto simp: handleClient_served case_prod_beta')
  then show ?thesis
    by blast
qed

text \<open>The destination of a session, as a handler finds it under the address of the connection.\<close>

lemma leads_to_dest:
  assumes "has_session (MakeSessionKeyIPv4 s sp) org t r" "leads_to4 d dp addr org" "To4 cip = Some s"
  shows "\<exists>ip. session_dest (TCPAddr cip (uint sp)) (rd_sessions r) = Some (ip, dp) \<and> To4 ip = Some d"
  using assms
  by (auto simp: has_session_def leads_to4_def origin_def session_dest_def addr_key_def MakeSessionKeyFromNetIP_def
      MakeSessionKeyIPv4_def)

text \<open>
  C2: a client reaches the destination it asked for.  A TCP packet over IPv4 from \<open>s:sp\<close> to \<open>d:dp\<close> is translated; other
  packets, clock ticks, sweeps and DNS work follow in any order; then the server accepts the connection from \<open>s:sp\<close>, whose
  address it gets in four or in sixteen bytes.  If policy allows it, the client has not gone and the resolver says direct,
  then exactly one connection is opened, to \<open>d:dp\<close>; the bytes read for inspection are the first that are sent on it,
  unchanged; then comes the relay; and the session is dropped.
\<close>

theorem transparent_end_to_end:
  assumes "tcp4 raw s d sp dp flags ihl off" "length raw \<le> 65535" "calc_keeps D" "rd_localProxyPort r \<noteq> 0"
    "proxy_ip4 r s = Some t" "translated r sp"
    "\<forall>e \<in> set es. leaves (MakeSessionKeyIPv4 s sp) (rd_coarseNano r) e"
    "sv_redirector S = Some windows_intercept" "cl_addr c = TCPAddr cip (uint sp)" "To4 cip = Some s"
    "isServerFirstPort dp \<or> cl_peek c \<noteq> [] \<or> cl_peekErr c \<noteq> Some PeekClosed"
    "\<not> ShouldBlock (sv_unicode S) (sv_filter S) (seen_host (sv_unicode S) c d dp)"
    "IsDirect (snd (Resolve (sv_unicode S) (sv_urls S) (sv_backend S) now' (seen_host (sv_unicode S) c d dp) dp (ss_resolver st)))"
  shows "\<exists>r1 out1 r2 out2 idle. packet_step U D now raw addr r = Some (r1, out1) \<and> run_events U D es r1 = Some (r2, out2)
    \<and> snd (handleClient S now' c (st\<lparr>ss_table := rd_sessions r2\<rparr>)) =
        direct_service (sv_outside S) c (dotted d @ '':'' @ Itoa (unat dp)) (if isServerFirstPort dp then [] else cl_peek c) idle
        @ [DropSession (cl_addr c), CloseClient]"
proof -
  from nat4_forward_step [OF assms(1-6), of U now addr] obtain r1 out1 org where
    f: "packet_step U D now raw addr r = Some (r1, out1)" "leads_to4 d dp addr org"
    "has_session (MakeSessionKeyIPv4 s sp) org (rd_coarseNano r) r1"
    by blast
  from run_events_keep [OF assms(7) f(3), of U D] obtain r2 out2 where
    m: "run_events U D es r1 = Some (r2, out2)" "has_session (MakeSessionKeyIPv4 s sp) org (rd_coarseNano r) r2"
    by blast
  let ?st = "st\<lparr>ss_table := rd_sessions r2\<rparr>"
  from leads_to_dest [OF m(2) f(2) assms(10)] obtain ip where
    dst: "session_dest (cl_addr c) (ss_table ?st) = Some (ip, dp)" "To4 ip = Some d"
    by (auto simp: assms(9))
  have "served S now' c ?st = the (serve_target S now' c ip dp (fst (original_dst S now' c ?st)))"
    using win.served_transparent [OF assms(8) dst(1), of now'] by simp
  from direct_handled [OF this dst(2)] assms(8,11-13) f(1) m(1) show ?thesis
    by fastforce
qed

section \<open>Samples\<close>

definition no_proxy :: "unit Resolver" where
  "no_proxy = \<lparr>rs_pacURL = '''', rs_staticProxy = '''', rs_isPACMode = False, rs_session = None, rs_cache = [], rs_cacheSize = 0,
     rs_stopped = False\<rparr>"

definition open_network :: outside where
  "open_network = \<lparr>ou_Parse = (\<lambda>_. None), ou_dial = (\<lambda>_ _. True), ou_Handshake = (\<lambda>_ _. True),
     ou_peer = (\<lambda>_. \<lparr>pe_write = (\<lambda>_. True), pe_resp = (\<lambda>_. None)\<rparr>)\<rparr>"

definition sample_server :: "FilterEngine \<Rightarrow> (unit, sessions) server" where
  "sample_server F = \<lparr>sv_unicode = plain_unicode, sv_urls = sample_urls,
     sv_backend = \<lparr>pb_create = (\<lambda>_. Inl ''''), pb_get = (\<lambda>_ _ s. (s, True, '''', None)), pb_close = id, pb_detect = None\<rparr>, sv_isWindows = True,
     sv_sspi = no_sspi, sv_outside = open_network, sv_config = DefaultConfig, sv_filter = F,
     sv_redirector = Some windows_intercept, sv_ifaces = Some []\<rparr>"

definition sample_state :: "sessions \<Rightarrow> (unit, sessions) srv_state" where
  "sample_state t = \<lparr>ss_table = t, ss_resolver = no_proxy,
     ss_cache = \<lparr>localIPsCache = [], localSubnetsCache = [], lastCacheUpdate = 0\<rparr>\<rparr>"

definition sample_client :: "byte list \<Rightarrow> string \<Rightarrow> client" where
  "sample_client ip host = \<lparr>cl_addr = TCPAddr ip 51000, cl_peek = [], cl_peekErr = Some PeekTimeout,
     cl_request = Some \<lparr>rq_Method = ''CONNECT'', rq_RequestURI = host @ '':443'', rq_Host = host, rq_URL_Hostname = '''', rq_URL_Port = ''''\<rparr>,
     cl_writable = True, cl_outWrite = True\<rparr>"

definition block_all :: FilterEngine where
  "block_all = \<lparr>fe_rules = Some \<lparr>rs_mode = ''whitelist'', exactDomains = {}, suffixRoots = {}, wildcardPatterns = [], rs_ips = {}, rs_cidrs = []\<rparr>\<rparr>"

lemma sample_server_fields [simp]:
  "sv_redirector (sample_server F) = Some windows_intercept" "sv_unicode (sample_server F) = plain_unicode"
  "sv_filter (sample_server F) = F" "sv_ifaces (sample_server F) = Some []" "sv_outside (sample_server F) = open_network"
  by (simp_all add: sample_server_def)

lemma block_all_blocks: "ShouldBlock plain_unicode block_all ''example.com''"
  by code_simp

theorem policy_enforced_witness:
  "set (snd (handleClient (sample_server block_all) 0 (sample_client [127, 0, 0, 1] ''example.com'') (sample_state Map.empty)))
      \<subseteq> {WriteClient forbidden, DropSession (cl_addr (sample_client [127, 0, 0, 1] ''example.com'')), CloseClient}
    \<and> ss_resolver (fst (handleClient (sample_server block_all) 0 (sample_client [127, 0, 0, 1] ''example.com'') (sample_state Map.empty)))
      = ss_resolver (sample_state Map.empty)"
proof (rule policy_enforced [OF _ prod.collapse [symmetric]])
  have "request_host (the (cl_request (sample_client [127, 0, 0, 1] ''example.com''))) = ''example.com''"
    by code_simp
  then show "case asked_host (sv_unicode (sample_server block_all)) (sample_client [127, 0, 0, 1] ''example.com'')
      (session_dest (cl_addr (sample_client [127, 0, 0, 1] ''example.com'')) (ss_table (sample_state Map.empty))) of
       None \<Rightarrow> True | Some h \<Rightarrow> ShouldBlock (sv_unicode (sample_server block_all)) (sv_filter (sample_server block_all)) h"
    using block_all_blocks
    by (simp add: asked_host_def sample_state_def session_dest_def addr_key_def sample_client_def)
qed simp

theorem handler_cleans_up_witness:
  "live (outs (snd (handleClient (sample_server block_all) 0 (sample_client [127, 0, 0, 1] ''example.com'') (sample_state Map.empty)))) = {}
    \<and> (\<exists>acts'. snd (handleClient (sample_server block_all) 0 (sample_client [127, 0, 0, 1] ''example.com'') (sample_state Map.empty))
        = acts' @ [DropSession (cl_addr (sample_client [127, 0, 0, 1] ''example.com'')), CloseClient])
    \<and> (\<forall>b. session_dest b (ss_table (fst (handleClient (sample_server block_all) 0 (sample_client [127, 0, 0, 1] ''example.com'')
            (sample_state Map.empty))))
        = (if same_client (cl_addr (sample_client [127, 0, 0, 1] ''example.com'')) b then None
           else session_dest b (ss_table (sample_state Map.empty))))"
  by (rule handler_cleans_up [OF _ prod.collapse [symmetric]]) simp

theorem explicit_clients_local_witness:
  "snd (handleClient (sample_server block_all) (31 * second) (sample_client [192, 0, 2, 7] ''example.com'') (sample_state Map.empty))
    = [WriteClient forbidden, DropSession (cl_addr (sample_client [192, 0, 2, 7] ''example.com'')), CloseClient]"
  by (rule explicit_clients_local [where ip = "[192, 0, 2, 7]" and a = "[192, 0, 2, 7]" and port = 51000 and ifs = "[]"])
    (simp_all add: sample_client_def sample_state_def session_dest_def addr_key_def To4_def second_def local_host_def)

theorem transparent_end_to_end_witness:
  "\<exists>r1 out1 r2 out2 idle.
    packet_step plain_unicode plain_divert 0 (sample_tcp4 [10, 0, 0, 5] [93, 184, 216, 34] 51000 22 2) sample_addr sample_rd = Some (r1, out1)
    \<and> run_events plain_unicode plain_divert [Clock second, Worker, Sweep (2 * second)] r1 = Some (r2, out2)
    \<and> snd (handleClient (sample_server \<lparr>fe_rules = None\<rparr>) 0 (sample_client [10, 0, 0, 5] ''h'') (sample_state Map.empty\<lparr>ss_table := rd_sessions r2\<rparr>)) =
        direct_service (sv_outside (sample_server \<lparr>fe_rules = None\<rparr>)) (sample_client [10, 0, 0, 5] ''h'')
          (dotted [93, 184, 216, 34] @ '':'' @ Itoa (unat (22 :: uint16)))
          (if isServerFirstPort 22 then [] else cl_peek (sample_client [10, 0, 0, 5] ''h'')) idle
        @ [DropSession (cl_addr (sample_client [10, 0, 0, 5] ''h'')), CloseClient]"
proof (rule transparent_end_to_end [OF sample_tcp4_parses _ plain_divert_keeps, where cip = "[10, 0, 0, 5]" and t = "[10, 0, 0, 5]"])
  show "\<forall>e \<in> set [Clock second, Worker, Sweep (2 * second)]. leaves (MakeSessionKeyIPv4 [10, 0, 0, 5] 51000) (rd_coarseNano sample_rd) e"
    by (simp add: sample_rd_fields sessionTTL_def second_def)
  show "IsDirect (snd (Resolve (sv_unicode (sample_server \<lparr>fe_rules = None\<rparr>)) (sv_urls (sample_server \<lparr>fe_rules = None\<rparr>))
      (sv_backend (sample_server \<lparr>fe_rules = None\<rparr>)) 0
      (seen_host (sv_unicode (sample_server \<lparr>fe_rules = None\<rparr>)) (sample_client [10, 0, 0, 5] ''h'') [93, 184, 216, 34] 22) 22
      (ss_resolver (sample_state Map.empty))))"
    by (simp add: Resolve_def sample_state_def no_proxy_def static_decision_def direct_def)
qed (simp_all add: sample_rd_fields sample_tcp4_def proxy_ip4_def translated_def own_port_def sample_client_def To4_def
    isServerFirstPort_def ShouldBlock_def seen_host_def IP_String_def dotted_def)

end
