(* ===== verification/RedirectorLinux.thy ===== *)
theory RedirectorLinux
  imports IpTables ProxyServer LittleEndian
begin

text \<open>
  The Linux redirector, \<open>internal/interceptor/redirector_linux.go\<close>: its state and settings, starting and closing, the original
  destination of a connection as the kernel reports it, and the local DNS interceptor.  The firewall commands are in the theory
  \<open>IpTables\<close>.  Socket options and datagrams the kernel delivers are parameters.
\<close>

section \<open>State\<close>

record lin_redirector =
  lr_localProxyPort :: uint16
  lr_localDNSUDPPort :: uint16
  lr_filterStr :: string
  lr_dryRun :: bool
  lr_filterEng :: "filter_evaluator option"
  lr_routingEng :: "routing_evaluator option"
  lr_dnsEng :: "dns_evaluator option"
  lr_dnsServers :: "string list"
  lr_dnsUDPConn :: "uint16 option"
  lr_dnsUDPConn2 :: "uint16 option"
  lr_uid :: nat
  lr_rulesApplied :: bool
  lr_filterUDP :: bool
  lr_closed :: bool

definition lin_NewRedirector :: "nat \<Rightarrow> string \<Rightarrow> string \<Rightarrow> string + lin_redirector" where
  "lin_NewRedirector euid localListenAddr customFilter =
     (case SplitHostPort localListenAddr of
        None \<Rightarrow> Inl ''invalid listen address''
      | Some (_, portStr) \<Rightarrow>
          (case Atoi portStr of
             None \<Rightarrow> Inl ''invalid listen port''
           | Some port \<Rightarrow>
               if port \<le> 0 \<or> port > 65535 then Inl ''invalid listen port''
               else
                 let dnsPort = port + 100;
                     dnsPort = (if dnsPort > 65535 then 18053 else dnsPort)
                 in Inr \<lparr>lr_localProxyPort = word_of_int port, lr_localDNSUDPPort = word_of_int dnsPort, lr_filterStr = customFilter,
                      lr_dryRun = False, lr_filterEng = None, lr_routingEng = None, lr_dnsEng = None, lr_dnsServers = [],
                      lr_dnsUDPConn = None, lr_dnsUDPConn2 = None, lr_uid = euid, lr_rulesApplied = False, lr_filterUDP = False,
                      lr_closed = False\<rparr>))"

definition lin_SetDryRun ::
  "bool \<Rightarrow> string \<Rightarrow> filter_evaluator option \<Rightarrow> routing_evaluator option \<Rightarrow> lin_redirector \<Rightarrow> lin_redirector" where
  "lin_SetDryRun dryRun forwardCond filterEng routingEng r =
     r\<lparr>lr_dryRun := dryRun, lr_filterEng := filterEng, lr_routingEng := routingEng\<rparr>"

definition lin_SetDNSEngine :: "dns_evaluator option \<Rightarrow> lin_redirector \<Rightarrow> lin_redirector" where
  "lin_SetDNSEngine dnsEng r = r\<lparr>lr_dnsEng := dnsEng\<rparr>"

definition lin_SetUDPFilter :: "bool \<Rightarrow> filter_evaluator option \<Rightarrow> lin_redirector \<Rightarrow> lin_redirector" where
  "lin_SetUDPFilter filterUDP filterEng r =
     (let r = r\<lparr>lr_filterUDP := filterUDP\<rparr>
      in if filterEng \<noteq> None then r\<lparr>lr_filterEng := filterEng\<rparr> else r)"

text \<open>What the rules depend on, read off the redirector.\<close>

definition rule_env_of :: "lin_redirector \<Rightarrow> rule_env" where
  "rule_env_of r = \<lparr>re_proxyPort = lr_localProxyPort r, re_dnsPort = lr_localDNSUDPPort r, re_uid = lr_uid r,
     re_dnsServers = lr_dnsServers r, re_dnsEng = (lr_dnsEng r \<noteq> None)\<rparr>"

definition lin_SetDNSServers :: "unicode \<Rightarrow> 'k iptables \<Rightarrow> string list \<Rightarrow> lin_redirector \<times> 'k \<Rightarrow> lin_redirector \<times> 'k" where
  "lin_SetDNSServers U I dnsServers s =
     (case s of (r, k) \<Rightarrow>
        let r = r\<lparr>lr_dnsServers := dnsServers\<rparr>
        in if lr_rulesApplied r \<and> \<not> lr_closed r then (r, fst (applyIPTablesRules U I (rule_env_of r) k)) else (r, k))"

section \<open>Starting and closing\<close>

datatype lin_act = ListenUDP uint16 | CloseUDP uint16 | DnsLoop uint16

text \<open>\<open>udp\<close> tells whether a UDP port can be bound.\<close>

definition lin_listen :: "(uint16 \<Rightarrow> bool) \<Rightarrow> lin_redirector \<Rightarrow> lin_redirector \<times> lin_act list \<times> string option" where
  "lin_listen udp r =
     (if length (lr_dnsServers r) = 0 \<and> lr_dnsEng r \<noteq> None then
        let p1 = lr_localDNSUDPPort r; p2 = lr_localDNSUDPPort r + 1
        in if \<not> udp p1 then (r, [], Some ''failed to listen on local DNS UDP port'')
           else
             let r = r\<lparr>lr_dnsUDPConn := Some p1\<rparr>
             in if \<not> udp p2 then (r, [ListenUDP p1, DnsLoop p1], Some ''failed to listen on local DNS UDP port'')
                else (r\<lparr>lr_dnsUDPConn2 := Some p2\<rparr>, [ListenUDP p1, DnsLoop p1, ListenUDP p2, DnsLoop p2], None)
      else (r, [], None))"

definition close_conns :: "lin_redirector \<Rightarrow> lin_act list" where
  "close_conns r = map CloseUDP (case lr_dnsUDPConn r of Some p \<Rightarrow> [p] | None \<Rightarrow> [])
     @ map CloseUDP (case lr_dnsUDPConn2 r of Some p \<Rightarrow> [p] | None \<Rightarrow> [])"

definition lin_Start ::
  "unicode \<Rightarrow> 'k iptables \<Rightarrow> (uint16 \<Rightarrow> bool) \<Rightarrow> lin_redirector \<times> 'k \<Rightarrow> (lin_redirector \<times> 'k) \<times> lin_act list \<times> string option" where
  "lin_Start U I udp s =
     (case s of (r, k) \<Rightarrow>
        if lr_closed r then ((r, k), [], Some ''redirector already closed'')
        else if lr_dryRun r then ((r, k), [], None)
        else case lin_listen udp r of
          (r, acts, Some err) \<Rightarrow> ((r, k), acts, Some err)
        | (r, acts, None) \<Rightarrow>
            (case applyIPTablesRules U I (rule_env_of r) k of
               (k, Some err) \<Rightarrow> ((r, k), acts @ close_conns r, Some err)
             | (k, None) \<Rightarrow> ((r\<lparr>lr_rulesApplied := True\<rparr>, k), acts, None)))"

definition lin_Close :: "unicode \<Rightarrow> 'k iptables \<Rightarrow> lin_redirector \<times> 'k \<Rightarrow> (lin_redirector \<times> 'k) \<times> lin_act list" where
  "lin_Close U I s =
     (case s of (r, k) \<Rightarrow>
        if lr_closed r then ((r, k), [])
        else
          let r = r\<lparr>lr_closed := True\<rparr>; acts = close_conns r
          in if lr_rulesApplied r then ((r\<lparr>lr_rulesApplied := False\<rparr>, removeIPTablesRules U I k), acts) else ((r, k), acts))"

section \<open>The original destination of a connection\<close>

text \<open>
  The two socket options of a connection: the bytes the kernel writes, or an error; \<open>conn_control\<close> is false where there is no
  TCP socket to ask.
\<close>

record sock =
  so_control :: bool
  so_v4 :: "byte list option"
  so_v6 :: "byte list option"

definition orig_dst :: "sock \<Rightarrow> netIP \<times> uint16 \<times> bool" where
  "orig_dst c =
     (if \<not> so_control c then ([], 0, False)
      else
        let (origIP, origPort) =
          (case so_v4 c of
             Some raw \<Rightarrow> (IPv4 (raw ! 4) (raw ! 5) (raw ! 6) (raw ! 7), be16 (raw ! 2) (raw ! 3))
           | None \<Rightarrow>
               (case so_v6 c of
                  Some raw6 \<Rightarrow> (take 16 (drop 8 raw6), be16 (raw6 ! 2) (raw6 ! 3))
                | None \<Rightarrow> ([], 0)))
        in if origIP = [] \<or> origPort = 0 then ([], 0, False) else (origIP, origPort, True))"

definition lin_LookupOriginalDestinationConn :: "net_addr \<Rightarrow> (net_addr \<Rightarrow> sock) \<Rightarrow> netIP \<times> uint16 \<times> bool" where
  "lin_LookupOriginalDestinationConn conn socks = orig_dst (socks conn)"

definition lin_LookupOriginalDestination :: "net_addr \<Rightarrow> netIP \<times> uint16 \<times> bool" where
  "lin_LookupOriginalDestination clientAddr = ([], 0, False)"

definition lin_DeleteSession :: "net_addr \<Rightarrow> 't \<Rightarrow> 't" where
  "lin_DeleteSession clientAddr t = t"

definition linux_intercept :: "(net_addr \<Rightarrow> sock) intercept" where
  "linux_intercept =
     \<lparr>ic_LookupConn = (\<lambda>now a socks. (socks, lin_LookupOriginalDestinationConn a socks)),
      ic_Lookup = (\<lambda>now a socks. (socks, lin_LookupOriginalDestination a)), ic_Delete = lin_DeleteSession\<rparr>"

definition kernel_dest :: "net_addr \<Rightarrow> (net_addr \<Rightarrow> sock) \<Rightarrow> (netIP \<times> uint16) option" where
  "kernel_dest a socks = (case orig_dst (socks a) of (ip, port, found) \<Rightarrow> if found then Some (ip, port) else None)"

interpretation lin: lookup_interface linux_intercept kernel_dest
  by unfold_locales
    (auto simp: linux_intercept_def lin_LookupOriginalDestinationConn_def lin_LookupOriginalDestination_def kernel_dest_def)

section \<open>DNS interception\<close>

text \<open>A control message: level, type and data.  \<open>ParseSocketControlMessage\<close> reads little-endian headers of sixteen bytes, with
  messages aligned to eight.\<close>

definition cmsgAlign :: "nat \<Rightarrow> nat" where
  "cmsgAlign n = (n + 7) div 8 * 8"

function control_messages :: "byte list \<Rightarrow> (nat \<times> nat \<times> byte list) list option" where
  "control_messages b =
     (if length b < 16 then Some []
      else
        let len = le_val (take 8 b)
        in if len < 16 \<or> len > length b then None
           else map_option ((#) (le_val (take 4 (drop 8 b)), le_val (take 4 (drop 12 b)), take (len - 16) (drop 16 b)))
                  (control_messages (drop (cmsgAlign len) b)))"
  by pat_completeness auto
termination
proof (relation "measure length")
  fix b :: "byte list" and len :: nat
  assume b: "\<not> length b < 16" "\<not> (len < 16 \<or> len > length b)"
  have "16 \<le> cmsgAlign len"
  proof -
    have "2 \<le> (len + 7) div 8"
      using b(2) by (simp add: less_eq_div_iff_mult_less_eq)
    then show ?thesis
      unfolding cmsgAlign_def by simp
  qed
  with b(1) show "(drop (cmsgAlign len) b, b) \<in> measure length"
    by simp
qed simp

declare control_messages.simps [simp del]

fun first_dst :: "(nat \<times> nat \<times> byte list) list \<Rightarrow> netIP" where
  "first_dst [] = []"
| "first_dst ((level, ty, data) # msgs) =
     (if level = 0 \<and> ty = 20 \<and> length data \<ge> 8 then IPv4 (data ! 4) (data ! 5) (data ! 6) (data ! 7)
      else if level = 41 \<and> ty = 74 \<and> length data \<ge> 24 then take 16 (drop 8 data)
      else first_dst msgs)"

definition extractOrigDstIP :: "byte list \<Rightarrow> netIP" where
  "extractOrigDstIP oob = (case control_messages oob of None \<Rightarrow> [] | Some msgs \<Rightarrow> first_dst msgs)"

definition defaultTargetIP :: netIP where
  "defaultTargetIP = IPv4 1 1 1 2"

definition dns_target :: "byte list \<Rightarrow> netIP option \<Rightarrow> netIP" where
  "dns_target oob clientIP =
     (let origIP = extractOrigDstIP oob;
          targetIP = (if oob \<noteq> [] \<and> origIP \<noteq> [] \<and> \<not> IsLoopback origIP \<and> \<not> IsUnspecified origIP \<and> \<not> IsPrivate origIP
                      then origIP else defaultTargetIP)
      in case clientIP of
           Some ip \<Rightarrow> if To4 ip = None \<and> length ip = 16 \<and> IP_Equal targetIP defaultTargetIP
                      then (case ParseIP ''2606:4700:4700::1112'' of Some v6 \<Rightarrow> v6 | None \<Rightarrow> []) else targetIP
         | None \<Rightarrow> targetIP)"

text \<open>The exchange with the server over a marked socket is the parameter \<open>udp_query\<close>: \<open>None\<close> an error.\<close>

definition forwardUDPQuery :: "(string \<Rightarrow> byte list \<Rightarrow> byte list option) \<Rightarrow> netIP \<Rightarrow> nat \<Rightarrow> byte list \<Rightarrow> byte list" where
  "forwardUDPQuery udp_query dstIP port data =
     (let dstIP = (if dstIP = [] \<or> IsLoopback dstIP \<or> IsUnspecified dstIP then IPv4 1 1 1 2 else dstIP)
      in case udp_query (JoinHostPort (IP_String dstIP) (Itoa port)) data of None \<Rightarrow> [] | Some resp \<Rightarrow> resp)"

text \<open>One datagram: what is sent back to the client, if anything.  A panic of the DNS engine is the outer \<open>None\<close>.\<close>

definition dns_datagram ::
  "(string \<Rightarrow> byte list \<Rightarrow> byte list option) \<Rightarrow> byte list \<Rightarrow> netIP option \<Rightarrow> byte list \<Rightarrow> lin_redirector \<Rightarrow> byte list option option" where
  "dns_datagram udp_query oob clientIP query r =
     (let tIP = dns_target oob clientIP
      in case lr_dnsEng r of
           None \<Rightarrow> Some None
         | Some eng \<Rightarrow>
             do {
               (resp, passthrough) \<leftarrow> eng tIP query;
               let respData = (if passthrough then forwardUDPQuery udp_query tIP 53 query else (case resp of Some d \<Rightarrow> d | None \<Rightarrow> []));
               Some (if length respData > 0 then Some respData else None)
             })"

text \<open>
  The loop of a listener over what it meets: the context is cancelled, the read fails while the redirector is open or closed, or
  a datagram arrives with its control data and its client.  For each datagram a goroutine is started with the client, the
  server to ask and a copy of the query; the last component tells whether the loop has returned.
\<close>

datatype udp_event = UdpCancelled | ReadError bool | Datagram "byte list" "netIP option" "byte list"

fun dnsListenerLoop :: "udp_event list \<Rightarrow> (netIP option \<times> netIP \<times> byte list) list \<times> bool" where
  "dnsListenerLoop [] = ([], False)"
| "dnsListenerLoop (UdpCancelled # es) = ([], True)"
| "dnsListenerLoop (ReadError isClosed # es) = (if isClosed then ([], True) else dnsListenerLoop es)"
| "dnsListenerLoop (Datagram oob clientIP query # es) =
     (case dnsListenerLoop es of (jobs, stopped) \<Rightarrow> ((clientIP, dns_target oob clientIP, query) # jobs, stopped))"

text \<open>Until it is stopped it starts a goroutine for every datagram, in order, with the datagram's own client.\<close>

lemma dnsListenerLoop_serves:
  assumes "UdpCancelled \<notin> set es" "ReadError True \<notin> set es"
  shows "dnsListenerLoop es = (List.map_filter (\<lambda>e. case e of Datagram oob c q \<Rightarrow> Some (c, dns_target oob c, q) | _ \<Rightarrow> None) es, False)"
  using assms by (induction es rule: dnsListenerLoop.induct) (auto simp: List.map_filter_simps)

lemma dnsListenerLoop_stops:
  assumes "UdpCancelled \<notin> set es" "ReadError True \<notin> set es" "e \<in> {UdpCancelled, ReadError True}"
  shows "dnsListenerLoop (es @ e # later) = (fst (dnsListenerLoop es), True)"
  using assms by (induction es rule: dnsListenerLoop.induct) (auto split: prod.split)

section \<open>Starting and closing restore the firewall\<close>

definition fresh :: "lin_redirector \<Rightarrow> bool" where
  "fresh r \<longleftrightarrow> \<not> lr_closed r \<and> \<not> lr_rulesApplied r \<and> lr_dnsUDPConn r = None \<and> lr_dnsUDPConn2 r = None"

lemma listen_conns:
  assumes "lin_listen udp r = (r', acts, err)" "fresh r" "ListenUDP p \<in> set acts"
  shows "CloseUDP p \<in> set (close_conns r')"
  using assms by (auto simp: lin_listen_def fresh_def close_conns_def Let_def split: if_splits)

lemma listen_fields:
  "lin_listen udp r = (r', acts, err) \<Longrightarrow> lr_closed r' = lr_closed r \<and> lr_rulesApplied r' = lr_rulesApplied r"
  by (auto simp: lin_listen_def Let_def split: if_splits)

lemma close_conns_fields [simp]: "close_conns (r\<lparr>lr_closed := a\<rparr>) = close_conns r" "close_conns (r\<lparr>lr_rulesApplied := a\<rparr>) = close_conns r"
  by (simp_all add: close_conns_def)


section \<open>A redirected connection\<close>

text \<open>The answer of the kernel for a connection to \<open>d:dp\<close> over IPv4, a \<open>sockaddr_in\<close>.\<close>

definition sockaddr_in :: "byte list \<Rightarrow> uint16 \<Rightarrow> byte list" where
  "sockaddr_in d dp = [2, 0, hi8 dp, lo8 dp] @ d @ replicate 8 0"

lemma orig_dst_v4:
  assumes "so_control c" "so_v4 c = Some (sockaddr_in d dp)" "length d = 4" "dp \<noteq> 0"
  shows "orig_dst c = (v4InV6Prefix @ d, dp, True)"
  using assms by (rule_tac length_4E [OF assms(3)]) (simp add: orig_dst_def sockaddr_in_def IPv4_def)


section \<open>Where an intercepted query was going\<close>

text \<open>Control messages as the kernel lays them out.\<close>

definition cmsg :: "nat \<times> nat \<times> byte list \<Rightarrow> byte list" where
  "cmsg m = (case m of (level, ty, data) \<Rightarrow>
     le_bytes 8 (16 + length data) @ le_bytes 4 level @ le_bytes 4 ty @ data
       @ replicate (cmsgAlign (16 + length data) - (16 + length data)) 0)"

lemma cmsgAlign_ge: "n \<le> cmsgAlign n"
  unfolding cmsgAlign_def by presburger

lemma control_messages_cmsg:
  assumes "level < 2 ^ 32" "ty < 2 ^ 32" "length data + 16 < 2 ^ 64"
  shows "control_messages (cmsg (level, ty, data) @ rest) = map_option ((#) (level, ty, data)) (control_messages rest)"
proof -
  let ?n = "16 + length data"
  have "?n < 256 ^ 8" "level < 256 ^ 4" "ty < 256 ^ 4"
    using assms by simp_all
  then have v: "le_val (le_bytes 8 ?n) = ?n" "le_val (le_bytes 4 level) = level" "le_val (le_bytes 4 ty) = ty"
    using le_val_le_bytes by blast+
  have "length (cmsg (level, ty, data)) = cmsgAlign ?n"
    using cmsgAlign_ge [of ?n] by (simp add: cmsg_def)
  then have "drop (cmsgAlign ?n) (cmsg (level, ty, data) @ rest) = rest"
    by simp
  then show ?thesis
    using v by (subst control_messages.simps) (simp add: cmsg_def Let_def)
qed

text \<open>
  Control messages are read back.  A buffer of any messages, laid out by the kernel with their lengths and padding, is
  taken apart into just these messages; the loop ends on every buffer, also on a malformed one.
\<close>

theorem control_messages_roundtrip:
  assumes "\<forall>(level, ty, data) \<in> set msgs. level < 2 ^ 32 \<and> ty < 2 ^ 32 \<and> length data + 16 < 2 ^ 64"
  shows "control_messages (concat (map cmsg msgs)) = Some msgs"
  using assms by (induction msgs) (auto simp: control_messages_cmsg control_messages.simps [of "[]"])

theorem control_messages_roundtrip_witness:
  "control_messages (concat (map cmsg [(1, 2, [7]), (0, 20, sockaddr_in [9, 9, 9, 9] 53)])) = Some [(1, 2, [7]), (0, 20, sockaddr_in [9, 9, 9, 9] 53)]"
  by (rule control_messages_roundtrip) (simp add: sockaddr_in_def)

lemma length_sockaddr_in [simp]: "length (sockaddr_in d dp) = 12 + length d"
  by (simp add: sockaddr_in_def)

lemma extract_v4:
  assumes "length d = 4" "control_messages rest \<noteq> None"
  shows "extractOrigDstIP (cmsg (0, 20, sockaddr_in d dp) @ rest) = v4InV6Prefix @ d"
proof -
  have "sockaddr_in d dp ! 4 = d ! 0" "sockaddr_in d dp ! 5 = d ! 1" "sockaddr_in d dp ! 6 = d ! 2" "sockaddr_in d dp ! 7 = d ! 3"
    using assms(1) by (auto simp: sockaddr_in_def nth_append)
  moreover have "d = [d ! 0, d ! 1, d ! 2, d ! 3]"
    using assms(1) by (rule_tac length_4E [OF assms(1)]) simp
  ultimately show ?thesis
    using assms control_messages_cmsg [of 0 20 "sockaddr_in d dp" rest] by (auto simp: extractOrigDstIP_def IPv4_def)
qed

text \<open>
  An intercepted query goes to the server it was meant for, if that is a public one.  For a client over IPv4 whose datagram
  carries the original destination \<open>d\<close> in its first control message, the DNS engine is asked with \<open>d\<close>, or with the default
  server 1.1.1.2 if \<open>d\<close> is a loopback, unspecified or private address.
\<close>

theorem linux_dns_target:
  assumes "length d = 4" "control_messages rest \<noteq> None" "To4 clientIP = Some a"
  shows "dns_target (cmsg (0, 20, sockaddr_in d dp) @ rest) (Some clientIP) =
    (let ip = v4InV6Prefix @ d in if IsLoopback ip \<or> IsUnspecified ip \<or> IsPrivate ip then IPv4 1 1 1 2 else ip)"
proof -
  have "cmsg (0, 20, sockaddr_in d dp) @ rest \<noteq> []"
    by (simp add: cmsg_def le_bytes_def)
  moreover have "v4InV6Prefix @ d \<noteq> []"
    by (simp add: v4InV6Prefix_def)
  ultimately show ?thesis
    using assms(3) extract_v4 [OF assms(1,2), of dp] by (simp add: dns_target_def defaultTargetIP_def Let_def)
qed

theorem linux_dns_target_witness:
  "dns_target (cmsg (0, 20, sockaddr_in [9, 9, 9, 9] 53) @ []) (Some [10, 0, 0, 5]) =
    (let ip = v4InV6Prefix @ [9, 9, 9, 9] in if IsLoopback ip \<or> IsUnspecified ip \<or> IsPrivate ip then IPv4 1 1 1 2 else ip)"
  by (rule linux_dns_target [where a = "[10, 0, 0, 5]"]) (simp_all add: control_messages.simps [of "[]"] To4_def)

section \<open>Samples\<close>

definition sample_lin :: lin_redirector where
  "sample_lin = \<lparr>lr_localProxyPort = 18080, lr_localDNSUDPPort = 18180, lr_filterStr = '''', lr_dryRun = False, lr_filterEng = None,
     lr_routingEng = None, lr_dnsEng = Some (\<lambda>_ _. Some (None, True)), lr_dnsServers = [], lr_dnsUDPConn = None, lr_dnsUDPConn2 = None,
     lr_uid = 0, lr_rulesApplied = False, lr_filterUDP = False, lr_closed = False\<rparr>"

lemma sample_lin_fresh: "fresh sample_lin"
  by (simp add: fresh_def sample_lin_def)

definition sample_started :: "(lin_redirector \<times> (string \<Rightarrow> tables)) \<times> lin_act list \<times> string option" where
  "sample_started = lin_Start plain_unicode table_programs (\<lambda>_. True) (sample_lin, empty_tables)"

definition sample_closed :: "(lin_redirector \<times> (string \<Rightarrow> tables)) \<times> lin_act list" where
  "sample_closed = lin_Close plain_unicode table_programs (fst sample_started)"


definition linux_server :: "(unit, net_addr \<Rightarrow> sock) server" where
  "linux_server = \<lparr>sv_unicode = plain_unicode, sv_urls = sample_urls,
     sv_backend = \<lparr>pb_create = (\<lambda>_. Inl ''''), pb_get = (\<lambda>_ _ s. (s, True, '''', None)), pb_close = id, pb_detect = None\<rparr>, sv_isWindows = False,
     sv_sspi = no_sspi, sv_outside = open_network, sv_config = DefaultConfig, sv_filter = \<lparr>fe_rules = None\<rparr>,
     sv_redirector = Some linux_intercept, sv_ifaces = Some []\<rparr>"

definition linux_state :: "(unit, net_addr \<Rightarrow> sock) srv_state" where
  "linux_state = \<lparr>ss_table = (\<lambda>_. \<lparr>so_control = True, so_v4 = Some (sockaddr_in [93, 184, 216, 34] 22), so_v6 = None\<rparr>), ss_resolver = no_proxy,
     ss_cache = \<lparr>localIPsCache = [], localSubnetsCache = [], lastCacheUpdate = 0\<rparr>\<rparr>"


end
