(* ===== verification/PortGuard.thy ===== *)
theory PortGuard
  imports AddrText LittleEndian ConfigManager "HOL-Library.AList"
begin

text \<open>
  Who uses the reserved ports: the scan of the Windows TCP tables, \<open>internal/interceptor/port_scanner_windows.go\<close>, the scan of
  \<open>/proc\<close>, \<open>internal/interceptor/port_scanner_linux.go\<close>, and the guard that reserves the range and reports other users,
  \<open>internal/interceptor/port_guard.go\<close>.  System calls are parameters: they deliver tables, paths and the contents of files.
\<close>

section \<open>Reports\<close>

record ConflictingPortInfo =
  ci_LocalPort :: uint16
  ci_RemotePort :: uint16
  ci_LocalIP :: netIP
  ci_RemoteIP :: netIP
  ci_State :: string
  ci_PID :: nat
  ci_ProcessName :: string
  ci_ProcessPath :: string

definition ci_IsLoopback :: "ConflictingPortInfo \<Rightarrow> bool" where
  "ci_IsLoopback c = (if ci_LocalIP c = [] then False else IsLoopback (ci_LocalIP c))"

section \<open>Windows TCP tables\<close>

definition tcpStateNames :: "nat \<Rightarrow> string option" where
  "tcpStateNames = map_of [(1, ''CLOSED''), (2, ''LISTEN''), (3, ''SYN_SENT''), (4, ''SYN_RCVD''), (5, ''ESTABLISHED''), (6, ''FIN_WAIT1''),
     (7, ''FIN_WAIT2''), (8, ''CLOSE_WAIT''), (9, ''CLOSING''), (10, ''LAST_ACK''), (11, ''TIME_WAIT''), (12, ''DELETE_TCB'')]"

definition state_name :: "nat \<Rightarrow> string" where
  "state_name st = (case tcpStateNames st of Some n \<Rightarrow> n | None \<Rightarrow> ''STATE_'' @ Itoa st)"

text \<open>\<open>GetExtendedTcpTable\<close> for one family, by attempt: the size query, and the call that fills a buffer of that size.\<close>

record tcp_table =
  tt_size :: "nat \<Rightarrow> nat \<times> nat"
  tt_fill :: "nat \<Rightarrow> nat \<Rightarrow> nat \<times> byte list"

definition ERROR_INSUFFICIENT_BUFFER :: nat where
  "ERROR_INSUFFICIENT_BUFFER = 122"

text \<open>The loop of three attempts: an error, or buffer and number of entries; \<open>None\<close> is the panic of \<open>&buf[0]\<close> on an empty buffer.\<close>

fun fetch_table :: "tcp_table \<Rightarrow> nat \<Rightarrow> nat \<Rightarrow> byte list \<Rightarrow> (string + byte list \<times> nat) option" where
  "fetch_table T 0 attempt buf = Some (Inr (buf, 0))"
| "fetch_table T (Suc n) attempt buf =
     (case tt_size T attempt of (r, bufSize) \<Rightarrow>
        if r \<noteq> 0 \<and> r \<noteq> ERROR_INSUFFICIENT_BUFFER then Some (Inl (''GetExtendedTcpTable size query failed: '' @ Itoa r))
        else if bufSize = 0 then None
        else case tt_fill T attempt bufSize of (r, buf) \<Rightarrow>
          if r = 0 then Some (Inr (buf, if length buf \<ge> 4 then le_val (take 4 buf) else 0))
          else if r \<noteq> ERROR_INSUFFICIENT_BUFFER then Some (Inl (''GetExtendedTcpTable failed: '' @ Itoa r))
          else fetch_table T n (attempt + 1) buf)"

fun table_rows :: "nat \<Rightarrow> nat \<Rightarrow> byte list \<Rightarrow> byte list list" where
  "table_rows 0 rowSize b = []"
| "table_rows (Suc n) rowSize b = (if rowSize > length b then [] else take rowSize b # table_rows n rowSize (drop rowSize b))"

text \<open>Fields of a row: the structures are laid out without gaps.\<close>

definition row_num :: "byte list \<Rightarrow> nat \<Rightarrow> nat" where
  "row_num row off = le_val (take 4 (drop off row))"

definition row_port :: "byte list \<Rightarrow> nat \<Rightarrow> uint16" where
  "row_port row off = be16 (row ! off) (row ! (off + 1))"

text \<open>\<open>filepath.Base\<close> on Windows.\<close>

definition win_Base :: "string \<Rightarrow> string" where
  "win_Base path =
     (let sep = (\<lambda>c. c = CHR 0x5C \<or> c = CHR ''/'');
          p = rev (dropWhile sep (rev path));
          p = (if length p \<ge> 2 \<and> p ! 1 = CHR '':'' then drop 2 p else p);
          p = rev (takeWhile (\<lambda>c. \<not> sep c) (rev p))
      in if path = '''' then ''.'' else if p = '''' then [CHR 0x5C] else p)"

text \<open>Image path of a process and its name in a snapshot, each empty on failure.\<close>

record processes =
  pr_path :: "nat \<Rightarrow> string"
  pr_snapshot :: "nat \<Rightarrow> string"

definition resolveProcessInfo :: "processes \<Rightarrow> nat \<Rightarrow> string \<times> string" where
  "resolveProcessInfo P pid =
     (if pid = 0 then (''System (TIME_WAIT)'', '''')
      else if pid = 4 then (''System'', ''ntoskrnl.exe'')
      else if pr_path P pid \<noteq> '''' then (win_Base (pr_path P pid), pr_path P pid)
      else if pr_snapshot P pid \<noteq> '''' then (pr_snapshot P pid, '''')
      else (''Process (PID '' @ Itoa pid @ '')'', ''''))"

definition v4_row :: "processes \<Rightarrow> byte list \<Rightarrow> ConflictingPortInfo" where
  "v4_row P row =
     (let (name, path) = resolveProcessInfo P (row_num row 20)
      in \<lparr>ci_LocalPort = row_port row 8, ci_RemotePort = row_port row 16, ci_LocalIP = take 4 (drop 4 row),
          ci_RemoteIP = take 4 (drop 12 row), ci_State = state_name (row_num row 0), ci_PID = row_num row 20,
          ci_ProcessName = name, ci_ProcessPath = path\<rparr>)"

definition v6_row :: "processes \<Rightarrow> byte list \<Rightarrow> ConflictingPortInfo" where
  "v6_row P row =
     (let (name, path) = resolveProcessInfo P (row_num row 52)
      in \<lparr>ci_LocalPort = row_port row 20, ci_RemotePort = row_port row 44, ci_LocalIP = take 16 row,
          ci_RemoteIP = take 16 (drop 24 row), ci_State = state_name (row_num row 48), ci_PID = row_num row 52,
          ci_ProcessName = name, ci_ProcessPath = path\<rparr>)"

definition scan_table ::
  "nat \<Rightarrow> (byte list \<Rightarrow> ConflictingPortInfo) \<Rightarrow> tcp_table \<Rightarrow> uint16 \<Rightarrow> uint16 \<Rightarrow> nat \<Rightarrow> (string + ConflictingPortInfo list) option" where
  "scan_table rowSize decode T portMin portMax selfPID =
     do {
       res \<leftarrow> fetch_table T 3 0 [];
       Some (case res of
         Inl err \<Rightarrow> Inl err
       | Inr (buf, numEntries) \<Rightarrow>
           if length buf < 4 then Inr []
           else Inr (filter (\<lambda>c. portMin \<le> ci_LocalPort c \<and> ci_LocalPort c \<le> portMax \<and> ci_PID c \<noteq> selfPID \<and> ci_PID c \<noteq> 0)
                  (map decode (table_rows numEntries rowSize (drop 4 buf)))))
     }"

definition scanIPv4Table :: "processes \<Rightarrow> tcp_table \<Rightarrow> uint16 \<Rightarrow> uint16 \<Rightarrow> nat \<Rightarrow> (string + ConflictingPortInfo list) option" where
  "scanIPv4Table P T portMin portMax selfPID = scan_table 24 (v4_row P) T portMin portMax selfPID"

definition scanIPv6Table :: "processes \<Rightarrow> tcp_table \<Rightarrow> uint16 \<Rightarrow> uint16 \<Rightarrow> nat \<Rightarrow> (string + ConflictingPortInfo list) option" where
  "scanIPv6Table P T portMin portMax selfPID = scan_table 56 (v6_row P) T portMin portMax selfPID"

definition win_ScanReservedPortUsage ::
  "processes \<Rightarrow> tcp_table \<Rightarrow> tcp_table \<Rightarrow> nat \<Rightarrow> uint16 \<Rightarrow> uint16 \<Rightarrow> (string + ConflictingPortInfo list) option" where
  "win_ScanReservedPortUsage P T4 T6 selfPID portMin portMax =
     do {
       r4 \<leftarrow> scanIPv4Table P T4 portMin portMax selfPID;
       r6 \<leftarrow> scanIPv6Table P T6 portMin portMax selfPID;
       Some (case (r4, r6) of
         (Inl e4, Inl e6) \<Rightarrow> Inl (''failed to scan TCP tables (v4: '' @ e4 @ '', v6: '' @ e6 @ '')'')
       | _ \<Rightarrow> Inr ((case r4 of Inr l \<Rightarrow> l | Inl _ \<Rightarrow> []) @ (case r6 of Inr l \<Rightarrow> l | Inl _ \<Rightarrow> [])))
     }"

definition FindProcessUsingPort ::
  "(uint16 \<Rightarrow> uint16 \<Rightarrow> (string + ConflictingPortInfo list) option) \<Rightarrow> uint16 \<Rightarrow> (string + ConflictingPortInfo option) option" where
  "FindProcessUsingPort scan port =
     map_option (\<lambda>r. case r of Inl err \<Rightarrow> Inl err | Inr [] \<Rightarrow> Inr None | Inr (c # _) \<Rightarrow> Inr (Some c)) (scan port port)"

section \<open>Linux sockets\<close>

text \<open>\<open>strconv.ParseUint(s, 16, 16)\<close>.\<close>

definition parse_hex16 :: "string \<Rightarrow> uint16 option" where
  "parse_hex16 s =
     (case hex_prefix 0 0 s of (n, v, rest) \<Rightarrow> if n = 0 \<or> rest \<noteq> [] \<or> v > 65535 then None else Some (of_nat v))"

text \<open>One line of \<open>/proc/net/tcp\<close>; Go's map is an association list.\<close>

definition proc_net_line :: "unicode \<Rightarrow> uint16 \<Rightarrow> uint16 \<Rightarrow> string \<Rightarrow> (string \<times> uint16) list \<Rightarrow> (string \<times> uint16) list" where
  "proc_net_line U portMin portMax line result =
     (let fields = Fields U line
      in if length fields < 10 then result
         else let parts = Split (fields ! 1) CHR '':''
              in if length parts \<noteq> 2 then result
                 else case parse_hex16 (parts ! 1) of
                   None \<Rightarrow> result
                 | Some port \<Rightarrow>
                     if port \<ge> portMin \<and> port \<le> portMax \<and> fields ! 9 \<noteq> ''0'' \<and> fields ! 9 \<noteq> ''''
                     then AList.update (fields ! 9) port result else result)"

definition scanProcNetFile :: "unicode \<Rightarrow> uint16 \<Rightarrow> uint16 \<Rightarrow> string option \<Rightarrow> (string \<times> uint16) list \<Rightarrow> (string \<times> uint16) list" where
  "scanProcNetFile U portMin portMax file result =
     (case file of None \<Rightarrow> result | Some contents \<Rightarrow> fold (proc_net_line U portMin portMax) (Split contents CHR 0x0A) result)"

text \<open>The two files, each \<open>None\<close> where it cannot be opened.\<close>

definition scanSocketInodesInRange :: "unicode \<Rightarrow> uint16 \<Rightarrow> uint16 \<Rightarrow> string option list \<Rightarrow> (string \<times> uint16) list" where
  "scanSocketInodesInRange U portMin portMax files = fold (scanProcNetFile U portMin portMax) files []"

record procDetails =
  pd_pid :: nat
  pd_procName :: string
  pd_exePath :: string

text \<open>A directory of \<open>/proc\<close>: its name, the targets of the links in \<open>fd\<close> where that can be read, command line and executable.\<close>

record proc_dir =
  dir_Name :: string
  dir_fds :: "string option list option"
  dir_cmdline :: string
  dir_exe :: string

definition unix_Base :: "string \<Rightarrow> string" where
  "unix_Base path =
     (let p = rev (dropWhile (\<lambda>c. c = CHR ''/'') (rev path)); p = rev (takeWhile (\<lambda>c. c \<noteq> CHR ''/'') (rev p))
      in if path = '''' then ''.'' else if p = '''' then ''/'' else p)"

definition proc_link :: "(string \<times> uint16) list \<Rightarrow> proc_dir \<Rightarrow> nat \<Rightarrow> string option \<Rightarrow> (string \<times> procDetails) list \<Rightarrow> (string \<times> procDetails) list" where
  "proc_link targets d pid dest resolved =
     (case dest of
        None \<Rightarrow> resolved
      | Some dest \<Rightarrow>
          if HasPrefix dest ''socket:['' \<and> HasSuffix dest '']'' then
            let inode = take (length dest - 1 - 8) (drop 8 dest)
            in if map_of targets inode \<noteq> None then
                 let cmdline = map (\<lambda>c. if c = CHR 0x00 then CHR '' '' else c) (dir_cmdline d);
                     procName = unix_Base (dir_exe d);
                     procName = (if procName = '''' \<or> procName = ''.'' then cmdline else procName)
                 in AList.update inode \<lparr>pd_pid = pid mod 2 ^ 32, pd_procName = procName, pd_exePath = dir_exe d\<rparr> resolved
               else resolved
          else resolved)"

definition resolveProcessesForInodes :: "proc_dir list option \<Rightarrow> (string \<times> uint16) list \<Rightarrow> (string \<times> procDetails) list" where
  "resolveProcessesForInodes dirs targets =
     (if targets = [] then []
      else case dirs of
        None \<Rightarrow> []
      | Some ds \<Rightarrow>
          fold (\<lambda>d resolved.
            case Atoi (dir_Name d) of
              None \<Rightarrow> resolved
            | Some pidInt \<Rightarrow>
                if pidInt \<le> 0 then resolved
                else case dir_fds d of None \<Rightarrow> resolved | Some fds \<Rightarrow> fold (proc_link targets d (nat pidInt)) fds resolved) ds [])"

definition lin_ScanReservedPortUsage ::
  "unicode \<Rightarrow> string option list \<Rightarrow> proc_dir list option \<Rightarrow> uint16 \<Rightarrow> uint16 \<Rightarrow> ConflictingPortInfo list" where
  "lin_ScanReservedPortUsage U files dirs portMin portMax =
     (let inodeToPort = scanSocketInodesInRange U portMin portMax files;
          inodeToProc = resolveProcessesForInodes dirs inodeToPort
      in map (\<lambda>(inode, port).
           let (pid, name, path) = (case map_of inodeToProc inode of
                 Some p \<Rightarrow> (pd_pid p, pd_procName p, pd_exePath p) | None \<Rightarrow> (0, ''Unknown'', ''''))
           in \<lparr>ci_LocalPort = port, ci_RemotePort = 0, ci_LocalIP = [], ci_RemoteIP = [], ci_State = ''LISTEN'', ci_PID = pid,
               ci_ProcessName = name, ci_ProcessPath = path\<rparr>) inodeToPort)"

definition lin_FindProcessUsingPort ::
  "(uint16 \<Rightarrow> uint16 \<Rightarrow> ConflictingPortInfo list) \<Rightarrow> uint16 \<Rightarrow> ConflictingPortInfo option" where
  "lin_FindProcessUsingPort scan port = (case scan port port of [] \<Rightarrow> None | c # _ \<Rightarrow> Some c)"

section \<open>The guard\<close>

record PortGuard =
  pg_portMin :: uint16
  pg_portMax :: uint16
  pg_osReserved :: bool
  pg_reported :: "string \<Rightarrow> int option"
  pg_running :: bool
  pg_cancel :: bool

definition NewPortGuard :: "uint16 \<Rightarrow> uint16 \<Rightarrow> PortGuard" where
  "NewPortGuard portMin portMax = \<lparr>pg_portMin = portMin, pg_portMax = portMax, pg_osReserved = False, pg_reported = (\<lambda>_. None),
     pg_running = False, pg_cancel = False\<rparr>"

definition numPorts :: "PortGuard \<Rightarrow> nat" where
  "numPorts pg = unat (pg_portMax pg - pg_portMin pg + 1)"

definition netsh :: "string \<Rightarrow> string \<Rightarrow> PortGuard \<Rightarrow> string list" where
  "netsh family op pg = [''netsh'', ''int'', family, op, ''excludedportrange'', ''protocol=tcp'', ''startport='' @ Itoa (unat (pg_portMin pg)),
     ''numberofports='' @ Itoa (numPorts pg), ''store=active'']"

text \<open>\<open>run\<close> tells whether a command succeeds; the commands run are returned.\<close>

definition ReserveOSPortRange :: "(string list \<Rightarrow> bool) \<Rightarrow> PortGuard \<Rightarrow> PortGuard \<times> string list list" where
  "ReserveOSPortRange run pg =
     (let cmd4 = netsh ''ipv4'' ''add'' pg; cmd6 = netsh ''ipv6'' ''add'' pg
      in (pg\<lparr>pg_osReserved := (run cmd4 \<or> run cmd6)\<rparr>, [cmd4, cmd6]))"

definition ReleaseOSPortRange :: "PortGuard \<Rightarrow> PortGuard \<times> string list list" where
  "ReleaseOSPortRange pg =
     (if \<not> pg_osReserved pg then (pg, [])
      else (pg\<lparr>pg_osReserved := False\<rparr>, [netsh ''ipv4'' ''delete'' pg, netsh ''ipv6'' ''delete'' pg]))"

definition conflict_key :: "ConflictingPortInfo \<Rightarrow> string" where
  "conflict_key c = Itoa (ci_PID c) @ '':'' @ Itoa (unat (ci_LocalPort c)) @ '':'' @ ci_State c"

text \<open>The loop over the conflicts: the times of the last reports, and the conflicts reported now.\<close>

fun report :: "int \<Rightarrow> ConflictingPortInfo list \<Rightarrow> (string \<Rightarrow> int option) \<Rightarrow> (string \<Rightarrow> int option) \<times> ConflictingPortInfo list" where
  "report now [] m = (m, [])"
| "report now (c # cs) m =
     (let key = conflict_key c
      in case m key of
           Some lastAlert \<Rightarrow>
             if now - lastAlert < 300 * second then report now cs m
             else (case report now cs (m(key \<mapsto> now)) of (m, rs) \<Rightarrow> (m, c # rs))
         | None \<Rightarrow> (case report now cs (m(key \<mapsto> now)) of (m, rs) \<Rightarrow> (m, c # rs)))"

definition purge :: "int \<Rightarrow> (string \<Rightarrow> int option) \<Rightarrow> (string \<Rightarrow> int option)" where
  "purge now m = (\<lambda>k. case m k of Some t \<Rightarrow> if now - t > 3600 * second then None else Some t | None \<Rightarrow> None)"

text \<open>\<open>ScanAndAlert\<close> on the result of a scan: the new state, the reports, and the number of alerts.\<close>

definition ScanAndAlert :: "int \<Rightarrow> string + ConflictingPortInfo list \<Rightarrow> PortGuard \<Rightarrow> PortGuard \<times> ConflictingPortInfo list \<times> nat" where
  "ScanAndAlert now scan pg =
     (case scan of
        Inl err \<Rightarrow> (pg, [], 0)
      | Inr conflicts \<Rightarrow>
          if conflicts = [] then (pg, [], 0)
          else case report now conflicts (purge now (pg_reported pg)) of (m, reports) \<Rightarrow>
            (pg\<lparr>pg_reported := m\<rparr>, reports, length (filter (\<lambda>c. \<not> ci_IsLoopback c) reports)))"

text \<open>\<open>Start\<close> up to the goroutine, and \<open>Stop\<close>; the commands run are returned.\<close>

definition pg_Start :: "(string list \<Rightarrow> bool) \<Rightarrow> int \<Rightarrow> string + ConflictingPortInfo list \<Rightarrow> PortGuard \<Rightarrow> PortGuard \<times> string list list" where
  "pg_Start run now scan pg =
     (if pg_running pg then (pg, [])
      else
        let (pg, cmds) = ReserveOSPortRange run (pg\<lparr>pg_running := True, pg_cancel := True\<rparr>)
        in (fst (ScanAndAlert now scan pg), cmds))"

definition pg_Stop :: "PortGuard \<Rightarrow> PortGuard \<times> string list list" where
  "pg_Stop pg = ReleaseOSPortRange (pg\<lparr>pg_cancel := False, pg_running := False\<rparr>)"

section \<open>The scan is exact\<close>

text \<open>A row of the IPv4 table as the system lays it out.\<close>

record row4 =
  r4_state :: nat
  r4_localIP :: "byte list"
  r4_localPort :: uint16
  r4_remoteIP :: "byte list"
  r4_remotePort :: uint16
  r4_pid :: nat

definition row4_ok :: "row4 \<Rightarrow> bool" where
  "row4_ok r \<longleftrightarrow> r4_state r < 2 ^ 32 \<and> r4_pid r < 2 ^ 32 \<and> length (r4_localIP r) = 4 \<and> length (r4_remoteIP r) = 4"

definition row4_bytes :: "row4 \<Rightarrow> byte list" where
  "row4_bytes r = le_bytes 4 (r4_state r) @ r4_localIP r @ [hi8 (r4_localPort r), lo8 (r4_localPort r), 0, 0]
     @ r4_remoteIP r @ [hi8 (r4_remotePort r), lo8 (r4_remotePort r), 0, 0] @ le_bytes 4 (r4_pid r)"

definition row4_info :: "processes \<Rightarrow> row4 \<Rightarrow> ConflictingPortInfo" where
  "row4_info P r = \<lparr>ci_LocalPort = r4_localPort r, ci_RemotePort = r4_remotePort r, ci_LocalIP = r4_localIP r,
     ci_RemoteIP = r4_remoteIP r, ci_State = state_name (r4_state r), ci_PID = r4_pid r,
     ci_ProcessName = fst (resolveProcessInfo P (r4_pid r)), ci_ProcessPath = snd (resolveProcessInfo P (r4_pid r))\<rparr>"

lemma row4_info_fields: "ci_LocalPort (row4_info P r) = r4_localPort r" "ci_PID (row4_info P r) = r4_pid r"
  by (simp_all add: row4_info_def)

lemma length_row4_bytes: "row4_ok r \<Longrightarrow> length (row4_bytes r) = 24"
  by (simp add: row4_ok_def row4_bytes_def)

lemma v4_row_bytes:
  assumes "row4_ok r"
  shows "v4_row P (row4_bytes r) = row4_info P r"
proof -
  have "r4_state r < 256 ^ 4" "r4_pid r < 256 ^ 4"
    using assms by (simp_all add: row4_ok_def)
  then have n: "row_num (row4_bytes r) 0 = r4_state r" "row_num (row4_bytes r) 20 = r4_pid r"
    using assms by (simp_all add: row_num_def row4_bytes_def row4_ok_def le_val_le_bytes)
  have "row_port (row4_bytes r) 8 = r4_localPort r" "row_port (row4_bytes r) 16 = r4_remotePort r"
    "take 4 (drop 4 (row4_bytes r)) = r4_localIP r" "take 4 (drop 12 (row4_bytes r)) = r4_remoteIP r"
    using assms by (simp_all add: row_port_def row4_bytes_def row4_ok_def nth_append)
  with n show ?thesis
    by (simp add: v4_row_def row4_info_def Let_def split: prod.split)
qed

lemma table_rows_concat:
  assumes "\<forall>r \<in> set rs. row4_ok r"
  shows "table_rows (length rs) 24 (concat (map row4_bytes rs) @ slack) = map row4_bytes rs"
  using assms by (induction rs) (simp_all add: length_row4_bytes)

text \<open>
  The scan reports exactly the foreign users of the range.  When the system delivers its table of connections over IPv4 at
  the first attempt, with any rows and any slack behind them, the scan returns, in the order of the table, those rows whose
  local port is in the range and that belong neither to the proxy itself nor to process 0, each with its addresses, ports,
  state and process.
\<close>

theorem port_scan_exact:
  assumes "\<forall>r \<in> set rs. row4_ok r" "length rs < 2 ^ 32" "fst (tt_size T 0) \<in> {0, 122}" "snd (tt_size T 0) \<noteq> 0"
    "tt_fill T 0 (snd (tt_size T 0)) = (0, le_bytes 4 (length rs) @ concat (map row4_bytes rs) @ slack)"
  shows "scanIPv4Table P T portMin portMax selfPID = Some (Inr (map (row4_info P)
    (filter (\<lambda>r. portMin \<le> r4_localPort r \<and> r4_localPort r \<le> portMax \<and> r4_pid r \<noteq> selfPID \<and> r4_pid r \<noteq> 0) rs)))"
proof -
  let ?buf = "le_bytes 4 (length rs) @ concat (map row4_bytes rs) @ slack"
  have "length rs < 256 ^ 4"
    using assms(2) by simp
  then have "fetch_table T 3 0 [] = Some (Inr (?buf, length rs))"
    using assms(3-5) by (cases "tt_size T 0") (auto simp: numeral_3_eq_3 ERROR_INSUFFICIENT_BUFFER_def le_val_le_bytes)
  moreover have rows: "map (v4_row P) (table_rows (length rs) 24 (concat (map row4_bytes rs) @ slack)) = map (row4_info P) rs"
    using assms(1) by (simp add: table_rows_concat v4_row_bytes)
  have "filter (\<lambda>c. portMin \<le> ci_LocalPort c \<and> ci_LocalPort c \<le> portMax \<and> ci_PID c \<noteq> selfPID \<and> ci_PID c \<noteq> 0)
        (map (v4_row P) (table_rows (length rs) 24 (concat (map row4_bytes rs) @ slack))) =
      map (row4_info P) (filter (\<lambda>r. portMin \<le> r4_localPort r \<and> r4_localPort r \<le> portMax \<and> r4_pid r \<noteq> selfPID \<and> r4_pid r \<noteq> 0) rs)"
    unfolding rows filter_map comp_def row4_info_fields by simp
  ultimately show ?thesis
    by (simp add: scanIPv4Table_def scan_table_def)
qed

section \<open>Reports are complete and not repeated\<close>

text \<open>What the loop does to the table: \<open>R\<close> are the keys reported.\<close>

definition reported_well :: "int \<Rightarrow> string list \<Rightarrow> (string \<Rightarrow> int option) \<Rightarrow> (string \<Rightarrow> int option) \<Rightarrow> string list \<Rightarrow> bool" where
  "reported_well now ks m m' R \<longleftrightarrow> (\<forall>k \<in> set R. m' k = Some now) \<and> (\<forall>k. k \<notin> set R \<longrightarrow> m' k = m k)
     \<and> (\<forall>k \<in> set ks. \<exists>t. m' k = Some t \<and> now - t < 300 * second)
     \<and> (\<forall>k \<in> set R. \<forall>t. m k = Some t \<longrightarrow> 300 * second \<le> now - t) \<and> distinct R"

lemma reported_well_skip:
  assumes "reported_well now ks m m' R" "m k = Some t" "now - t < 300 * second"
  shows "reported_well now (k # ks) m m' R"
  using assms unfolding reported_well_def by fastforce

lemma reported_well_add:
  assumes "reported_well now ks (m(k \<mapsto> now)) m' R" "\<forall>t. m k = Some t \<longrightarrow> 300 * second \<le> now - t"
  shows "reported_well now (k # ks) m m' (k # R)"
proof -
  have "k \<notin> set R"
    using assms(1) by (auto simp: reported_well_def second_def)
  moreover from this have "m' k = Some now"
    using assms(1) by (auto simp: reported_well_def)
  moreover have "\<forall>k' \<in> set R. \<forall>t. m k' = Some t \<longrightarrow> 300 * second \<le> now - t"
    using assms(1) \<open>k \<notin> set R\<close> unfolding reported_well_def by (metis fun_upd_other)
  ultimately show ?thesis
    using assms unfolding reported_well_def by (auto simp: second_def)
qed

lemma report_effect: "reported_well now (map conflict_key cs) m (fst (report now cs m)) (map conflict_key (snd (report now cs m)))"
proof (induction cs arbitrary: m)
  case Nil
  then show ?case
    by (simp add: reported_well_def)
next
  case (Cons c cs)
  let ?k = "conflict_key c"
  show ?case
  proof (cases "\<exists>t. m ?k = Some t \<and> now - t < 300 * second")
    case True
    then obtain t where "m ?k = Some t" "now - t < 300 * second"
      by blast
    with reported_well_skip [OF Cons.IH [of m], OF this] show ?thesis
      by simp
  next
    case False
    then have r: "report now (c # cs) m = (fst (report now cs (m(?k \<mapsto> now))), c # snd (report now cs (m(?k \<mapsto> now))))"
      by (auto simp: Let_def split: option.split prod.split)
    have "\<forall>t. m ?k = Some t \<longrightarrow> 300 * second \<le> now - t"
      using False by fastforce
    then show ?thesis
      unfolding r fst_conv snd_conv list.map by (rule reported_well_add [OF Cons.IH])
  qed
qed

fun guard_run :: "(int \<times> (string + ConflictingPortInfo list)) list \<Rightarrow> PortGuard \<Rightarrow> (int \<times> string) list" where
  "guard_run [] pg = []"
| "guard_run ((now, scan) # scans) pg =
     (case ScanAndAlert now scan pg of (pg, reports, _) \<Rightarrow> map (\<lambda>c. (now, conflict_key c)) reports @ guard_run scans pg)"

lemma ScanAndAlert_effect:
  assumes "ScanAndAlert now scan pg = (pg', rs, n)"
  shows "\<forall>k \<in> conflict_key ` set rs. pg_reported pg' k = Some now"
    "\<forall>k. k \<notin> conflict_key ` set rs \<longrightarrow>
      pg_reported pg' k = pg_reported pg k \<or> (\<forall>t. pg_reported pg k = Some t \<longrightarrow> 3600 * second < now - t)"
    "\<forall>k \<in> conflict_key ` set rs. \<forall>t. pg_reported pg k = Some t \<longrightarrow> 300 * second \<le> now - t"
    "distinct (map conflict_key rs)"
    "\<forall>cs. scan = Inr cs \<longrightarrow> (\<forall>c \<in> set cs. \<exists>t. pg_reported pg' (conflict_key c) = Some t \<and> now - t < 300 * second)"
proof -
  let ?m = "purge now (pg_reported pg)"
  have "\<exists>cs. (\<forall>cs'. scan = Inr cs' \<longrightarrow> cs' = cs) \<and> (rs = [] \<and> pg' = pg \<and> cs = []
      \<or> reported_well now (map conflict_key cs) ?m (pg_reported pg') (map conflict_key rs))"
  proof (cases scan)
    case (Inl err)
    then show ?thesis
      using assms by (auto simp: ScanAndAlert_def)
  next
    case (Inr cs)
    then show ?thesis
      using assms report_effect [of now cs ?m] by (auto simp: ScanAndAlert_def split: if_splits prod.splits)
  qed
  then obtain cs where cs: "\<forall>cs'. scan = Inr cs' \<longrightarrow> cs' = cs"
    "rs = [] \<and> pg' = pg \<and> cs = [] \<or> reported_well now (map conflict_key cs) ?m (pg_reported pg') (map conflict_key rs)"
    by blast
  show "\<forall>k \<in> conflict_key ` set rs. pg_reported pg' k = Some now" "distinct (map conflict_key rs)"
    using cs(2) by (auto simp: reported_well_def)
  show "\<forall>k. k \<notin> conflict_key ` set rs \<longrightarrow>
      pg_reported pg' k = pg_reported pg k \<or> (\<forall>t. pg_reported pg k = Some t \<longrightarrow> 3600 * second < now - t)"
  proof (intro allI impI)
    fix k
    assume k: "k \<notin> conflict_key ` set rs"
    then have "pg_reported pg' k = pg_reported pg k \<or> pg_reported pg' k = purge now (pg_reported pg) k"
      using cs(2) by (auto simp: reported_well_def)
    then show "pg_reported pg' k = pg_reported pg k \<or> (\<forall>t. pg_reported pg k = Some t \<longrightarrow> 3600 * second < now - t)"
      by (cases "pg_reported pg k") (auto simp: purge_def split: if_splits)
  qed
  show "\<forall>k \<in> conflict_key ` set rs. \<forall>t. pg_reported pg k = Some t \<longrightarrow> 300 * second \<le> now - t"
  proof (intro ballI allI impI)
    fix k t
    assume k: "k \<in> conflict_key ` set rs" "pg_reported pg k = Some t"
    then have "\<forall>t. purge now (pg_reported pg) k = Some t \<longrightarrow> 300 * second \<le> now - t"
      using cs(2) by (auto simp: reported_well_def)
    with k(2) show "300 * second \<le> now - t"
      by (auto simp: purge_def second_def split: if_splits)
  qed
  show "\<forall>cs. scan = Inr cs \<longrightarrow> (\<forall>c \<in> set cs. \<exists>t. pg_reported pg' (conflict_key c) = Some t \<and> now - t < 300 * second)"
    using cs by (auto simp: reported_well_def)
qed

lemma guard_run_later:
  assumes "sorted (map fst scans)" "\<forall>now \<in> set (map fst scans). t0 \<le> now" "t0 - t \<ge> 0"
    "pg_reported pg k = Some t \<or> 300 * second \<le> t0 - t" "(t', k) \<in> set (guard_run scans pg)"
  shows "300 * second \<le> t' - t"
  using assms
proof (induction scans arbitrary: pg t0)
  case (Cons s scans)
  obtain now scan where s: "s = (now, scan)"
    by force
  obtain pg1 rs n where a: "ScanAndAlert now scan pg = (pg1, rs, n)"
    by (metis prod_cases3)
  note e = ScanAndAlert_effect [OF a]
  have now: "t0 \<le> now" "\<forall>u \<in> set (map fst scans). now \<le> u" "sorted (map fst scans)"
    using Cons.prems(1,2) s by auto
  consider (first) "t' = now" "k \<in> conflict_key ` set rs" | (later) "(t', k) \<in> set (guard_run scans pg1)"
    using Cons.prems(5) s a by auto
  then show ?case
  proof cases
    case first
    then show ?thesis
      using Cons.prems(4) e(3) now(1) by fastforce
  next
    case later
    have "pg_reported pg1 k = Some t \<or> 300 * second \<le> now - t"
    proof (cases "300 * second \<le> t0 - t")
      case True
      then show ?thesis
        using now(1) by simp
    next
      case False
      then have t: "pg_reported pg k = Some t"
        using Cons.prems(4) by simp
      show ?thesis
      proof (cases "k \<in> conflict_key ` set rs")
        case True
        then show ?thesis
          using e(3) t by blast
      next
        case False
        then consider "pg_reported pg1 k = pg_reported pg k" | "3600 * second < now - t"
          using e(2) t by blast
        then show ?thesis
          using t by cases (simp_all add: second_def)
      qed
    qed
    then show ?thesis
      using Cons.IH [OF now(3,2) _ _ later] Cons.prems(3) now(1) by simp
  qed
qed simp


section \<open>Samples\<close>

definition sample_row :: row4 where
  "sample_row = \<lparr>r4_state = 5, r4_localIP = [10, 0, 0, 5], r4_localPort = 40100, r4_remoteIP = [93, 184, 216, 34], r4_remotePort = 443,
     r4_pid = 4321\<rparr>"

definition sample_table :: tcp_table where
  "sample_table = \<lparr>tt_size = (\<lambda>_. (122, 30)), tt_fill = (\<lambda>_ _. (0, le_bytes 4 (length [sample_row]) @ concat (map row4_bytes [sample_row]) @ [0, 0]))\<rparr>"

definition sample_processes :: processes where
  "sample_processes = \<lparr>pr_path = (\<lambda>_. ''app.exe''), pr_snapshot = (\<lambda>_. '''')\<rparr>"

theorem port_scan_exact_witness:
  "scanIPv4Table sample_processes sample_table 40000 48999 77 = Some (Inr (map (row4_info sample_processes)
    (filter (\<lambda>r. 40000 \<le> r4_localPort r \<and> r4_localPort r \<le> 48999 \<and> r4_pid r \<noteq> 77 \<and> r4_pid r \<noteq> 0) [sample_row])))"
  by (rule port_scan_exact [where slack = "[0, 0]"]) (simp_all add: sample_table_def sample_row_def row4_ok_def)

lemma sample_guard_run:
  "guard_run [(0, Inr [row4_info sample_processes sample_row]), (400 * second, Inr [row4_info sample_processes sample_row])] (NewPortGuard 40000 48999)
    = [(0, conflict_key (row4_info sample_processes sample_row)), (400 * second, conflict_key (row4_info sample_processes sample_row))]"
  by (simp add: ScanAndAlert_def NewPortGuard_def purge_def Let_def second_def)


end
