(* ===== verification/Pipe.thy ===== *)
theory Pipe
  imports Prelude "HOL-Library.Sublist"
begin

text \<open>
  The relay between client and upstream, \<open>PipeConnEx\<close> of \<open>internal/proxy/forwarder.go\<close>.  Its two goroutines run the same
  loop with the roles of the connections exchanged; one iteration is \<open>pipe_step\<close>.  What the network does in an iteration is
  the record \<open>io\<close>: what the read returns, what the write of it returns, and the clocks.  The time of the last activity is
  shared; a run of the relay is an interleaving of iterations of the two goroutines.  Times are in nanoseconds.
\<close>

section \<open>Deadlines\<close>

text \<open>Go divides toward zero; the branch is entered for a positive timeout only.\<close>

definition refresh_interval :: "int \<Rightarrow> int" where
  "refresh_interval idleTimeout =
     (if idleTimeout \<le> 0 then 0
      else
        let d = idleTimeout div 4
        in if d > 30 * second then 30 * second
           else if d < 5 * second \<and> idleTimeout > 5 * second then 5 * second
           else d)"

definition drain_timeout :: "int \<Rightarrow> int" where
  "drain_timeout idleTimeout = (if idleTimeout \<le> 0 \<or> idleTimeout > 60 * second then 60 * second else idleTimeout)"

section \<open>One direction\<close>

datatype read_err = EOF | Timeout | Broken

record io =
  io_data :: "byte list"
  io_err :: "read_err option"
  io_written :: nat
  io_werr :: bool
  io_coarse :: int
  io_now :: int

datatype pipe_act = SetSrcDeadline int | CloseWriteDst | SetDstDeadline int | CloseBoth

record pipe =
  pi_out :: "byte list"
  pi_localBytes :: int
  pi_lastDeadline :: int

definition updateDeadline :: "int \<Rightarrow> int \<Rightarrow> pipe \<Rightarrow> pipe \<times> pipe_act list" where
  "updateDeadline idleTimeout now p =
     (if \<not> idleTimeout \<le> 0 \<and> now - pi_lastDeadline p > refresh_interval idleTimeout
      then (p\<lparr>pi_lastDeadline := now\<rparr>, [SetSrcDeadline (now + idleTimeout)])
      else (p, []))"

text \<open>The part for \<open>nr > 0\<close>, after the store of the activity; the last component tells whether the loop goes on.\<close>

definition relay_data :: "int \<Rightarrow> io \<Rightarrow> pipe \<Rightarrow> pipe \<times> pipe_act list \<times> bool" where
  "relay_data idleTimeout e p =
     (let (p, acts) = updateDeadline idleTimeout (io_coarse e) p;
          nr = length (io_data e);
          nw = io_written e;
          p = p\<lparr>pi_out := pi_out p @ take nw (io_data e), pi_localBytes := pi_localBytes p + int nw\<rparr>
      in if io_werr e \<or> nr \<noteq> nw then (p, acts @ [CloseBoth], False) else (p, acts, True))"

definition read_failed :: "int \<Rightarrow> io \<Rightarrow> read_err \<Rightarrow> int \<Rightarrow> pipe \<Rightarrow> pipe \<times> pipe_act list \<times> bool" where
  "read_failed idleTimeout e er lastActivity p =
     (case er of
        Timeout \<Rightarrow>
          if io_now e - lastActivity < idleTimeout then
            (let (p, acts) = updateDeadline idleTimeout (io_now e) p in (p, acts, True))
          else (p, [CloseWriteDst], False)
      | EOF \<Rightarrow> (p, [CloseWriteDst, SetDstDeadline (io_now e + drain_timeout idleTimeout)], False)
      | Broken \<Rightarrow> (p, [CloseBoth], False))"

text \<open>An iteration, with the shared time of the last activity as its first result.\<close>

definition pipe_step :: "int \<Rightarrow> io \<Rightarrow> int \<Rightarrow> pipe \<Rightarrow> int \<times> pipe \<times> pipe_act list \<times> bool" where
  "pipe_step idleTimeout e lastActivity p =
     (let lastActivity = (if length (io_data e) > 0 then io_coarse e else lastActivity);
          (p, acts, go) = (if length (io_data e) > 0 then relay_data idleTimeout e p else (p, [], True))
      in if \<not> go then (lastActivity, p, acts, False)
         else case io_err e of
           None \<Rightarrow> (lastActivity, p, acts, True)
         | Some er \<Rightarrow>
             (case read_failed idleTimeout e er lastActivity p of (p, acts', go) \<Rightarrow> (lastActivity, p, acts @ acts', go)))"

text \<open>The start of a direction: the zero time is the last deadline.\<close>

definition pipe_start :: "int \<Rightarrow> int \<Rightarrow> int \<Rightarrow> pipe \<times> pipe_act list" where
  "pipe_start idleTimeout coarse zeroTime =
     updateDeadline idleTimeout coarse \<lparr>pi_out = [], pi_localBytes = 0, pi_lastDeadline = zeroTime\<rparr>"

section \<open>Both directions\<close>

text \<open>\<open>Down\<close> is the goroutine from upstream to client, \<open>Up\<close> the one from client to upstream; \<open>du_runs\<close>: it has not returned.\<close>

datatype direction = Down | Up

record duplex =
  du_pipe :: "direction \<Rightarrow> pipe"
  du_runs :: "direction \<Rightarrow> bool"
  du_lastActivity :: int

definition duplex_start :: "int \<Rightarrow> int \<Rightarrow> int \<Rightarrow> duplex" where
  "duplex_start idleTimeout coarse zeroTime =
     \<lparr>du_pipe = (\<lambda>_. fst (pipe_start idleTimeout coarse zeroTime)), du_runs = (\<lambda>_. True), du_lastActivity = coarse\<rparr>"

definition duplex_step :: "int \<Rightarrow> direction \<Rightarrow> io \<Rightarrow> duplex \<Rightarrow> (duplex \<times> pipe_act list) option" where
  "duplex_step idleTimeout d e D =
     (if \<not> du_runs D d then None
      else case pipe_step idleTimeout e (du_lastActivity D) (du_pipe D d) of
        (lastActivity, p, acts, go) \<Rightarrow>
          Some (\<lparr>du_pipe = (du_pipe D)(d := p), du_runs = (du_runs D)(d := go), du_lastActivity = lastActivity\<rparr>, acts))"

text \<open>A run over a schedule of iterations; there is none for a direction that has returned.\<close>

fun duplex_run :: "int \<Rightarrow> (direction \<times> io) list \<Rightarrow> duplex \<Rightarrow> (duplex \<times> (direction \<times> pipe_act) list) option" where
  "duplex_run idleTimeout [] D = Some (D, [])"
| "duplex_run idleTimeout ((d, e) # sched) D =
     (case duplex_step idleTimeout d e D of
        None \<Rightarrow> None
      | Some (D, acts) \<Rightarrow>
          (case duplex_run idleTimeout sched D of
             None \<Rightarrow> None
           | Some (D, acts') \<Rightarrow> Some (D, map (Pair d) acts @ acts')))"

text \<open>
  The call: once both goroutines have returned, both connections are closed and the bytes from the client and those from
  upstream are returned.
\<close>

definition PipeConnEx :: "int \<Rightarrow> int \<Rightarrow> int \<Rightarrow> (direction \<times> io) list \<Rightarrow> (int \<times> int) option" where
  "PipeConnEx idleTimeout coarse zeroTime sched =
     (case duplex_run idleTimeout sched (duplex_start idleTimeout coarse zeroTime) of
        None \<Rightarrow> None
      | Some (D, _) \<Rightarrow>
          if du_runs D Up \<or> du_runs D Down then None
          else Some (pi_localBytes (du_pipe D Up), pi_localBytes (du_pipe D Down)))"

section \<open>What arrives\<close>

text \<open>\<open>net.Conn\<close>: a write takes at most the bytes it is given, and fewer only with an error.\<close>

definition io_ok :: "io \<Rightarrow> bool" where
  "io_ok e \<longleftrightarrow> io_written e \<le> length (io_data e) \<and> (io_written e < length (io_data e) \<longrightarrow> io_werr e)"

lemmas step_defs = pipe_step_def relay_data_def read_failed_def Let_def updateDeadline_def

lemma pipe_step_data:
  assumes "io_ok e" "pipe_step T e t p = (t', p', acts, go)"
  shows "\<exists>n \<le> length (io_data e). pi_out p' = pi_out p @ take n (io_data e) \<and> pi_localBytes p' = pi_localBytes p + int n
    \<and> (CloseBoth \<notin> set acts \<longrightarrow> n = length (io_data e))"
proof (cases "io_data e = []")
  case True
  then show ?thesis
    using assms by (auto simp: step_defs split: option.splits read_err.splits if_splits prod.splits)
next
  case False
  then show ?thesis
    using assms
    by (intro exI [of _ "io_written e"])
      (auto simp: step_defs io_ok_def split: option.splits read_err.splits if_splits prod.splits)
qed

lemma pipe_step_activity:
  assumes "pipe_step T e t p = (t', p', acts, go)"
  shows "t' = (if io_data e = [] then t else io_coarse e)"
  using assms by (auto simp: step_defs split: option.splits read_err.splits if_splits prod.splits)

lemma pipe_step_go:
  assumes "pipe_step T e t p = (t', p', acts, True)"
  shows "CloseBoth \<notin> set acts"
  using assms by (auto simp: step_defs split: option.splits read_err.splits if_splits prod.splits)

lemma pipe_step_end:
  assumes "pipe_step T e t p = (t', p', acts, False)" "CloseBoth \<notin> set acts"
  shows "CloseWriteDst \<in> set acts \<and> (io_err e = Some EOF \<or> io_err e = Some Timeout \<and> T \<le> io_now e - t')"
  using assms by (auto simp: step_defs split: option.splits read_err.splits if_splits prod.splits)

text \<open>The bytes that a direction reads in a schedule, and the time of the last traffic in either direction.\<close>

definition read_by :: "direction \<Rightarrow> (direction \<times> io) list \<Rightarrow> byte list" where
  "read_by d sched = concat (map (\<lambda>(d', e). if d' = d then io_data e else []) sched)"

definition traffic :: "(direction \<times> io) list \<Rightarrow> int \<Rightarrow> int" where
  "traffic sched t = fold (\<lambda>(_, e) t. if io_data e = [] then t else io_coarse e) sched t"

text \<open>A direction has ended in good order: at the end of its stream, or after a time without traffic.\<close>

definition ended_well :: "int \<Rightarrow> int \<Rightarrow> direction \<Rightarrow> (direction \<times> io) list \<Rightarrow> bool" where
  "ended_well T coarse d sched \<longleftrightarrow> (\<exists>pre e post. sched = pre @ (d, e) # post \<and> d \<notin> fst ` set post
     \<and> (io_err e = Some EOF \<or> io_err e = Some Timeout \<and> T \<le> io_now e - traffic (pre @ [(d, e)]) coarse))"

definition relayed :: "int \<Rightarrow> int \<Rightarrow> direction \<Rightarrow> (direction \<times> io) list \<Rightarrow> duplex \<Rightarrow> (direction \<times> pipe_act) list \<Rightarrow> bool" where
  "relayed T coarse d sched D acts \<longleftrightarrow>
     prefix (pi_out (du_pipe D d)) (read_by d sched)
     \<and> pi_localBytes (du_pipe D d) = int (length (pi_out (du_pipe D d)))
     \<and> ((d, CloseBoth) \<notin> set acts \<longrightarrow> pi_out (du_pipe D d) = read_by d sched)
     \<and> (du_runs D d \<longrightarrow> (d, CloseBoth) \<notin> set acts)
     \<and> (\<not> du_runs D d \<and> (d, CloseBoth) \<notin> set acts \<longrightarrow> (d, CloseWriteDst) \<in> set acts \<and> ended_well T coarse d sched)"

lemma duplex_run_snoc:
  assumes "duplex_run T (sched @ [(d, e)]) D0 = Some (D', acts)"
  obtains D acts1 acts2 where "duplex_run T sched D0 = Some (D, acts1)" "duplex_step T d e D = Some (D', acts2)"
    "acts = acts1 @ map (Pair d) acts2"
  using assms
proof (induction sched arbitrary: D0 acts thesis)
  case Nil
  then show ?case
    by (auto split: option.splits)
next
  case (Cons x sched)
  obtain d1 e1 where x: "x = (d1, e1)"
    by (rule prod.exhaust)
  obtain D1 a1 a2 where st: "duplex_step T d1 e1 D0 = Some (D1, a1)"
    "duplex_run T (sched @ [(d, e)]) D1 = Some (D', a2)" "acts = map (Pair d1) a1 @ a2"
    using Cons.prems(2) unfolding x by (auto split: option.splits)
  obtain D b1 b2 where "duplex_run T sched D1 = Some (D, b1)" "duplex_step T d e D = Some (D', b2)" "a2 = b1 @ map (Pair d) b2"
    using Cons.IH [OF _ st(2)] by blast
  then show ?case
    using st by (intro Cons.prems(1) [of D "map (Pair d1) a1 @ b1" b2]) (auto simp: x)
qed

lemma read_by_snoc: "read_by d (sched @ [(d', e)]) = read_by d sched @ (if d' = d then io_data e else [])"
  by (simp add: read_by_def)

lemma ended_well_other:
  assumes "ended_well T coarse d sched" "d' \<noteq> d"
  shows "ended_well T coarse d (sched @ [(d', e)])"
proof -
  from assms(1) obtain pre e0 post where p: "sched = pre @ (d, e0) # post" "d \<notin> fst ` set post"
    "io_err e0 = Some EOF \<or> io_err e0 = Some Timeout \<and> T \<le> io_now e0 - traffic (pre @ [(d, e0)]) coarse"
    unfolding ended_well_def by blast
  then have "sched @ [(d', e)] = pre @ (d, e0) # (post @ [(d', e)]) \<and> d \<notin> fst ` set (post @ [(d', e)])"
    using assms(2) by auto
  then show ?thesis
    using p(3) unfolding ended_well_def by blast
qed

lemma relayed_other:
  assumes "relayed T coarse d sched D acts" "duplex_step T d' e D = Some (D', acts')" "d' \<noteq> d"
  shows "relayed T coarse d (sched @ [(d', e)]) D' (acts @ map (Pair d') acts')"
proof -
  have "du_pipe D' d = du_pipe D d" "du_runs D' d = du_runs D d"
    using assms(2,3) by (auto simp: duplex_step_def split: if_splits prod.splits)
  then show ?thesis
    using assms(1,3) by (auto simp: relayed_def read_by_snoc ended_well_other)
qed

lemma relayed_own:
  assumes inv: "relayed T coarse d sched D acts" "du_lastActivity D = traffic sched coarse" and ok: "io_ok e"
    and st: "duplex_step T d e D = Some (D', acts')"
  shows "relayed T coarse d (sched @ [(d, e)]) D' (acts @ map (Pair d) acts')"
proof -
  obtain t p go where ps: "pipe_step T e (du_lastActivity D) (du_pipe D d) = (t, p, acts', go)" and runs: "du_runs D d"
    and D': "D' = \<lparr>du_pipe = (du_pipe D)(d := p), du_runs = (du_runs D)(d := go), du_lastActivity = t\<rparr>"
    using st by (auto simp: duplex_step_def split: if_splits prod.splits)
  have full: "(d, CloseBoth) \<notin> set acts" "pi_out (du_pipe D d) = read_by d sched"
    "pi_localBytes (du_pipe D d) = int (length (pi_out (du_pipe D d)))"
    using inv(1) runs by (auto simp: relayed_def)
  obtain n where n: "n \<le> length (io_data e)" "pi_out p = pi_out (du_pipe D d) @ take n (io_data e)"
    "pi_localBytes p = pi_localBytes (du_pipe D d) + int n" "CloseBoth \<notin> set acts' \<longrightarrow> n = length (io_data e)"
    using pipe_step_data [OF ok ps] by blast
  have t: "t = traffic (sched @ [(d, e)]) coarse"
    using pipe_step_activity [OF ps] inv(2) by (simp add: traffic_def)
  have ended: "ended_well T coarse d (sched @ [(d, e)]) \<and> CloseWriteDst \<in> set acts'" if "\<not> go" "CloseBoth \<notin> set acts'"
  proof -
    have "CloseWriteDst \<in> set acts' \<and> (io_err e = Some EOF \<or> io_err e = Some Timeout \<and> T \<le> io_now e - t)"
      using pipe_step_end [of T e _ _ t p acts'] ps that by simp
    then show ?thesis
      unfolding t ended_well_def by (metis empty_iff empty_set image_is_empty)
  qed
  have "go \<Longrightarrow> CloseBoth \<notin> set acts'"
    using pipe_step_go [of T e _ _ t p acts'] ps by simp
  then show ?thesis
    using full n ended unfolding relayed_def D'
    by (auto simp: read_by_snoc same_prefix_prefix take_is_prefix)
qed

lemma duplex_run_relayed:
  assumes "\<forall>x \<in> set sched. io_ok (snd x)" "duplex_run T sched (duplex_start T coarse zeroTime) = Some (D, acts)"
  shows "relayed T coarse d sched D acts \<and> du_lastActivity D = traffic sched coarse"
  using assms
proof (induction sched arbitrary: D acts rule: rev_induct)
  case Nil
  then show ?case
    by (auto simp: duplex_start_def relayed_def read_by_def traffic_def pipe_start_def updateDeadline_def)
next
  case (snoc x sched)
  obtain d' e where x: "x = (d', e)"
    by (rule prod.exhaust)
  obtain D1 a1 a2 where r: "duplex_run T sched (duplex_start T coarse zeroTime) = Some (D1, a1)"
    "duplex_step T d' e D1 = Some (D, a2)" "acts = a1 @ map (Pair d') a2"
    using duplex_run_snoc snoc.prems(2) unfolding x by blast
  have IH: "relayed T coarse d sched D1 a1" "du_lastActivity D1 = traffic sched coarse" and ok: "io_ok e"
    using snoc.IH [OF _ r(1)] snoc.prems(1) x by auto
  have "du_lastActivity D = traffic (sched @ [x]) coarse"
    using r(2) IH(2) pipe_step_activity unfolding x traffic_def
    by (fastforce simp: duplex_step_def split: if_splits prod.splits)
  moreover have "relayed T coarse d (sched @ [x]) D acts"
    unfolding r(3) x
  proof (cases "d' = d")
    case True
    then show "relayed T coarse d (sched @ [(d', e)]) D (a1 @ map (Pair d') a2)"
      using relayed_own [OF IH ok] r(2) by simp
  next
    case False
    then show "relayed T coarse d (sched @ [(d', e)]) D (a1 @ map (Pair d') a2)"
      by (rule relayed_other [OF IH(1) r(2)])
  qed
  ultimately show ?case
    by blast
qed

text \<open>
  C18: the relay delivers what it reads, in both directions.  For every interleaving of the two goroutines and every sequence of
  reads, writes and timeouts on connections that behave as the network package documents, each direction has delivered a
  prefix of the bytes it was given, in order and without gaps or repetitions, and all of them unless it has closed both
  connections because a write failed or a connection broke; a direction that has returned otherwise has passed the end of
  the stream on, and it has done so at the end of its own stream or after there was no traffic in either direction for the
  idle timeout; and the byte counts that \<open>PipeConnEx\<close> returns are the numbers of bytes delivered.
\<close>

theorem pipe_faithful:
  assumes "\<forall>x \<in> set sched. io_ok (snd x)" "duplex_run T sched (duplex_start T coarse zeroTime) = Some (D, acts)"
  shows "relayed T coarse Up sched D acts \<and> relayed T coarse Down sched D acts
    \<and> (\<forall>up down. PipeConnEx T coarse zeroTime sched = Some (up, down) \<longrightarrow>
         up = int (length (pi_out (du_pipe D Up))) \<and> down = int (length (pi_out (du_pipe D Down))))"
  using duplex_run_relayed [OF assms] assms(2) by (auto simp: relayed_def PipeConnEx_def split: if_splits)

definition sample_io :: "(direction \<times> io) list" where
  "sample_io =
     [(Up, \<lparr>io_data = [1, 2, 3], io_err = None, io_written = 3, io_werr = False, io_coarse = 10, io_now = 10\<rparr>),
      (Down, \<lparr>io_data = [], io_err = Some Timeout, io_written = 0, io_werr = False, io_coarse = 20, io_now = 20\<rparr>),
      (Up, \<lparr>io_data = [4], io_err = Some EOF, io_written = 1, io_werr = False, io_coarse = 30, io_now = 30\<rparr>),
      (Down, \<lparr>io_data = [], io_err = Some Timeout, io_written = 0, io_werr = False, io_coarse = 200, io_now = 200\<rparr>)]"

lemma sample_io_ok: "\<forall>x \<in> set sample_io. io_ok (snd x)"
  by (simp add: sample_io_def io_ok_def)

lemma sample_io_runs: "duplex_run 100 sample_io (duplex_start 100 0 (- 1000)) \<noteq> None" "PipeConnEx 100 0 (- 1000) sample_io = Some (4, 0)"
  by (simp_all add: sample_io_def PipeConnEx_def duplex_start_def duplex_step_def pipe_start_def step_defs refresh_interval_def)

theorem pipe_faithful_witness:
  "\<exists>D acts. duplex_run 100 sample_io (duplex_start 100 0 (- 1000)) = Some (D, acts) \<and> relayed 100 0 Up sample_io D acts
    \<and> relayed 100 0 Down sample_io D acts \<and> length (pi_out (du_pipe D Up)) = 4"
proof -
  obtain D acts where run: "duplex_run 100 sample_io (duplex_start 100 0 (- 1000)) = Some (D, acts)"
    using sample_io_runs(1) by auto
  from pipe_faithful [OF sample_io_ok run] run sample_io_runs(2) show ?thesis
    by auto
qed

section \<open>The loop does not spin\<close>

lemma refresh_below_drain:
  assumes "0 < T"
  shows "refresh_interval T < drain_timeout T" "drain_timeout T \<le> T \<or> 60 * second < T"
  using assms by (auto simp: refresh_interval_def drain_timeout_def Let_def second_def)

text \<open>
  A timeout is never followed at once by another.  The read deadline of a connection is set at the earliest to the drain
  timeout after the last time this direction has renewed it, by itself or by the other direction at the end of its stream;
  when it passes while there has been traffic within the idle timeout, the direction goes on, and it sets a new deadline
  which lies the whole idle timeout ahead.  When there has been none, it returns.
\<close>

theorem timeout_renews_deadline:
  assumes "0 < T" "io_data e = []" "io_err e = Some Timeout" "pi_lastDeadline p + drain_timeout T \<le> io_now e"
  shows "pipe_step T e t p =
    (if io_now e - t < T then (t, p\<lparr>pi_lastDeadline := io_now e\<rparr>, [SetSrcDeadline (io_now e + T)], True)
     else (t, p, [CloseWriteDst], False))"
  using assms refresh_below_drain(1) [OF assms(1)] by (simp add: step_defs)

theorem timeout_renews_deadline_witness:
  "pipe_step (100 * second) \<lparr>io_data = [], io_err = Some Timeout, io_written = 0, io_werr = False, io_coarse = 0, io_now = 90 * second\<rparr> (80 * second)
      \<lparr>pi_out = [], pi_localBytes = 0, pi_lastDeadline = 30 * second\<rparr>
    = (80 * second, \<lparr>pi_out = [], pi_localBytes = 0, pi_lastDeadline = 90 * second\<rparr>, [SetSrcDeadline (190 * second)], True)"
  using timeout_renews_deadline [of "100 * second"
    "\<lparr>io_data = [], io_err = Some Timeout, io_written = 0, io_werr = False, io_coarse = 0, io_now = 90 * second\<rparr>"
    "\<lparr>pi_out = [], pi_localBytes = 0, pi_lastDeadline = 30 * second\<rparr>" "80 * second"]
  by (simp add: drain_timeout_def second_def)

end
