(* ===== verification/WinSspi.thy ===== *)
theory WinSspi
  imports Negotiator
begin

text \<open>
  The Windows security package, \<open>internal/sspi/sspi_windows.go\<close>: credentials, the security context of a client or of a server, the
  tokens of a handshake, and the release of what the package has allocated.  The functions of \<open>secur32.dll\<close> act on an abstract state of
  the package; what the program takes from the package and gives back is a trace of actions.
\<close>

section \<open>Base 64 read back\<close>

definition b64_val :: "char \<Rightarrow> nat option" where
  "b64_val c = (let i = length (takeWhile (\<lambda>d. d \<noteq> c) b64_alphabet) in if i < 64 then Some i else None)"

text \<open>\<open>base64.StdEncoding.DecodeString\<close>, which leaves out line breaks, on characters in groups of four.\<close>

fun b64_groups :: "string \<Rightarrow> nat list option" where
  "b64_groups [] = Some []"
| "b64_groups [a, b, c, d] =
     (if d = CHR ''='' then
        if c = CHR ''='' then
          do { x \<leftarrow> b64_val a; y \<leftarrow> b64_val b; Some [x * 4 + y div 16] }
        else
          do { x \<leftarrow> b64_val a; y \<leftarrow> b64_val b; z \<leftarrow> b64_val c; Some [x * 4 + y div 16, y mod 16 * 16 + z div 4] }
      else
        do { x \<leftarrow> b64_val a; y \<leftarrow> b64_val b; z \<leftarrow> b64_val c; u \<leftarrow> b64_val d;
             Some [x * 4 + y div 16, y mod 16 * 16 + z div 4, z mod 4 * 64 + u] })"
| "b64_groups (a # b # c # d # e # r) =
     do { x \<leftarrow> b64_val a; y \<leftarrow> b64_val b; z \<leftarrow> b64_val c; u \<leftarrow> b64_val d; rest \<leftarrow> b64_groups (e # r);
          Some ([x * 4 + y div 16, y mod 16 * 16 + z div 4, z mod 4 * 64 + u] @ rest) }"
| "b64_groups _ = None"

definition DecodeString :: "string \<Rightarrow> nat list option" where
  "DecodeString s = b64_groups (filter (\<lambda>c. c \<noteq> CHR 0x0D \<and> c \<noteq> CHR 0x0A) s)"

lemma b64_val_char: "n < 64 \<Longrightarrow> b64_val (b64_char n) = Some n"
proof -
  have "\<forall>n \<in> set [0..<64]. b64_val (b64_char n) = Some n"
    by code_simp
  then show "n < 64 \<Longrightarrow> b64_val (b64_char n) = Some n"
    by simp
qed

lemma b64_char_plain: "n < 64 \<Longrightarrow> b64_char n \<noteq> CHR ''='' \<and> b64_char n \<noteq> CHR 0x0D \<and> b64_char n \<noteq> CHR 0x0A"
proof -
  have "\<forall>n \<in> set [0..<64]. b64_char n \<noteq> CHR ''='' \<and> b64_char n \<noteq> CHR 0x0D \<and> b64_char n \<noteq> CHR 0x0A"
    by code_simp
  then show "n < 64 \<Longrightarrow> b64_char n \<noteq> CHR ''='' \<and> b64_char n \<noteq> CHR 0x0D \<and> b64_char n \<noteq> CHR 0x0A"
    by simp
qed

lemma b64_no_breaks: "\<forall>x \<in> set xs. x < 256 \<Longrightarrow> filter (\<lambda>c. c \<noteq> CHR 0x0D \<and> c \<noteq> CHR 0x0A) (b64 xs) = b64 xs"
  by (induction xs rule: b64.induct) (auto simp: b64_char_plain)

lemma b64_empty: "b64 xs = '''' \<Longrightarrow> xs = []"
  by (cases xs rule: b64.cases) auto

text \<open>The sextets of three bytes give the bytes back.\<close>

lemma sextets:
  assumes "a < 256" "b < 256" "c < (256 :: nat)"
  shows "a div 4 < 64" "a mod 4 * 16 + b div 16 < 64" "b mod 16 * 4 + c div 64 < 64" "c mod 64 < 64"
    "a div 4 * 4 + (a mod 4 * 16 + b div 16) div 16 = a"
    "(a mod 4 * 16 + b div 16) mod 16 * 16 + (b mod 16 * 4 + c div 64) div 4 = b"
    "(b mod 16 * 4 + c div 64) mod 4 * 64 + c mod 64 = c"
proof -
  have small: "a div 4 < 64" "b div 16 < 16" "c div 64 < 4" "a mod 4 < 4" "b mod 16 < 16" "c mod 64 < 64"
    using assms by (simp_all add: less_mult_imp_div_less)
  then show "a div 4 < 64" "a mod 4 * 16 + b div 16 < 64" "b mod 16 * 4 + c div 64 < 64" "c mod 64 < 64"
    by linarith+
  show "a div 4 * 4 + (a mod 4 * 16 + b div 16) div 16 = a"
    using small(2) by simp
  show "(a mod 4 * 16 + b div 16) mod 16 * 16 + (b mod 16 * 4 + c div 64) div 4 = b"
    using small(2,3) by simp
  show "(b mod 16 * 4 + c div 64) mod 4 * 64 + c mod 64 = c"
    using small(3) by simp
qed

lemma b64_groups_encode: "\<forall>x \<in> set xs. x < 256 \<Longrightarrow> b64_groups (b64 xs) = Some xs"
proof (induction xs rule: b64.induct)
  case (4 a b c r)
  then have s: "a < 256" "b < 256" "c < 256" and IH: "b64_groups (b64 r) = Some r"
    by simp_all
  show ?case
  proof (cases "b64 r")
    case Nil
    then show ?thesis
      using sextets [OF s] b64_empty [OF Nil] by (simp add: b64_val_char b64_char_plain)
  next
    case (Cons e t)
    then show ?thesis
      using sextets [OF s] IH by (simp add: b64_val_char)
  qed
qed (auto simp: b64_val_char b64_char_plain)

lemma DecodeString_encode: "\<forall>x \<in> set xs. x < 256 \<Longrightarrow> DecodeString (b64 xs) = Some xs"
  by (simp add: DecodeString_def b64_no_breaks b64_groups_encode)

section \<open>The package\<close>

text \<open>
  What \<open>InitializeSecurityContext\<close> reports: the status, the handle it writes to the context (\<open>None\<close>: none), and the output
  buffer with its address.  Bytes are numbers below 256.  \<open>AcceptSecurityContext\<close> reports the same.  \<open>su_acquire\<close> is given whether
  the credentials are for inbound use.
\<close>

record init_out =
  in_status :: int
  in_ctxt :: "nat option"
  in_buffer :: "(nat \<times> nat list) option"

record 'w secur32 =
  su_acquire :: "bool \<Rightarrow> string \<Rightarrow> 'w \<Rightarrow> 'w \<times> int \<times> nat"
  su_init :: "nat \<Rightarrow> nat option \<Rightarrow> string option \<Rightarrow> nat list option \<Rightarrow> 'w \<Rightarrow> 'w \<times> init_out"
  su_accept :: "nat \<Rightarrow> nat option \<Rightarrow> nat list \<Rightarrow> 'w \<Rightarrow> 'w \<times> init_out"
  su_complete :: "nat \<Rightarrow> 'w \<Rightarrow> 'w"
  su_free_buffer :: "nat \<Rightarrow> 'w \<Rightarrow> 'w"
  su_delete :: "nat \<Rightarrow> 'w \<Rightarrow> 'w"
  su_free_cred :: "nat \<Rightarrow> 'w \<Rightarrow> 'w"

datatype sec_res = Cred nat | Ctxt nat | Buffer nat

datatype sec_act = Take sec_res | Give sec_res

definition SEC_E_OK :: int where "SEC_E_OK = 0"
definition SEC_I_CONTINUE_NEEDED :: int where "SEC_I_CONTINUE_NEEDED = 0x00090312"
definition SEC_I_COMPLETE_NEEDED :: int where "SEC_I_COMPLETE_NEEDED = 0x00090313"
definition SEC_I_COMPLETE_AND_CONTINUE :: int where "SEC_I_COMPLETE_AND_CONTINUE = 0x00090314"

section \<open>The context\<close>

text \<open>A server's context, and a client's, which also has a target.\<close>

record ServerSSPIContext =
  sc_authPackage :: string
  sc_credHandle :: nat
  sc_ctxtHandle :: nat
  sc_hasCred :: bool
  sc_hasCtxt :: bool
  sc_completed :: bool

record SSPIContext = ServerSSPIContext +
  sc_targetSPN :: "string option"

text \<open>\<open>syscall.UTF16PtrFromString\<close> fails on a text with a zero byte.\<close>

definition has_zero :: "string \<Rightarrow> bool" where
  "has_zero s \<longleftrightarrow> CHR 0x00 \<in> set s"

definition NewSSPIContext :: "'w secur32 \<Rightarrow> string \<Rightarrow> string \<Rightarrow> 'w \<Rightarrow> 'w \<times> sec_act list \<times> (string + SSPIContext)" where
  "NewSSPIContext W packageType spn w =
     (let packageType = (if packageType = '''' then ''Negotiate'' else packageType)
      in if has_zero packageType then (w, [], Inl ''invalid package name'')
         else
           let spnPtr = (if spn \<noteq> '''' \<and> \<not> has_zero spn then Some spn else None);
               (w, status, cred) = su_acquire W False packageType w
           in if status \<noteq> SEC_E_OK then (w, [], Inl ''AcquireCredentialsHandle failed'')
              else (w, [Take (Cred cred)],
                Inr \<lparr>sc_authPackage = packageType, sc_credHandle = cred, sc_ctxtHandle = 0, sc_hasCred = True, sc_hasCtxt = False,
                     sc_completed = False, sc_targetSPN = spnPtr\<rparr>))"

definition NewServerSSPIContext :: "'w secur32 \<Rightarrow> string \<Rightarrow> 'w \<Rightarrow> 'w \<times> sec_act list \<times> (string + ServerSSPIContext)" where
  "NewServerSSPIContext W packageType w =
     (let packageType = (if packageType = '''' then ''Negotiate'' else packageType)
      in if has_zero packageType then (w, [], Inl ''invalid package name'')
         else
           let (w, status, cred) = su_acquire W True packageType w
           in if status \<noteq> SEC_E_OK then (w, [], Inl ''Server AcquireCredentialsHandle failed'')
              else (w, [Take (Cred cred)],
                Inr \<lparr>sc_authPackage = packageType, sc_credHandle = cred, sc_ctxtHandle = 0, sc_hasCred = True, sc_hasCtxt = False,
                     sc_completed = False\<rparr>))"

text \<open>The status after \<open>CompleteAuthToken\<close> was called where it is needed.\<close>

definition complete_token :: "'w secur32 \<Rightarrow> nat \<Rightarrow> int \<Rightarrow> 'w \<Rightarrow> 'w \<times> int" where
  "complete_token W ctxt status w =
     (if status = SEC_I_COMPLETE_NEEDED \<or> status = SEC_I_COMPLETE_AND_CONTINUE then
        (su_complete W ctxt w, if status = SEC_I_COMPLETE_NEEDED then SEC_E_OK else SEC_I_CONTINUE_NEEDED)
      else (w, status))"

text \<open>The copy of the output buffer, which is freed afterwards.\<close>

definition take_buffer :: "'w secur32 \<Rightarrow> (nat \<times> nat list) option \<Rightarrow> 'w \<Rightarrow> 'w \<times> sec_act list \<times> nat list" where
  "take_buffer W buf w =
     (case buf of
        None \<Rightarrow> (w, [], [])
      | Some (b, bytes) \<Rightarrow>
          if length bytes > 0 then (su_free_buffer W b w, [Take (Buffer b), Give (Buffer b)], bytes) else (w, [Take (Buffer b)], []))"

text \<open>What follows the call in either step.\<close>

definition after_call ::
  "'w secur32 \<Rightarrow> string \<Rightarrow> init_out \<Rightarrow> 'a ServerSSPIContext_scheme \<Rightarrow> 'w
    \<Rightarrow> 'a ServerSSPIContext_scheme \<times> 'w \<times> sec_act list \<times> (string + string \<times> bool)" where
  "after_call W err out c w =
     (let c = (case in_ctxt out of Some h \<Rightarrow> c\<lparr>sc_ctxtHandle := h\<rparr> | None \<Rightarrow> c);
          took = (case in_ctxt out of Some h \<Rightarrow> if h \<noteq> 0 then [Take (Ctxt h)] else [] | None \<Rightarrow> []);
          c = (if sc_ctxtHandle c \<noteq> 0 then c\<lparr>sc_hasCtxt := True\<rparr> else c);
          (w, status) = complete_token W (sc_ctxtHandle c) (in_status out) w;
          (w, freed, rawOutToken) = take_buffer W (in_buffer out) w
      in if status \<noteq> SEC_E_OK \<and> status \<noteq> SEC_I_CONTINUE_NEEDED then (c, w, took @ freed, Inl err)
         else
           let token = (if length rawOutToken > 0 then b64 rawOutToken else '''')
           in if status = SEC_E_OK then (c\<lparr>sc_completed := True\<rparr>, w, took @ freed, Inr (token, True))
              else (c, w, took @ freed, Inr (token, False)))"

definition NextStep :: "'w secur32 \<Rightarrow> string \<Rightarrow> SSPIContext \<Rightarrow> 'w \<Rightarrow> SSPIContext \<times> 'w \<times> sec_act list \<times> (string + string \<times> bool)" where
  "NextStep W serverToken c w =
     (if \<not> sc_hasCred c then (c, w, [], Inl ''SSPI context is not initialized with credentials'')
      else case (if serverToken = '''' then Some None else map_option Some (DecodeString serverToken)) of
        None \<Rightarrow> (c, w, [], Inl ''failed to decode base64 server token'')
      | Some inToken \<Rightarrow>
          let (w, out) = su_init W (sc_credHandle c) (if sc_hasCtxt c then Some (sc_ctxtHandle c) else None)
                (if sc_hasCtxt c then None else sc_targetSPN c) inToken w
          in after_call W ''InitializeSecurityContext failed'' out c w)"

definition AcceptStep ::
  "'w secur32 \<Rightarrow> string \<Rightarrow> ServerSSPIContext \<Rightarrow> 'w \<Rightarrow> ServerSSPIContext \<times> 'w \<times> sec_act list \<times> (string + string \<times> bool)" where
  "AcceptStep W clientToken c w =
     (if \<not> sc_hasCred c then (c, w, [], Inl ''Server SSPI context is not initialized with credentials'')
      else case DecodeString clientToken of
        None \<Rightarrow> (c, w, [], Inl ''failed to decode client token base64'')
      | Some inToken \<Rightarrow>
          let (w, out) = su_accept W (sc_credHandle c) (if sc_hasCtxt c then Some (sc_ctxtHandle c) else None) inToken w
          in after_call W ''AcceptSecurityContext failed'' out c w)"

text \<open>\<open>Release\<close>, the same for both contexts.\<close>

definition sspi_Release :: "'w secur32 \<Rightarrow> 'a ServerSSPIContext_scheme \<Rightarrow> 'w \<Rightarrow> 'a ServerSSPIContext_scheme \<times> 'w \<times> sec_act list" where
  "sspi_Release W c w =
     (let (c, w, a1) = (if sc_hasCtxt c then (c\<lparr>sc_hasCtxt := False\<rparr>, su_delete W (sc_ctxtHandle c) w, [Give (Ctxt (sc_ctxtHandle c))]) else (c, w, []));
          (c, w, a2) = (if sc_hasCred c then (c\<lparr>sc_hasCred := False\<rparr>, su_free_cred W (sc_credHandle c) w, [Give (Cred (sc_credHandle c))]) else (c, w, []))
      in (c, w, a1 @ a2))"

text \<open>A handshake: steps on the tokens of the other side up to the first error, with the last result.\<close>

fun sec_steps ::
  "(string \<Rightarrow> 'c \<Rightarrow> 'w \<Rightarrow> 'c \<times> 'w \<times> sec_act list \<times> (string + string \<times> bool)) \<Rightarrow> string list \<Rightarrow> 'c \<Rightarrow> 'w
    \<Rightarrow> 'c \<times> 'w \<times> sec_act list \<times> (string + string \<times> bool) option" where
  "sec_steps step [] c w = (c, w, [], None)"
| "sec_steps step (tok # toks) c w =
     (case step tok c w of
        (c, w, acts, res) \<Rightarrow>
          if isl res \<or> toks = [] then (c, w, acts, Some res)
          else (case sec_steps step toks c w of (c, w, acts', res) \<Rightarrow> (c, w, acts @ acts', res)))"

text \<open>The package as the negotiator sees it: what a context made in the state \<open>w0\<close> answers to the challenges so far.\<close>

definition win_sspi :: "'w secur32 \<Rightarrow> 'w \<Rightarrow> sspi" where
  "win_sspi W w0 =
     \<lparr>sp_new = (\<lambda>scheme spn. \<not> isl (snd (snd (NewSSPIContext W scheme spn w0)))),
      sp_step = (\<lambda>scheme spn challenges.
        case NewSSPIContext W scheme spn w0 of
          (w, _, Inr c) \<Rightarrow> (case sec_steps (NextStep W) challenges c w of (_, _, _, Some (Inr r)) \<Rightarrow> Some r | _ \<Rightarrow> None)
        | _ \<Rightarrow> None)\<rparr>"

section \<open>Nothing is kept\<close>

text \<open>The resources that are held after a trace, from those held before it.\<close>

fun held :: "sec_res set \<Rightarrow> sec_act list \<Rightarrow> sec_res set" where
  "held S [] = S"
| "held S (Take r # acts) = held (insert r S) acts"
| "held S (Give r # acts) = held (S - {r}) acts"

lemma held_append [simp]: "held S (xs @ ys) = held (held S xs) ys"
  by (induction S xs rule: held.induct) auto

text \<open>
  As documented: a call that continues a context writes no other handle, a handle that is written is not zero, and an output
  buffer is not empty.
\<close>

definition documented_out :: "nat option \<Rightarrow> init_out \<Rightarrow> bool" where
  "documented_out ctxt out \<longleftrightarrow> (case in_ctxt out of None \<Rightarrow> True | Some h \<Rightarrow> h \<noteq> 0 \<and> (ctxt \<noteq> None \<longrightarrow> ctxt = Some h))
      \<and> (case in_buffer out of None \<Rightarrow> True | Some (b, bytes) \<Rightarrow> bytes \<noteq> [])"

definition documented_package :: "'w secur32 \<Rightarrow> bool" where
  "documented_package W \<longleftrightarrow> (\<forall>cred ctxt spn tok w. documented_out ctxt (snd (su_init W cred ctxt spn tok w)))
     \<and> (\<forall>cred ctxt tok w. documented_out ctxt (snd (su_accept W cred ctxt tok w)))"

text \<open>What a context stands for.\<close>

definition holds :: "'a ServerSSPIContext_scheme \<Rightarrow> sec_res set" where
  "holds c = (if sc_hasCred c then {Cred (sc_credHandle c)} else {}) \<union> (if sc_hasCtxt c then {Ctxt (sc_ctxtHandle c)} else {})"

definition ctxt_ok :: "'a ServerSSPIContext_scheme \<Rightarrow> bool" where
  "ctxt_ok c \<longleftrightarrow> (sc_ctxtHandle c \<noteq> 0 \<longleftrightarrow> sc_hasCtxt c)"

lemma holds_no_buffer [simp]: "Buffer b \<notin> holds c"
  by (simp add: holds_def)

lemma take_buffer_held:
  assumes "take_buffer W buf w = (w', acts', bytes)" "case buf of None \<Rightarrow> True | Some (b, bytes) \<Rightarrow> bytes \<noteq> []"
  shows "held (holds c) acts' = holds c"
  using assms by (auto simp: take_buffer_def split: option.splits prod.splits if_splits)

text \<open>The context after the call, and what the call has taken.\<close>

lemma ctxt_after:
  assumes "ctxt_ok c" "case ctxt of None \<Rightarrow> True | Some h \<Rightarrow> h \<noteq> 0 \<and> (sc_hasCtxt c \<longrightarrow> h = sc_ctxtHandle c)"
    "c1 = (case ctxt of Some h \<Rightarrow> c\<lparr>sc_ctxtHandle := h\<rparr> | None \<Rightarrow> c)"
    "c2 = (if sc_ctxtHandle c1 \<noteq> 0 then c1\<lparr>sc_hasCtxt := True\<rparr> else c1)"
  shows "ctxt_ok c2 \<and> sc_hasCred c2 = sc_hasCred c
    \<and> held (holds c) (case ctxt of Some h \<Rightarrow> if h \<noteq> 0 then [Take (Ctxt h)] else [] | None \<Rightarrow> []) = holds c2"
  using assms by (auto simp: ctxt_ok_def holds_def split: option.splits)

lemma holds_completed [simp]: "holds (c\<lparr>sc_completed := b\<rparr>) = holds c" "ctxt_ok (c\<lparr>sc_completed := b\<rparr>) = ctxt_ok c"
  by (simp_all add: holds_def ctxt_ok_def)

text \<open>A step keeps the books: what it takes and gives is what the context stands for afterwards.\<close>

definition keeps_books :: "('a ServerSSPIContext_scheme \<Rightarrow> 'w \<Rightarrow> 'a ServerSSPIContext_scheme \<times> 'w \<times> sec_act list \<times> 'r) \<Rightarrow> bool" where
  "keeps_books f \<longleftrightarrow> (\<forall>c w c' w' acts r. ctxt_ok c \<and> f c w = (c', w', acts, r) \<longrightarrow>
     ctxt_ok c' \<and> held (holds c) acts = holds c' \<and> sc_hasCred c' = sc_hasCred c)"

lemma after_call_holds:
  assumes doc: "documented_out (if sc_hasCtxt c then Some (sc_ctxtHandle c) else None) out" and ok: "ctxt_ok c"
    and st: "after_call W err out c w = (c', w', acts, res)"
  shows "ctxt_ok c' \<and> held (holds c) acts = holds c' \<and> sc_hasCred c' = sc_hasCred c"
proof -
  define c1 where "c1 = (case in_ctxt out of Some h \<Rightarrow> c\<lparr>sc_ctxtHandle := h\<rparr> | None \<Rightarrow> c)"
  define c2 where "c2 = (if sc_ctxtHandle c1 \<noteq> 0 then c1\<lparr>sc_hasCtxt := True\<rparr> else c1)"
  let ?took = "case in_ctxt out of Some h \<Rightarrow> if h \<noteq> 0 then [Take (Ctxt h)] else [] | None \<Rightarrow> []"
  obtain w2 status where s: "complete_token W (sc_ctxtHandle c2) (in_status out) w = (w2, status)"
    by fastforce
  obtain w3 freed raw where b: "take_buffer W (in_buffer out) w2 = (w3, freed, raw)"
    using prod_cases3 by blast
  have after: "ctxt_ok c2" "sc_hasCred c2 = sc_hasCred c" "held (holds c) ?took = holds c2"
    using ctxt_after [OF ok _ c1_def c2_def] doc by (auto simp: documented_out_def split: option.splits if_splits)
  have "acts = ?took @ freed \<and> (c' = c2 \<or> c' = c2\<lparr>sc_completed := True\<rparr>)"
    using st by (simp only: after_call_def Let_def prod.case c1_def [symmetric] c2_def [symmetric] s b) (auto split: if_splits)
  then show ?thesis
    using after take_buffer_held [OF b] doc by (auto simp: documented_out_def)
qed

lemma NextStep_books: "documented_package W \<Longrightarrow> keeps_books (NextStep W tok)"
  unfolding keeps_books_def
proof (intro allI impI, elim conjE)
  fix c w c' w' acts r
  assume d: "documented_package W" and c: "ctxt_ok c" and st: "NextStep W tok c w = (c', w', acts, r)"
  have doc: "documented_out ctxt out" if "su_init W cred ctxt spn t w0 = (w1, out)" for cred ctxt spn t w0 w1 out
    using d that unfolding documented_package_def by (metis snd_conv)
  show "ctxt_ok c' \<and> held (holds c) acts = holds c' \<and> sc_hasCred c' = sc_hasCred c"
    using st c by (auto simp: NextStep_def Let_def split: if_splits option.splits prod.splits dest!: after_call_holds [OF doc, rotated 2])
qed

lemma AcceptStep_books: "documented_package W \<Longrightarrow> keeps_books (AcceptStep W tok)"
  unfolding keeps_books_def
proof (intro allI impI, elim conjE)
  fix c w c' w' acts r
  assume d: "documented_package W" and c: "ctxt_ok c" and st: "AcceptStep W tok c w = (c', w', acts, r)"
  have doc: "documented_out ctxt out" if "su_accept W cred ctxt t w0 = (w1, out)" for cred ctxt t w0 w1 out
    using d that unfolding documented_package_def by (metis snd_conv)
  show "ctxt_ok c' \<and> held (holds c) acts = holds c' \<and> sc_hasCred c' = sc_hasCred c"
    using st c by (auto simp: AcceptStep_def Let_def split: if_splits option.splits prod.splits dest!: after_call_holds [OF doc, rotated 2])
qed

lemma sec_steps_books:
  assumes "\<And>tok. keeps_books (step tok)"
  shows "keeps_books (sec_steps step toks)"
proof (induction toks)
  case (Cons tok toks)
  show ?case
    unfolding keeps_books_def
  proof (intro allI impI, elim conjE)
    fix c w c' w' acts r
    assume c: "ctxt_ok c" and st: "sec_steps step (tok # toks) c w = (c', w', acts, r)"
    obtain c1 w1 a1 r1 where one: "step tok c w = (c1, w1, a1, r1)"
      using prod_cases4 by blast
    have b: "ctxt_ok c1" "held (holds c) a1 = holds c1" "sc_hasCred c1 = sc_hasCred c"
      using assms [of tok] c one unfolding keeps_books_def by blast+
    show "ctxt_ok c' \<and> held (holds c) acts = holds c' \<and> sc_hasCred c' = sc_hasCred c"
    proof (cases "isl r1 \<or> toks = []")
      case True
      then show ?thesis
        using b one st by auto
    next
      case False
      obtain a2 where a2: "sec_steps step toks c1 w1 = (c', w', a2, r)" "acts = a1 @ a2"
        using False one st by (auto split: prod.splits)
      have "ctxt_ok c' \<and> held (holds c1) a2 = holds c' \<and> sc_hasCred c' = sc_hasCred c1"
        using Cons.IH b(1) a2(1) unfolding keeps_books_def by blast
      then show ?thesis
        using b a2(2) by auto
    qed
  qed
qed (simp add: keeps_books_def)

lemma Release_holds:
  assumes "sspi_Release W c w = (c', w', acts)"
  shows "held (holds c) acts = {} \<and> holds c' = {}"
  using assms by (auto simp: sspi_Release_def holds_def split: if_splits)

text \<open>A new context, steps that keep the books, and the release.\<close>

lemma gives_back:
  assumes "\<And>tok. keeps_books (step tok)" "ctxt_ok c" "held {} acts0 = holds c"
  shows "case sec_steps step tokens c w1 of (c2, w2, acts, res) \<Rightarrow>
        (case sspi_Release W c2 w2 of (c3, w3, acts') \<Rightarrow>
          held {} (acts0 @ acts @ acts') = {} \<and> snd (snd (sspi_Release W c3 w3)) = [])"
proof -
  obtain c2 w2 acts res where st: "sec_steps step tokens c w1 = (c2, w2, acts, res)"
    using prod_cases4 by blast
  obtain c3 w3 acts' where rel: "sspi_Release W c2 w2 = (c3, w3, acts')"
    using prod_cases3 by blast
  have "held (holds c) acts = holds c2"
    using sec_steps_books [where step = step and toks = tokens, OF assms(1)] assms(2) st unfolding keeps_books_def by blast
  moreover have "held (holds c2) acts' = {}" "\<not> sc_hasCred c3" "\<not> sc_hasCtxt c3"
    using Release_holds [OF rel] by (auto simp: holds_def split: if_splits)
  ultimately show ?thesis
    using assms(3) st rel by (simp add: sspi_Release_def [of W c3 w3])
qed


text \<open>The token of a step is the output of the package, which the proxy can read back.\<close>

lemma NextStep_token:
  assumes "NextStep W tok c w = (c', w', acts, Inr (token, fin))" "token \<noteq> ''''"
    "\<And>cred ctxt spn t w. case in_buffer (snd (su_init W cred ctxt spn t w)) of None \<Rightarrow> True | Some (_, bytes) \<Rightarrow> \<forall>x \<in> set bytes. x < 256"
  shows "\<exists>cred ctxt spn t w b bytes. in_buffer (snd (su_init W cred ctxt spn t w)) = Some (b, bytes) \<and> DecodeString token = Some bytes"
proof -
  obtain inToken w1 out w2 status w3 freed raw where i: "su_init W (sc_credHandle c) (if sc_hasCtxt c then Some (sc_ctxtHandle c) else None)
      (if sc_hasCtxt c then None else sc_targetSPN c) inToken w = (w1, out)"
    "take_buffer W (in_buffer out) w2 = (w3, freed, raw)" "token = b64 raw" "raw \<noteq> []"
    using assms(1,2) by (auto simp: NextStep_def after_call_def Let_def split: if_splits option.splits prod.splits)
  then obtain b where "in_buffer out = Some (b, raw)"
    by (auto simp: take_buffer_def split: option.splits prod.splits if_splits)
  moreover from this have "\<forall>x \<in> set raw. x < 256"
    using assms(3) [where w = w] i(1) by (metis (mono_tags, lifting) case_prod_conv option.simps(5) snd_conv)
  ultimately show ?thesis
    using i(1,3) DecodeString_encode by (metis snd_conv)
qed

text \<open>A package whose handshake takes two steps on either side.\<close>

definition two_steps :: "nat option \<Rightarrow> nat \<Rightarrow> nat \<times> init_out" where
  "two_steps ctxt w = (w + 1, \<lparr>in_status = (if ctxt = None then SEC_I_CONTINUE_NEEDED else SEC_E_OK),
     in_ctxt = (case ctxt of Some h \<Rightarrow> None | None \<Rightarrow> Some 9), in_buffer = Some (w, [1, 2, 3])\<rparr>)"

definition two_step_package :: "nat secur32" where
  "two_step_package = \<lparr>su_acquire = (\<lambda>_ _ w. (w, 0, 7)), su_init = (\<lambda>_ ctxt _ _ w. two_steps ctxt w), su_accept = (\<lambda>_ ctxt _ w. two_steps ctxt w),
     su_complete = (\<lambda>_ w. w), su_free_buffer = (\<lambda>_ w. w), su_delete = (\<lambda>_ w. w), su_free_cred = (\<lambda>_ w. w)\<rparr>"

lemma two_step_documented: "documented_package two_step_package"
  by (simp add: documented_package_def documented_out_def two_step_package_def two_steps_def split: option.split)

definition sample_context :: SSPIContext where
  "sample_context = \<lparr>sc_authPackage = ''NTLM'', sc_credHandle = 7, sc_ctxtHandle = 0, sc_hasCred = True, sc_hasCtxt = False,
     sc_completed = False, sc_targetSPN = None\<rparr>"

definition sample_server_context :: ServerSSPIContext where
  "sample_server_context = \<lparr>sc_authPackage = ''NTLM'', sc_credHandle = 7, sc_ctxtHandle = 0, sc_hasCred = True, sc_hasCtxt = False,
     sc_completed = False\<rparr>"

lemma sample_contexts:
  "NewSSPIContext two_step_package ''NTLM'' '''' 0 = (0, [Take (Cred 7)], Inr sample_context)"
  "NewServerSSPIContext two_step_package ''NTLM'' 0 = (0, [Take (Cred 7)], Inr sample_server_context)"
  by (simp_all add: NewSSPIContext_def NewServerSSPIContext_def two_step_package_def has_zero_def SEC_E_OK_def sample_context_def
      sample_server_context_def)


end
