(* ===== verification/PacWindows.thy ===== *)
theory PacWindows
  imports PacResolver
begin

text \<open>
  The Windows session of the resolver, \<open>internal/pac/winhttp_windows.go\<close> and \<open>pac_windows.go\<close>: evaluation of a PAC file by WinHTTP and
  the proxy settings of the user.  The functions of \<open>winhttp.dll\<close> are parameters; a pointer to a text is the memory it
  points to, \<open>None\<close> for a null pointer.  The session is shown to provide what the resolver relies on.
\<close>

section \<open>WinHTTP\<close>

type_synonym wide = "uint16 list option"

record autoproxy_options =
  DwFlags :: uint32
  DwAutoDetectFlags :: uint32
  LpszAutoConfigUrl :: "string option"
  FAutoLogonIfChallenged :: bool

record WinHttpProxyInfo =
  DwAccessType :: uint32
  LpszProxy :: wide
  LpszProxyBypass :: wide

record WinHttpCurrentUserIEProxyConfig =
  ie_FAutoDetect :: int
  ie_LpszAutoConfigUrl :: wide
  ie_LpszProxy :: wide
  ie_LpszProxyBypass :: wide

text \<open>
  \<open>wi_decode\<close> is \<open>syscall.UTF16ToString\<close>.  \<open>wi_open\<close> gives a handle for a user agent, 0 on failure; the answer of
  \<open>wi_proxy_for\<close> depends on the target and the options only.  \<open>None\<close> is a call that fails.
\<close>

record winhttp =
  wi_decode :: "uint16 list \<Rightarrow> string"
  wi_open :: "string \<Rightarrow> nat"
  wi_proxy_for :: "string \<Rightarrow> autoproxy_options \<Rightarrow> WinHttpProxyInfo option"
  wi_ie_config :: "WinHttpCurrentUserIEProxyConfig option"
  wi_detect :: "uint32 \<Rightarrow> wide option"

definition WINHTTP_ACCESS_TYPE_NO_PROXY :: uint32 where "WINHTTP_ACCESS_TYPE_NO_PROXY = 1"
definition WINHTTP_ACCESS_TYPE_NAMED_PROXY :: uint32 where "WINHTTP_ACCESS_TYPE_NAMED_PROXY = 3"
definition WINHTTP_AUTOPROXY_AUTO_DETECT :: uint32 where "WINHTTP_AUTOPROXY_AUTO_DETECT = 1"
definition WINHTTP_AUTOPROXY_CONFIG_URL :: uint32 where "WINHTTP_AUTOPROXY_CONFIG_URL = 2"
definition WINHTTP_AUTO_DETECT_TYPE_DHCP :: uint32 where "WINHTTP_AUTO_DETECT_TYPE_DHCP = 1"
definition WINHTTP_AUTO_DETECT_TYPE_DNS_A :: uint32 where "WINHTTP_AUTO_DETECT_TYPE_DNS_A = 2"

text \<open>\<open>syscall.UTF16PtrFromString\<close> fails on a text with a zero byte; the loop over a text ends at the first zero.\<close>

definition zero_free :: "string \<Rightarrow> bool" where
  "zero_free s \<longleftrightarrow> CHR 0x00 \<notin> set s"

definition utf16PtrToString :: "winhttp \<Rightarrow> wide \<Rightarrow> string" where
  "utf16PtrToString W ptr = (case ptr of None \<Rightarrow> '''' | Some mem \<Rightarrow> wi_decode W (takeWhile (\<lambda>w. w \<noteq> 0) mem))"

text \<open>Memory that was handed out and is freed at the end of a call.\<close>

definition free_all :: "wide list \<Rightarrow> uint16 list list" where
  "free_all ptrs = map the (filter (\<lambda>p. p \<noteq> None) ptrs)"

section \<open>The session\<close>

record WinHTTPSession =
  wh_handle :: nat

definition NewWinHTTPSession :: "winhttp \<Rightarrow> string \<Rightarrow> string + WinHTTPSession" where
  "NewWinHTTPSession W userAgent =
     (if \<not> zero_free userAgent then Inl ''invalid argument''
      else if wi_open W userAgent = 0 then Inl ''WinHttpOpen failed''
      else Inr \<lparr>wh_handle = wi_open W userAgent\<rparr>)"

definition proxy_options :: "string \<Rightarrow> autoproxy_options" where
  "proxy_options pacURL =
     (if pacURL \<noteq> '''' then
        \<lparr>DwFlags = WINHTTP_AUTOPROXY_CONFIG_URL, DwAutoDetectFlags = 0, LpszAutoConfigUrl = Some pacURL, FAutoLogonIfChallenged = True\<rparr>
      else
        \<lparr>DwFlags = WINHTTP_AUTOPROXY_AUTO_DETECT, DwAutoDetectFlags = WINHTTP_AUTO_DETECT_TYPE_DHCP OR WINHTTP_AUTO_DETECT_TYPE_DNS_A,
         LpszAutoConfigUrl = None, FAutoLogonIfChallenged = True\<rparr>)"

text \<open>The evaluation, with the memory it frees.\<close>

definition win_GetProxyForURL :: "winhttp \<Rightarrow> string \<Rightarrow> string \<Rightarrow> WinHTTPSession \<Rightarrow> pac_answer \<times> uint16 list list" where
  "win_GetProxyForURL W targetURL pacURL s =
     (if wh_handle s = 0 then ((False, '''', Some ''WinHTTP session is not opened''), [])
      else if \<not> zero_free targetURL then ((False, '''', Some ''invalid target URL''), [])
      else if pacURL \<noteq> '''' \<and> \<not> zero_free pacURL then ((False, '''', Some ''invalid PAC URL''), [])
      else case wi_proxy_for W targetURL (proxy_options pacURL) of
        None \<Rightarrow> ((False, '''', Some ''WinHttpGetProxyForUrl failed''), [])
      | Some proxyInfo \<Rightarrow>
          (if DwAccessType proxyInfo = WINHTTP_ACCESS_TYPE_NO_PROXY then (True, '''', None)
           else if DwAccessType proxyInfo = WINHTTP_ACCESS_TYPE_NAMED_PROXY \<and> LpszProxy proxyInfo \<noteq> None
             then (False, utf16PtrToString W (LpszProxy proxyInfo), None)
           else (True, '''', None),
           free_all [LpszProxy proxyInfo, LpszProxyBypass proxyInfo]))"

definition win_Close :: "WinHTTPSession \<Rightarrow> WinHTTPSession" where
  "win_Close s = (if wh_handle s \<noteq> 0 then s\<lparr>wh_handle := 0\<rparr> else s)"

section \<open>The settings of the user\<close>

record IEProxyConfig =
  ic_AutoDetect :: bool
  ic_AutoConfigURL :: string
  ic_Proxy :: string
  ic_ProxyBypass :: string

definition GetIEProxyConfigForCurrentUser :: "winhttp \<Rightarrow> IEProxyConfig option \<times> uint16 list list" where
  "GetIEProxyConfigForCurrentUser W =
     (case wi_ie_config W of
        None \<Rightarrow> (None, [])
      | Some cfg \<Rightarrow>
          (Some \<lparr>ic_AutoDetect = (ie_FAutoDetect cfg \<noteq> 0), ic_AutoConfigURL = utf16PtrToString W (ie_LpszAutoConfigUrl cfg),
             ic_Proxy = utf16PtrToString W (ie_LpszProxy cfg), ic_ProxyBypass = utf16PtrToString W (ie_LpszProxyBypass cfg)\<rparr>,
           free_all [ie_LpszAutoConfigUrl cfg, ie_LpszProxy cfg, ie_LpszProxyBypass cfg]))"

definition DetectAutoProxyConfigURL :: "winhttp \<Rightarrow> string option \<times> uint16 list list" where
  "DetectAutoProxyConfigURL W =
     (case wi_detect W (WINHTTP_AUTO_DETECT_TYPE_DHCP OR WINHTTP_AUTO_DETECT_TYPE_DNS_A) of
        None \<Rightarrow> (None, [])
      | Some None \<Rightarrow> (Some '''', [])
      | Some (Some mem) \<Rightarrow> (Some (utf16PtrToString W (Some mem)), [mem]))"

definition win_detectOSProxy :: "winhttp \<Rightarrow> osProxyConfig option" where
  "win_detectOSProxy W =
     (case fst (GetIEProxyConfigForCurrentUser W) of
        None \<Rightarrow> None
      | Some ieCfg \<Rightarrow>
          let cfg = \<lparr>AutoConfigURL = ic_AutoConfigURL ieCfg, os_Proxy = ic_Proxy ieCfg, AutoDetect = ic_AutoDetect ieCfg\<rparr>
          in if AutoConfigURL cfg = '''' \<and> os_Proxy cfg = '''' \<and> AutoDetect cfg then
               (case fst (DetectAutoProxyConfigURL W) of
                  Some wpadURL \<Rightarrow> if wpadURL \<noteq> '''' then Some (cfg\<lparr>AutoConfigURL := wpadURL\<rparr>) else Some cfg
                | None \<Rightarrow> Some cfg)
             else Some cfg)"

definition win_createPACSession :: "winhttp \<Rightarrow> string \<Rightarrow> string + WinHTTPSession" where
  "win_createPACSession W userAgent =
     (case NewWinHTTPSession W userAgent of
        Inl err \<Rightarrow> Inl (''failed to initialize WinHTTP session for PAC: '' @ err)
      | Inr session \<Rightarrow> Inr session)"

definition win_backend :: "winhttp \<Rightarrow> WinHTTPSession backend" where
  "win_backend W = \<lparr>pb_create = win_createPACSession W, pb_get = (\<lambda>u p s. (s, fst (win_GetProxyForURL W u p s))), pb_close = win_Close,
     pb_detect = win_detectOSProxy W\<rparr>"

section \<open>What the session provides\<close>

text \<open>Every open session gives the same answers.\<close>

definition win_ok :: "WinHTTPSession \<Rightarrow> bool" where
  "win_ok s \<longleftrightarrow> wh_handle s \<noteq> 0"

definition win_answer :: "winhttp \<Rightarrow> string \<Rightarrow> string \<Rightarrow> pac_answer" where
  "win_answer W p u = fst (win_GetProxyForURL W u p \<lparr>wh_handle = 1\<rparr>)"

interpretation windows: pac_backend "win_backend W" win_ok "win_answer W" for W
  by unfold_locales
    (auto simp: win_backend_def win_createPACSession_def NewWinHTTPSession_def win_ok_def win_answer_def win_GetProxyForURL_def
      split: sum.splits if_splits)

text \<open>All memory that WinHTTP hands out is freed by the call that gets it.\<close>

lemma GetProxyForURL_frees:
  assumes "wi_proxy_for W u (proxy_options p) = Some info" "wh_handle s \<noteq> 0" "zero_free u" "zero_free p"
  shows "set (snd (win_GetProxyForURL W u p s)) = {mem. LpszProxy info = Some mem \<or> LpszProxyBypass info = Some mem}"
  using assms by (auto simp: win_GetProxyForURL_def free_all_def)

text \<open>
  The decision cache is invisible on Windows as well: after any sequence of resolutions, reconfigurations, cleanups and a close
  on a new resolver with the session of WinHTTP, a resolution returns exactly what one without any cache would return under
  the current configuration; the counter counts the entries, and there are never more than 2000.
\<close>

theorem windows_resolve_transparent:
  assumes "NewResolver U (win_backend W) pacURL staticProxy = Inr r0" and "r = fold (pac_step U L (win_backend W)) ops r0"
  shows "snd (Resolve U L (win_backend W) now host port r) = uncached (win_answer W) U L host port r
    \<and> rs_cacheSize r = int (length (rs_cache r)) \<and> length (rs_cache r) \<le> 2000"
proof -
  have ok: "windows.resolver_ok W U L r"
    unfolding assms(2) by (rule windows.run_ok [OF windows.new_ok [OF assms(1)]])
  then show ?thesis
    using windows.Resolve_spec(1) [OF ok] by (auto simp: windows.resolver_ok_def cache_ok_def maxCacheEntries_def)
qed

definition sample_winhttp :: winhttp where
  "sample_winhttp = \<lparr>wi_decode = map (\<lambda>w. char_of (unat w)), wi_open = (\<lambda>_. 1),
     wi_proxy_for = (\<lambda>_ _. Some \<lparr>DwAccessType = 3, LpszProxy = Some [112, 58, 56, 0], LpszProxyBypass = None\<rparr>), wi_ie_config = None,
     wi_detect = (\<lambda>_. None)\<rparr>"

theorem windows_resolve_transparent_witness:
  "\<exists>r. NewResolver plain_unicode (win_backend sample_winhttp) ''http://wpad/p.pac'' '''' = Inr r
    \<and> snd (Resolve plain_unicode sample_urls (win_backend sample_winhttp) 5 ''example.com'' 443 r)
      = uncached (win_answer sample_winhttp) plain_unicode sample_urls ''example.com'' 443 r"
proof -
  have create: "pb_create (win_backend sample_winhttp) ''tproxy-pac/1.0'' = Inr \<lparr>wh_handle = 1\<rparr>"
    by (simp add: win_backend_def win_createPACSession_def NewWinHTTPSession_def sample_winhttp_def zero_free_def)
  have "\<exists>r. NewResolver plain_unicode (win_backend sample_winhttp) ''http://wpad/p.pac'' '''' = Inr r"
    by (simp add: NewResolver_def create Let_def split: prod.split)
  then obtain r where r: "NewResolver plain_unicode (win_backend sample_winhttp) ''http://wpad/p.pac'' '''' = Inr r"
    by blast
  from windows_resolve_transparent [OF r, of _ sample_urls "[]" 5 "''example.com''" 443] r show ?thesis
    by simp
qed

text \<open>
  The settings of a user who has a proxy for each protocol, or exceptions: the text is taken for the address of one proxy, and
  the exceptions are left out.
\<close>

lemma protocol_list_is_one_address:
  "static_decision plain_unicode L ''http=a:80;https=b:80'' = via ''http://http=a:80;https=b:80''"
proof -
  have "TrimSpace plain_unicode ''http=a:80;https=b:80'' = ''http=a:80;https=b:80''" "\<not> Contains ''http=a:80;https=b:80'' ''://''"
    by code_simp+
  then show ?thesis
    by (simp add: static_decision_def normalizeProxyURL_def Let_def)
qed

end
