(* ===== verification/DohTransport.thy ===== *)
theory DohTransport
  imports DnsEngine PacResolver Forwarder
begin

text \<open>
  The HTTP transport of the DNS-over-HTTPS client, \<open>NewDoHClient\<close> in \<open>internal/dns/doh_client.go\<close>: its limits and the hook
  that asks the resolver of proxies for the route to a server.  The rest of \<open>net/http\<close> is the parameter \<open>net\<close>, the exchange
  over a route; \<open>parse\<close> is \<open>url.Parse\<close>.

  The lemmas show that a query goes where the resolver sends port 443 of the server under the current configuration, that it
  takes the proxy the forwarder would take, and where the two differ: the names of Windows domains in proxy URLs.
\<close>

section \<open>The transport\<close>

text \<open>The hook: the route to the host of a request, \<open>None\<close> for a direct connection, or an error.\<close>

type_synonym 's proxy_hook = "'s Resolver \<Rightarrow> string \<Rightarrow> 's Resolver \<times> (string + purl option)"

record 's transport =
  tr_dialTimeout :: int
  tr_InsecureSkipVerify :: bool
  tr_MaxIdleConns :: nat
  tr_MaxIdleConnsPerHost :: nat
  tr_IdleConnTimeout :: int
  tr_TLSHandshakeTimeout :: int
  tr_ExpectContinueTimeout :: int
  tr_ForceAttemptHTTP2 :: bool
  tr_Proxy :: "'s proxy_hook option"

definition doh_proxy :: "(string \<Rightarrow> purl option) \<Rightarrow> unicode \<Rightarrow> urls \<Rightarrow> 's backend \<Rightarrow> int \<Rightarrow> 's proxy_hook" where
  "doh_proxy parse U L B now r requestURL =
     (let host = url_Hostname L requestURL; port = 443
      in case Resolve U L B now host port r of
           (r, decision) \<Rightarrow>
             if IsDirect decision \<or> ProxyURL decision = '''' then (r, Inr None)
             else (case parse (ProxyURL decision) of
                     None \<Rightarrow> (r, Inl ''invalid proxy URL'')
                   | Some u \<Rightarrow> (r, Inr (Some u))))"

definition NewDoHTransport :: "int \<Rightarrow> 's proxy_hook option \<Rightarrow> 's transport" where
  "NewDoHTransport timeout pacResolver =
     (let timeout = (if timeout \<le> 0 then 3 * second else timeout)
      in \<lparr>tr_dialTimeout = timeout, tr_InsecureSkipVerify = False, tr_MaxIdleConns = 100, tr_MaxIdleConnsPerHost = 10,
          tr_IdleConnTimeout = 90 * second, tr_TLSHandshakeTimeout = timeout, tr_ExpectContinueTimeout = 1 * second,
          tr_ForceAttemptHTTP2 = True, tr_Proxy = pacResolver\<rparr>)"

text \<open>
  A \<open>POST\<close> over the transport: an error of the hook is the error of the request, otherwise the exchange is over the route
  (\<open>Transport.Proxy\<close> of \<open>net/http\<close>).
\<close>

definition transport_post :: "'s transport \<Rightarrow> 's Resolver \<Rightarrow> (purl option \<Rightarrow> http_post) \<Rightarrow> http_post" where
  "transport_post tr r net u body =
     (case tr_Proxy tr of
        None \<Rightarrow> net None u body
      | Some hook \<Rightarrow> (case snd (hook r u) of Inl err \<Rightarrow> DoError err | Inr route \<Rightarrow> net route u body))"

section \<open>The route of a query\<close>

text \<open>The route that a decision means.\<close>

definition route_of :: "(string \<Rightarrow> purl option) \<Rightarrow> ProxyDecision \<Rightarrow> string + purl option" where
  "route_of parse d =
     (if IsDirect d \<or> ProxyURL d = '''' then Inr None
      else case parse (ProxyURL d) of None \<Rightarrow> Inl ''invalid proxy URL'' | Some u \<Rightarrow> Inr (Some u))"

lemma doh_proxy_route:
  "snd (doh_proxy parse U L B now r u) = route_of parse (snd (Resolve U L B now (url_Hostname L u) 443 r))"
  "fst (doh_proxy parse U L B now r u) = fst (Resolve U L B now (url_Hostname L u) 443 r)"
  by (simp_all add: doh_proxy_def route_of_def Let_def split: prod.splits option.splits)

lemma transport_limits:
  "0 < tr_dialTimeout (NewDoHTransport t h)" "0 < tr_TLSHandshakeTimeout (NewDoHTransport t h)"
  "tr_dialTimeout (NewDoHTransport t h) = doh_timeout (NewDoHClient t)"
  by (simp_all add: NewDoHTransport_def NewDoHClient_def clamp_timeout_def second_def Let_def)

text \<open>The queries of a client with a resolver are those of a client on the route of the decision.\<close>

context pac_backend
begin

lemma query_follows_resolver:
  assumes "resolver_ok U L r" and "url_Hostname L (BuildDoHURL ip) = IP_String ip"
  shows "QueryDoH (transport_post (NewDoHTransport t (Some (doh_proxy parse U L B now))) r net) ip q =
    (case route_of parse (uncached answer U L (IP_String ip) 443 r) of
       Inl err \<Rightarrow> Inl (''DoH query to '' @ BuildDoHURL ip @ '' failed: '' @ err)
     | Inr route \<Rightarrow> QueryDoH (net route) ip q)"
  using assms Resolve_spec(1) [OF assms(1)]
  by (auto simp: QueryDoH_def transport_post_def NewDoHTransport_def doh_proxy_route Let_def split: sum.splits)

lemma query_keeps_resolver:
  "resolver_ok U L r \<Longrightarrow> resolver_ok U L (fst (doh_proxy parse U L B now r u))"
  by (simp add: doh_proxy_route Resolve_spec)

end

lemma doh_follows_resolver_linux:
  assumes "NewResolver U (linux_backend U L G N env) pacURL staticProxy = Inr r0"
    and "r = fold (pac_step U L (linux_backend U L G N env)) ops r0"
    and "url_Hostname L (BuildDoHURL ip) = IP_String ip"
  shows "QueryDoH (transport_post (NewDoHTransport t (Some (doh_proxy parse U L (linux_backend U L G N env) now))) r net) ip q =
    (case route_of parse (uncached (linux_answer U L G N) U L (IP_String ip) 443 r) of
       Inl err \<Rightarrow> Inl (''DoH query to '' @ BuildDoHURL ip @ '' failed: '' @ err)
     | Inr route \<Rightarrow> QueryDoH (net route) ip q)"
  unfolding assms(2)
  by (rule linux.query_follows_resolver [OF linux.run_ok [OF linux.new_ok [OF assms(1)]] assms(3)])

section \<open>The forwarder takes the same proxy\<close>

text \<open>
  The proxy that \<open>DialOutbound\<close> uses for a decision.  The forwarder escapes the backslashes in the user information of the
  URL first, the client does not.
\<close>

definition forwarder_route :: "(string \<Rightarrow> purl option) \<Rightarrow> unicode \<Rightarrow> ProxyDecision \<Rightarrow> string + purl option" where
  "forwarder_route parse U d =
     (if IsDirect d \<or> ProxyURL d = '''' then Inr None
      else case parse (SanitizeProxyURL U (ProxyURL d)) of None \<Rightarrow> Inl ''invalid proxy URL'' | Some u \<Rightarrow> Inr (Some u))"

lemma same_proxy:
  "SanitizeProxyURL U (ProxyURL d) = ProxyURL d \<Longrightarrow> route_of parse d = forwarder_route parse U d"
  by (simp add: route_of_def forwarder_route_def)

text \<open>
  They part on the names of Windows domains, which \<open>url.Parse\<close> refuses in user information.  Without a scheme in the
  configuration the forwarder reaches the proxy and the client's request fails; with one, the URL that the forwarder gets has
  already been given a second scheme by the resolver, so that its host is \<open>http\<close>.
\<close>

definition domain_proxy :: string where
  "domain_proxy = ''CORP'' @ CHR 0x5C # ''user:pw@proxy:8080''"

definition refuses_backslash :: "urls \<Rightarrow> (string \<Rightarrow> purl option) \<Rightarrow> bool" where
  "refuses_backslash L parse \<longleftrightarrow>
     (\<forall>user rest. CHR 0x5C \<in> set user \<and> set user \<inter> set ''/?#@'' = {} \<longrightarrow>
        \<not> url_ok L (''http://'' @ user @ CHR 0x40 # rest) \<and> parse (''http://'' @ user @ CHR 0x40 # rest) = None)"

lemma refuses_backslash_sample:
  "refuses_backslash (sample_urls\<lparr>url_ok := \<lambda>u. CHR 0x5C \<notin> set u\<rparr>) (\<lambda>u. if CHR 0x5C \<in> set u then None else Some p)"
  by (simp add: refuses_backslash_def)

lemma domain_proxy_refused:
  assumes "refuses_backslash L parse"
  shows "\<not> url_ok L (''http://'' @ domain_proxy)" and "parse (''http://'' @ domain_proxy) = None"
proof -
  let ?user = "''CORP'' @ CHR 0x5C # ''user:pw''"
  have u: "''http://'' @ domain_proxy = ''http://'' @ ?user @ CHR 0x40 # ''proxy:8080''"
    by (simp add: domain_proxy_def)
  have "\<not> url_ok L (''http://'' @ ?user @ CHR 0x40 # ''proxy:8080'') \<and> parse (''http://'' @ ?user @ CHR 0x40 # ''proxy:8080'') = None"
    by (rule assms [unfolded refuses_backslash_def, rule_format]) simp
  then show "\<not> url_ok L (''http://'' @ domain_proxy)" "parse (''http://'' @ domain_proxy) = None"
    unfolding u by simp_all
qed

lemma domain_proxy_shape:
  "TrimSpace plain_unicode domain_proxy = domain_proxy" "\<not> Contains domain_proxy ''://''"
  "TrimSpace plain_unicode (''http://'' @ domain_proxy) = ''http://'' @ domain_proxy"
  "Contains (''http://'' @ domain_proxy) ''://''"
  by code_simp+

lemma domain_proxy_normalized:
  assumes "refuses_backslash L parse"
  shows "normalizeProxyURL plain_unicode L domain_proxy = ''http://'' @ domain_proxy"
    and "normalizeProxyURL plain_unicode L (''http://'' @ domain_proxy) = ''http://http://'' @ domain_proxy"
proof -
  show "normalizeProxyURL plain_unicode L domain_proxy = ''http://'' @ domain_proxy"
    "normalizeProxyURL plain_unicode L (''http://'' @ domain_proxy) = ''http://http://'' @ domain_proxy"
    using domain_proxy_refused(1) [OF assms]
    unfolding normalizeProxyURL_def domain_proxy_shape by (simp_all add: domain_proxy_shape Let_def)
qed

lemma domain_proxy_sanitized:
  "SanitizeProxyURL plain_unicode (''http://'' @ domain_proxy) = ''http://CORP%5Cuser:pw@proxy:8080''"
  "SanitizeProxyURL plain_unicode (''http://http://'' @ domain_proxy) = ''http://http://CORP%5Cuser:pw@proxy:8080''"
  by code_simp+

lemma doh_refuses_domain_user:
  assumes "refuses_backslash L parse" "\<not> rs_isPACMode r" "rs_staticProxy r = domain_proxy"
  shows "snd (doh_proxy parse plain_unicode L B now r u) = Inl ''invalid proxy URL''"
  using assms(2,3) domain_proxy_normalized(1) [OF assms(1)] domain_proxy_refused(2) [OF assms(1)]
  by (simp add: doh_proxy_route route_of_def Resolve_def static_decision_def via_def domain_proxy_def)

lemma forwarder_takes_domain_user:
  assumes "refuses_backslash L parse" "\<not> rs_isPACMode r" "rs_staticProxy r = domain_proxy"
  shows "forwarder_route parse plain_unicode (snd (Resolve plain_unicode L B now host port r)) =
    (case parse ''http://CORP%5Cuser:pw@proxy:8080'' of None \<Rightarrow> Inl ''invalid proxy URL'' | Some u \<Rightarrow> Inr (Some u))"
  using assms domain_proxy_normalized(1) [OF assms(1)] domain_proxy_sanitized(1)
  by (simp add: forwarder_route_def Resolve_def static_decision_def via_def domain_proxy_def)

lemma scheme_doubled:
  assumes "refuses_backslash L parse" "\<not> rs_isPACMode r" "rs_staticProxy r = ''http://'' @ domain_proxy"
  shows "forwarder_route parse plain_unicode (snd (Resolve plain_unicode L B now host port r)) =
    (case parse ''http://http://CORP%5Cuser:pw@proxy:8080'' of None \<Rightarrow> Inl ''invalid proxy URL'' | Some u \<Rightarrow> Inr (Some u))"
  using assms domain_proxy_normalized(2) [OF assms(1)] domain_proxy_sanitized(2)
  by (simp add: forwarder_route_def Resolve_def static_decision_def via_def domain_proxy_def)

end
